(* ===== verification/Prelude.thy ===== *)
theory Prelude
  imports Main "HOL-Library.Word"
begin

text \<open>
  What every component of the development shares: the machine integers of the
  code, the \<open>?\<close> operator on results, the string operations of the Rust
  standard library that the code uses, the interface of an encoding that can be
  read back, and the interfaces of machines: invariants and simulations.

  Strings are the UTF-8 bytes of the Rust \<open>str\<close>. Every operation the code
  applies to a string (splitting at \<open>/\<close>, looking for \<open>/\<close>, \<open>+\<close> and \<open>#\<close>,
  comparing, concatenating) looks for ASCII characters only, and no byte of a
  longer UTF-8 sequence is an ASCII byte, so bytes and characters agree.
\<close>

section \<open>Machine types\<close>

type_synonym u8 = "8 word"
type_synonym u16 = "16 word"
type_synonym u32 = "32 word"
type_synonym u64 = "64 word"

text \<open>Floats are carried by their bit patterns: the code moves them unchanged.\<close>

type_synonym f32 = "32 word"
type_synonym f64 = "64 word"

text \<open>A \<open>std::time::Duration\<close>, in nanoseconds.\<close>

type_synonym duration = nat

abbreviation from_secs :: "nat \<Rightarrow> duration" where
  "from_secs n \<equiv> n * 1000000000"

abbreviation from_millis :: "nat \<Rightarrow> duration" where
  "from_millis n \<equiv> n * 1000000"

text \<open>The largest \<open>u32\<close>, \<open>u32::MAX\<close>.\<close>

abbreviation u32_max :: u32 where
  "u32_max \<equiv> - 1"

text \<open>\<open>saturating_sub(1)\<close>: subtraction of one that stops at zero.\<close>

definition saturating_dec :: "'a::len word \<Rightarrow> 'a word" where
  "saturating_dec x = (if x = 0 then 0 else x - 1)"

lemma unat_saturating_dec [simp]: "unat (saturating_dec x) = unat x - 1"
proof (cases "x = 0")
  case True
  then show ?thesis by (simp add: saturating_dec_def)
next
  case False
  then have "unat (x - 1) = unat x - 1"
    by (rule unat_minus_one)
  with False show ?thesis by (simp add: saturating_dec_def)
qed

lemma unat_Suc_no_wrap:
  fixes x :: "'a::len word"
  assumes "Suc (unat x) < 2 ^ LENGTH('a)"
  shows "unat (x + 1) = Suc (unat x)"
  using assms by (simp add: unat_word_ariths)

lemma unat_add_no_wrap:
  fixes x y :: "'a::len word"
  assumes "unat x + unat y < 2 ^ LENGTH('a)"
  shows "unat (x + y) = unat x + unat y"
  using assms by (simp add: unat_word_ariths)

lemma word_of_nat_eqI:
  fixes x :: "'a::len word"
  assumes "unat x = n"
  shows "word_of_nat n = x"
  using assms by (auto simp only: of_nat_unat ucast_id)

lemma unat_ucast_u32_u64 [simp]: "unat (ucast (x :: u32) :: u64) = unat x"
  by (simp only: unat_eq_nat_uint) (simp add: uint_up_ucast is_up)

lemma unat_ucast_u8_u64 [simp]: "unat (ucast (x :: u8) :: u64) = unat x"
  by (simp only: unat_eq_nat_uint) (simp add: uint_up_ucast is_up)


section \<open>Results\<close>

text \<open>
  A Rust \<open>Result<T, E>\<close> is a value of \<open>'e + 'a\<close>, with \<open>Inl\<close> for the
  error. \<open>try_then r f\<close> is the operator \<open>?\<close> followed by the rest of the
  function: an error returns at once.
\<close>

definition try_then :: "'e + 'a \<Rightarrow> ('a \<Rightarrow> 'e + 'b) \<Rightarrow> 'e + 'b" where
  "try_then r f = (case r of Inl e \<Rightarrow> Inl e | Inr x \<Rightarrow> f x)"

lemma try_then_simps [simp]:
  "try_then (Inl e) f = Inl e"
  "try_then (Inr x) f = f x"
  by (simp_all add: try_then_def)

lemma try_then_eq_Inr:
  "try_then r f = Inr y \<longleftrightarrow> (\<exists>x. r = Inr x \<and> f x = Inr y)"
  by (cases r) simp_all

lemma try_then_eq_Inl:
  "try_then r f = Inl e \<longleftrightarrow> r = Inl e \<or> (\<exists>x. r = Inr x \<and> f x = Inl e)"
  by (cases r) simp_all

text \<open>\<open>Result::ok\<close>.\<close>

definition ok :: "'e + 'a \<Rightarrow> 'a option" where
  "ok r = (case r of Inl _ \<Rightarrow> None | Inr x \<Rightarrow> Some x)"

lemma ok_simps [simp]: "ok (Inl e) = None" "ok (Inr x) = Some x"
  by (simp_all add: ok_def)

lemma ok_eq_Some [simp]: "ok r = Some x \<longleftrightarrow> r = Inr x"
  by (cases r) simp_all

lemma ok_eq_None: "ok r = None \<longleftrightarrow> (\<exists>e. r = Inl e)"
  by (cases r) simp_all

text \<open>\<open>slice::get\<close>: a read that reports an index out of range.\<close>

definition get :: "'a list \<Rightarrow> nat \<Rightarrow> 'a option" where
  "get xs i = (if i < length xs then Some (xs ! i) else None)"

lemma get_simps [simp]:
  "get [] i = None"
  "get (x # xs) 0 = Some x"
  "get (x # xs) (Suc i) = get xs i"
  by (simp_all add: get_def)

lemma get_numeral [simp]: "get (x # xs) (numeral k) = get xs (pred_numeral k)"
  by (simp add: get_def numeral_eq_Suc)


section \<open>Splitting and joining\<close>

text \<open>
  \<open>str::split(c)\<close>, collected into a vector: the pieces between the
  occurrences of \<open>c\<close>, empty pieces included, so an empty string gives one
  empty piece.
\<close>

fun split_on :: "char \<Rightarrow> string \<Rightarrow> string list" where
  "split_on c [] = [[]]"
| "split_on c (x # xs) =
     (if x = c then [] # split_on c xs
      else (case split_on c xs of
              [] \<Rightarrow> [[x]]
            | p # ps \<Rightarrow> (x # p) # ps))"

fun join_with :: "char \<Rightarrow> string list \<Rightarrow> string" where
  "join_with c [] = []"
| "join_with c [p] = p"
| "join_with c (p # q # ps) = p @ c # join_with c (q # ps)"

lemma split_on_not_Nil [simp]: "split_on c s \<noteq> []"
  by (induction s) (auto split: list.splits)

lemma join_with_Cons:
  "ps \<noteq> [] \<Longrightarrow> join_with c (p # ps) = p @ c # join_with c ps"
  by (cases ps) simp_all

lemma join_split: "join_with c (split_on c s) = s"
proof (induction s)
  case Nil
  show ?case by simp
next
  case (Cons x s)
  obtain p ps where eq: "split_on c s = p # ps"
    by (cases "split_on c s") auto
  with Cons.IH show ?case
    by (cases ps) (auto simp: join_with_Cons)
qed

lemma split_on_absent: "c \<notin> set p \<Longrightarrow> split_on c p = [p]"
  by (induction p) auto

lemma split_on_append:
  "c \<notin> set p \<Longrightarrow> split_on c (p @ c # s) = p # split_on c s"
  by (induction p) auto

lemma split_join:
  "ps \<noteq> [] \<Longrightarrow> \<forall>p\<in>set ps. c \<notin> set p \<Longrightarrow> split_on c (join_with c ps) = ps"
  by (induction c ps rule: join_with.induct)
     (auto simp: split_on_absent split_on_append)

lemma split_on_pieces: "\<forall>p\<in>set (split_on c s). c \<notin> set p"
proof (induction s)
  case Nil
  show ?case by simp
next
  case (Cons x s)
  then show ?case
    by (cases "split_on c s") auto
qed


section \<open>Decimal text\<close>

text \<open>
  \<open>{}\<close> of an unsigned integer, and the reading of a text of digits that
  goes back to it.
\<close>

definition decimal_digit :: "nat \<Rightarrow> char" where
  "decimal_digit n = char_of (48 + n)"

fun decimal :: "nat \<Rightarrow> string" where
  "decimal n = (if n < 10 then [decimal_digit n] else decimal (n div 10) @ [decimal_digit (n mod 10)])"

declare decimal.simps [simp del]

definition digit_value :: "char \<Rightarrow> nat" where
  "digit_value c = of_char c - 48"

definition undecimal :: "string \<Rightarrow> nat" where
  "undecimal s = foldl (\<lambda>n c. 10 * n + digit_value c) 0 s"

lemma digit_value_digit [simp]: "n < 10 \<Longrightarrow> digit_value (decimal_digit n) = n"
  by (simp add: digit_value_def decimal_digit_def)

lemma undecimal_decimal [simp]: "undecimal (decimal n) = n"
proof (induction n rule: decimal.induct)
  case (1 n)
  then show ?case
    by (subst decimal.simps) (auto simp: undecimal_def)
qed

lemma decimal_eq_iff [simp]: "decimal m = decimal n \<longleftrightarrow> m = n"
  by (metis undecimal_decimal)

definition is_digit :: "char \<Rightarrow> bool" where
  "is_digit c \<longleftrightarrow> (of_char c :: nat) \<in> {48..<58}"

lemma is_digit_decimal_digit: "n < 10 \<Longrightarrow> is_digit (decimal_digit n)"
  by (simp add: is_digit_def decimal_digit_def)

lemma decimal_digits: "list_all is_digit (decimal n)"
proof (induction n rule: decimal.induct)
  case (1 n)
  then show ?case
    by (subst decimal.simps) (simp add: is_digit_decimal_digit)
qed

lemma decimal_not_Nil [simp]: "decimal n \<noteq> []"
  by (subst decimal.simps) simp

section \<open>Encodings that can be read back\<close>

text \<open>
  The code pairs a writer with a reader in several places: a message type and
  its text, a datatype and its number, a topic and its path. \<open>codec\<close> states
  the contract of such a pair on the values that are \<open>valid\<close>;
  \<open>canonical_codec\<close> adds that the reader accepts nothing the writer does not
  produce.
\<close>

locale codec =
  fixes render :: "'a \<Rightarrow> 'b"
    and reads :: "'b \<Rightarrow> 'a option"
    and valid :: "'a \<Rightarrow> bool"
  assumes reads_render: "valid x \<Longrightarrow> reads (render x) = Some x"
begin

lemma render_injective:
  assumes "valid x" and "valid y" and "render x = render y"
  shows "x = y"
proof -
  have "Some x = reads (render x)" using assms(1) by (rule reads_render [symmetric])
  also have "\<dots> = reads (render y)" by (simp only: assms(3))
  also have "\<dots> = Some y" using assms(2) by (rule reads_render)
  finally show ?thesis by (rule option.inject [THEN iffD1])
qed

lemma render_inj_on: "inj_on render {x. valid x}"
  using render_injective by (simp add: inj_on_def)

end

locale canonical_codec = codec +
  assumes render_reads: "reads y = Some x \<Longrightarrow> valid x \<and> render x = y"
begin

lemma reads_iff: "reads y = Some x \<longleftrightarrow> valid x \<and> render x = y"
  using reads_render render_reads by blast

lemma reads_injective: "reads y = Some x \<Longrightarrow> reads z = Some x \<Longrightarrow> y = z"
  using render_reads by blast

lemma reads_None_iff: "reads y = None \<longleftrightarrow> (\<forall>x. valid x \<longrightarrow> render x \<noteq> y)"
proof (cases "reads y")
  case None
  then show ?thesis using reads_render by fastforce
next
  case (Some x)
  then have "valid x \<and> render x = y" by (rule render_reads)
  with Some show ?thesis by auto
qed

end


section \<open>Machines\<close>

text \<open>
  A component that runs beside others is a machine: a partial function that
  says what one labelled step does to its state, \<open>None\<close> where the step is not
  possible. \<open>run\<close> makes the steps of a list one after the other.
\<close>

fun run :: "('l \<Rightarrow> 's \<Rightarrow> 's option) \<Rightarrow> 'l list \<Rightarrow> 's \<Rightarrow> 's option" where
  "run step [] s = Some s"
| "run step (l # ls) s = (case step l s of None \<Rightarrow> None | Some t \<Rightarrow> run step ls t)"

lemma run_append: "run step (ls @ ms) s = Option.bind (run step ls s) (run step ms)"
  by (induction ls arbitrary: s) (auto split: option.split)

text \<open>
  The contract of an invariant: every possible step keeps it, and so does
  every run. The contract of a refinement: a concrete machine can follow every
  step of an abstract one, and the two states stay related, as long as the
  abstract state stays within \<open>bound\<close>.
\<close>

locale machine_invariant =
  fixes step :: "'l \<Rightarrow> 's \<Rightarrow> 's option"
    and inv :: "'s \<Rightarrow> bool"
  assumes step_inv: "inv s \<Longrightarrow> step l s = Some t \<Longrightarrow> inv t"
begin

lemma run_inv: "inv s \<Longrightarrow> run step ls s = Some t \<Longrightarrow> inv t"
  by (induction ls arbitrary: s) (auto split: option.splits dest: step_inv)

end

locale simulation =
  fixes cstep :: "'l \<Rightarrow> 'c \<Rightarrow> 'c option"
    and astep :: "'l \<Rightarrow> 'a \<Rightarrow> 'a option"
    and related :: "'c \<Rightarrow> 'a \<Rightarrow> bool"
    and bound :: "'a \<Rightarrow> bool"
  assumes follow:
      "related c a \<Longrightarrow> astep l a = Some a' \<Longrightarrow> bound a' \<Longrightarrow>
         \<exists>c'. cstep l c = Some c' \<and> related c' a'"
    and bound_before: "astep l a = Some a' \<Longrightarrow> bound a' \<Longrightarrow> bound a"
begin

lemma bound_run: "run astep ls a = Some a' \<Longrightarrow> bound a' \<Longrightarrow> bound a"
  by (induction ls arbitrary: a) (auto split: option.splits dest: bound_before)

lemma run_follow:
  assumes "related c a" and "run astep ls a = Some a'" and "bound a'"
  shows "\<exists>c'. run cstep ls c = Some c' \<and> related c' a'"
  using assms
proof (induction ls arbitrary: c a)
  case Nil
  then show ?case by simp
next
  case (Cons l ls)
  from Cons.prems(2) obtain b where b: "astep l a = Some b" "run astep ls b = Some a'"
    by (auto split: option.splits)
  have "bound b" using b(2) Cons.prems(3) by (rule bound_run)
  then obtain d where d: "cstep l c = Some d" "related d b"
    using follow [OF Cons.prems(1) b(1)] by auto
  have "run cstep (l # ls) c = run cstep ls d" by (simp add: d(1))
  with Cons.IH [OF d(2) b(2) Cons.prems(3)] show ?case by (simp only:)
qed

end

text \<open>
  The contract of operations that take effect one after the other: a machine
  whose steps are parts of operations can be followed by operations done whole.
  Each step completes some operations, which give the results the step adds, and
  every operation under way is completed once. The log of a run is the order in
  which its operations took effect.
\<close>

fun in_turn :: "('e \<Rightarrow> 'a \<Rightarrow> 'r \<times> 'a) \<Rightarrow> 'e list \<Rightarrow> 'a \<Rightarrow> 'r list \<times> 'a" where
  "in_turn whole [] a = ([], a)"
| "in_turn whole (e # es) a =
     (let (r, a1) = whole e a; (rs, a2) = in_turn whole es a1 in (r # rs, a2))"

lemma in_turn_append:
  "in_turn whole es a = (rs, a1) \<Longrightarrow> in_turn whole es' a1 = (rs', a2) \<Longrightarrow>
     in_turn whole (es @ es') a = (rs @ rs', a2)"
  by (induction es arbitrary: a rs) (auto split: prod.splits)

locale serializable =
  fixes step :: "'l \<Rightarrow> 's \<Rightarrow> 's option"
    and allowed :: "'l \<Rightarrow> bool"
    and inv :: "'s \<Rightarrow> bool"
    and related :: "'s \<Rightarrow> 'a \<Rightarrow> bool"
    and whole :: "'e \<Rightarrow> 'a \<Rightarrow> 'r \<times> 'a"
    and results :: "'s \<Rightarrow> 'r list"
    and begun :: "'i \<Rightarrow> 'l \<Rightarrow> 'o list"
    and under_way :: "'i \<Rightarrow> 's \<Rightarrow> 'o list"
    and completed :: "'i \<Rightarrow> 'e \<Rightarrow> 'o list"
  assumes step_inv: "inv s \<Longrightarrow> step l s = Some t \<Longrightarrow> inv t"
    and step_whole:
      "inv s \<Longrightarrow> related s a \<Longrightarrow> allowed l \<Longrightarrow> step l s = Some t \<Longrightarrow>
         \<exists>es rs a'. in_turn whole es a = (rs, a') \<and> related t a' \<and> results t = results s @ rs \<and>
           (\<forall>i. concat (map (completed i) es) @ under_way i t = under_way i s @ begun i l)"
begin

lemma run_whole:
  assumes "run step ls s = Some t" and "inv s" and "related s a" and "list_all allowed ls"
  shows "\<exists>es rs a'. in_turn whole es a = (rs, a') \<and> related t a' \<and> results t = results s @ rs \<and>
    (\<forall>i. concat (map (completed i) es) @ under_way i t = under_way i s @ concat (map (begun i) ls))"
  using assms
proof (induction ls arbitrary: s a)
  case Nil
  then show ?case by (intro exI [of _ "[]"]) auto
next
  case (Cons l ls)
  then obtain u where u: "step l s = Some u" "run step ls u = Some t" by (auto split: option.splits)
  obtain es rs a1 where one: "in_turn whole es a = (rs, a1)" "related u a1" "results u = results s @ rs"
    "\<And>i. concat (map (completed i) es) @ under_way i u = under_way i s @ begun i l"
    using step_whole [OF Cons.prems(2,3) _ u(1)] Cons.prems(4) by auto
  have "inv u" by (rule step_inv [OF Cons.prems(2) u(1)])
  from Cons.IH [OF u(2) this one(2)] Cons.prems(4)
  obtain es' rs' a2 where rest: "in_turn whole es' a1 = (rs', a2)" "related t a2" "results t = results u @ rs'"
    "\<And>i. concat (map (completed i) es') @ under_way i t = under_way i u @ concat (map (begun i) ls)"
    by auto
  have "concat (map (completed i) (es @ es')) @ under_way i t =
      under_way i s @ concat (map (begun i) (l # ls))" for i
    using one(4) [of i] by (simp add: rest(4))
  then show ?case
    using in_turn_append [OF one(1) rest(1)] rest(2,3) one(3)
    by (intro exI [of _ "es @ es'"] exI [of _ "rs @ rs'"] exI [of _ a2]) simp
qed

end

end
