(* ===== verification/Errors.thy ===== *)
theory Errors
  imports Prelude
begin

text \<open>
  The error type of the crate (\<open>src/error.rs\<close>) and the message types its
  variants name (\<open>MessageType\<close> of \<open>src/sparkplug/types.rs\<close>).

  \<open>rumqttc::ClientError\<close>, \<open>prost::EncodeError\<close> and \<open>prost::DecodeError\<close>
  belong to other crates. They are one type parameter \<open>'x\<close>: the code only
  carries such a value from where it arises to the caller.
\<close>

datatype MessageType =
    NBIRTH
  | NDATA
  | NDEATH
  | DBIRTH
  | DDATA
  | DDEATH
  | NCMD
  | DCMD
  | STATE

datatype 'x SparkplugError =
    Connection string
  | ConnectionTimeout duration
  | Publish 'x
  | Encode 'x
  | Decode 'x
  | InvalidTopic string
  | UnknownMessageType string
  | InvalidNamespace string
  | WrongTopicShape (wrong_topic: string) (wrong_message_type: MessageType)
  | PublishLost u32
  | Disconnect 'x
  | ShutdownTimeout duration
  | NotAnEdgeNode
  | FlushTimeout (flush_after: duration) (flush_unacked: u32)

lemma all_MessageType:
  "(\<forall>mt. P mt) \<longleftrightarrow> P NBIRTH \<and> P NDATA \<and> P NDEATH \<and> P DBIRTH \<and> P DDATA \<and> P DDEATH
      \<and> P NCMD \<and> P DCMD \<and> P STATE"
  by (auto intro: MessageType.induct)

end
