(* ===== verification/Types.thy ===== *)
theory Types
  imports Errors
begin

text \<open>
  The message types, roles and wire options of \<open>src/sparkplug/types.rs\<close>, and
  its timestamp. \<open>MetricValue\<close> of the same file stands in the theory
  \<open>Payload_Helpers\<close>, beside the payload it is written to.
\<close>

section \<open>Shape and message type\<close>

datatype Shape = ShapeNode | ShapeDevice | ShapeHost

text \<open>\<open>rumqttc::QoS\<close>: the three levels of the MQTT standard.\<close>

datatype QoS = AtMostOnce | AtLeastOnce | ExactlyOnce

fun as_str :: "MessageType \<Rightarrow> string" where
  "as_str NBIRTH = ''NBIRTH''"
| "as_str NDATA = ''NDATA''"
| "as_str NDEATH = ''NDEATH''"
| "as_str DBIRTH = ''DBIRTH''"
| "as_str DDATA = ''DDATA''"
| "as_str DDEATH = ''DDEATH''"
| "as_str NCMD = ''NCMD''"
| "as_str DCMD = ''DCMD''"
| "as_str STATE = ''STATE''"

fun shape :: "MessageType \<Rightarrow> Shape" where
  "shape NBIRTH = ShapeNode"
| "shape NDATA = ShapeNode"
| "shape NDEATH = ShapeNode"
| "shape NCMD = ShapeNode"
| "shape DBIRTH = ShapeDevice"
| "shape DDATA = ShapeDevice"
| "shape DDEATH = ShapeDevice"
| "shape DCMD = ShapeDevice"
| "shape STATE = ShapeHost"

fun spec_qos :: "MessageType \<Rightarrow> QoS" where
  "spec_qos NDEATH = AtLeastOnce"
| "spec_qos STATE = AtLeastOnce"
| "spec_qos _ = AtMostOnce"

fun spec_retain :: "MessageType \<Rightarrow> bool" where
  "spec_retain STATE = True"
| "spec_retain _ = False"

definition from_str :: "string \<Rightarrow> 'x SparkplugError + MessageType" where
  "from_str s =
     (if s = ''NBIRTH'' then Inr NBIRTH
      else if s = ''NDATA'' then Inr NDATA
      else if s = ''NDEATH'' then Inr NDEATH
      else if s = ''DBIRTH'' then Inr DBIRTH
      else if s = ''DDATA'' then Inr DDATA
      else if s = ''DDEATH'' then Inr DDEATH
      else if s = ''NCMD'' then Inr NCMD
      else if s = ''DCMD'' then Inr DCMD
      else if s = ''STATE'' then Inr STATE
      else Inl (UnknownMessageType s))"

lemma from_str_as_str [simp]: "from_str (as_str mt) = Inr mt"
  by (cases mt) (simp_all add: from_str_def)

lemma from_str_Inr: "from_str s = Inr mt \<Longrightarrow> as_str mt = s"
  by (auto simp: from_str_def split: if_splits)

lemma from_str_Inl: "from_str s = Inl e \<Longrightarrow> e = UnknownMessageType s"
  by (auto simp: from_str_def split: if_splits)

interpretation message_type_text:
  canonical_codec as_str "\<lambda>s. ok (from_str s :: unit SparkplugError + MessageType)" "\<lambda>_. True"
  by unfold_locales (simp_all add: from_str_Inr)

lemma as_str_eq_iff [simp]: "as_str a = as_str b \<longleftrightarrow> a = b"
  using message_type_text.render_injective by blast

lemma as_str_usable: "as_str mt \<noteq> [] \<and> CHR ''/'' \<notin> set (as_str mt)"
  by (cases mt) simp_all

lemma as_str_no_slash [simp]: "CHR ''/'' \<notin> set (as_str mt)"
  by (simp add: as_str_usable)

lemma shape_Host_iff [simp]: "shape mt = ShapeHost \<longleftrightarrow> mt = STATE"
  by (cases mt) simp_all

lemma spec_retain_iff: "spec_retain mt \<longleftrightarrow> mt = STATE"
  by (cases mt) simp_all

lemma spec_qos_iff: "spec_qos mt = AtLeastOnce \<longleftrightarrow> mt = NDEATH \<or> mt = STATE"
  by (cases mt) simp_all

lemma spec_qos_cases: "spec_qos mt = AtLeastOnce \<or> spec_qos mt = AtMostOnce"
  by (cases mt) simp_all


section \<open>Role and wire options\<close>

datatype Role = RolePublisher | RoleEdgeNode

record WireOptions =
  qos :: QoS
  retain :: bool
  tracked :: bool

definition wire_options :: "Role \<Rightarrow> MessageType \<Rightarrow> WireOptions" where
  "wire_options role message_type =
     (let q = (case role of
                 RoleEdgeNode \<Rightarrow> spec_qos message_type
               | RolePublisher \<Rightarrow> AtLeastOnce)
      in \<lparr>qos = q,
          retain = spec_retain message_type,
          tracked = (case q of AtLeastOnce \<Rightarrow> True | _ \<Rightarrow> False)\<rparr>)"

lemma wire_options_simps [simp]:
  "qos (wire_options RolePublisher mt) = AtLeastOnce"
  "qos (wire_options RoleEdgeNode mt) = spec_qos mt"
  "retain (wire_options role mt) = spec_retain mt"
  by (simp_all add: wire_options_def Let_def)

lemma tracked_iff_acknowledged:
  "tracked (wire_options role mt) \<longleftrightarrow> qos (wire_options role mt) = AtLeastOnce"
  by (cases role) (auto simp: wire_options_def Let_def split: QoS.splits)

lemma tracked_iff:
  "tracked (wire_options role mt) \<longleftrightarrow> role = RolePublisher \<or> mt = NDEATH \<or> mt = STATE"
  by (cases role) (simp_all add: tracked_iff_acknowledged spec_qos_iff)

lemma qos_never_ExactlyOnce: "qos (wire_options role mt) \<noteq> ExactlyOnce"
  using spec_qos_cases [of mt] by (cases role) auto


section \<open>Timestamp\<close>

text \<open>
  \<open>Timestamp\<close> derives its order from its one field, which the instance of
  \<open>linorder\<close> gives.
\<close>

datatype Timestamp = Timestamp (millis: u64)

instantiation Timestamp :: linorder
begin

definition less_eq_Timestamp :: "Timestamp \<Rightarrow> Timestamp \<Rightarrow> bool" where
  "a \<le> b \<longleftrightarrow> millis a \<le> millis b"

definition less_Timestamp :: "Timestamp \<Rightarrow> Timestamp \<Rightarrow> bool" where
  "a < b \<longleftrightarrow> millis a < millis b"

instance
  by standard (auto simp: less_eq_Timestamp_def less_Timestamp_def Timestamp.expand)

end

text \<open>
  \<open>Timestamp::now\<close>. The argument is what \<open>SystemTime::now()\<close> reads, in
  nanoseconds relative to the Unix epoch. A clock before the epoch gives an
  error, which \<open>unwrap_or_default\<close> turns into zero; \<open>as u64\<close> keeps the low
  64 bits of the milliseconds.
\<close>

definition now :: "int \<Rightarrow> Timestamp" where
  "now clock =
     (let since_epoch = (if clock < 0 then 0 else nat clock)
      in Timestamp (word_of_nat (since_epoch div 1000000)))"

lemma now_before_epoch: "clock < 0 \<Longrightarrow> now clock = Timestamp 0"
  by (simp add: now_def)

lemma now_exact:
  assumes "0 \<le> clock" and "clock < 1000000 * 2 ^ 64"
  shows "uint (millis (now clock)) = clock div 1000000"
proof -
  have "nat clock div 1000000 < 2 ^ 64"
    using assms by (simp add: div_less_iff_less_mult nat_less_iff)
  then have "unat (word_of_nat (nat clock div 1000000) :: u64) = nat clock div 1000000"
    by (simp add: unat_of_nat)
  then have "uint (word_of_nat (nat clock div 1000000) :: u64) = int (nat clock div 1000000)"
    by (simp only: uint_nat)
  also have "\<dots> = clock div 1000000"
    using assms(1) by (simp add: zdiv_int)
  finally show ?thesis
    using assms(1) by (simp add: now_def)
qed

lemma now_mono:
  assumes "a \<le> b" and "b < 1000000 * 2 ^ 64"
  shows "now a \<le> now b"
proof (cases "a < 0")
  case True
  then show ?thesis by (simp add: now_before_epoch less_eq_Timestamp_def)
next
  case False
  then have "uint (millis (now a)) = a div 1000000" "uint (millis (now b)) = b div 1000000"
    using assms by (simp_all add: now_exact)
  moreover have "a div 1000000 \<le> b div 1000000"
    using assms(1) by (rule zdiv_mono1) simp
  ultimately show ?thesis
    by (simp add: less_eq_Timestamp_def word_le_def)
qed


section \<open>Properties\<close>

text \<open>
  Message type text: \<open>from_str\<close> accepts exactly the nine texts \<open>as_str\<close>
  writes and gives back the type that was written; every other text is the
  error \<open>UnknownMessageType\<close> with that text.
\<close>

theorem message_type_parsing:
  "(from_str s = (Inr mt :: 'x SparkplugError + MessageType) \<longleftrightarrow> s = as_str mt) \<and>
   (from_str s = (Inl e :: 'x SparkplugError + MessageType) \<longleftrightarrow>
      e = UnknownMessageType s \<and> s \<notin> range as_str)"
proof (cases "from_str s :: 'x SparkplugError + MessageType")
  case (Inl e')
  then show ?thesis by (auto dest: from_str_Inl)
next
  case (Inr mt')
  then show ?thesis by (auto dest: from_str_Inr)
qed

text \<open>
  Wire options: the tracker counts a message exactly when the broker
  acknowledges it, which is every message of a publisher, and NDEATH and STATE
  of an edge node; no message goes out at QoS 2; STATE alone is retained.
\<close>

theorem wire_options_table:
  "(tracked (wire_options r mt) \<longleftrightarrow> qos (wire_options r mt) = AtLeastOnce) \<and>
   (qos (wire_options r mt) = AtLeastOnce \<longleftrightarrow> r = RolePublisher \<or> mt \<in> {NDEATH, STATE}) \<and>
   qos (wire_options r mt) \<in> {AtMostOnce, AtLeastOnce} \<and>
   (retain (wire_options r mt) \<longleftrightarrow> mt = STATE)"
  using tracked_iff [of r mt] tracked_iff_acknowledged [of r mt] qos_never_ExactlyOnce [of r mt]
  by (cases "qos (wire_options r mt)") (auto simp: spec_retain_iff)

text \<open>
  Timestamps follow the clock: for any clock the 64-bit milliseconds can
  hold, a later reading gives no earlier timestamp, a reading after the epoch
  is exact to the millisecond, and one before it gives 0.
\<close>

theorem timestamps_follow_clock:
  assumes "a \<le> b" and "b < 1000000 * 2 ^ 64"
  shows "now a \<le> now b \<and> uint (millis (now a)) = (if a < 0 then 0 else a div 1000000)"
  using assms now_mono [of a b] now_exact [of a] now_before_epoch [of a] by auto

theorem timestamps_follow_clock_witness:
  "now (-5) \<le> now 1700000000123456789 \<and> uint (millis (now (-5))) = 0 \<and>
   uint (millis (now 1700000000123456789)) = 1700000000123"
  using timestamps_follow_clock [of "-5" 1700000000123456789]
    timestamps_follow_clock [of 1700000000123456789 1700000000123456789] by simp

end
