(* ===== verification/Topic_Ids.thy ===== *)
theory Topic_Ids
  imports Types
begin

text \<open>
  The checked identifiers of \<open>src/sparkplug/topic/ids.rs\<close>: the segment check,
  the four types the macro \<open>topic_id!\<close> generates, the pair \<open>EdgeNode\<close> that
  names one edge node and its owned form.

  Rust keeps the field of an identifier private, so a value of one of these
  types passed its check when it was built. Here the constructors are open, and
  that guarantee is the predicate \<open>\<dots>_usable\<close>: the constructors \<open>\<dots>_new\<close>
  establish it, and the lemmas of the topic code carry it as a hypothesis.
\<close>

section \<open>The segment check\<close>

definition is_usable_segment :: "string \<Rightarrow> bool" where
  "is_usable_segment v \<longleftrightarrow>
     v \<noteq> [] \<and> \<not> list_ex (\<lambda>c. c = CHR ''/'' \<or> c = CHR ''+'' \<or> c = CHR ''#'') v"

lemma is_usable_segment_iff:
  "is_usable_segment v \<longleftrightarrow>
     v \<noteq> [] \<and> CHR ''/'' \<notin> set v \<and> CHR ''+'' \<notin> set v \<and> CHR ''#'' \<notin> set v"
  by (auto simp: is_usable_segment_def list_ex_iff)

lemma usable_no_slash [simp]: "is_usable_segment v \<Longrightarrow> CHR ''/'' \<notin> set v"
  by (simp add: is_usable_segment_iff)

lemma usable_not_empty: "is_usable_segment v \<Longrightarrow> v \<noteq> []"
  by (simp add: is_usable_segment_iff)

lemma as_str_is_usable [simp]: "is_usable_segment (as_str mt)"
  by (cases mt) (simp_all add: is_usable_segment_iff)


section \<open>The text of a rejected identifier\<close>

text \<open>
  \<open>{value:?}\<close> of a string. The ASCII part follows the standard library:
  quotes and backslashes are escaped, a tab, a line feed, a carriage return and
  a NUL have their short forms, any other control character is \<open>\\u{..}\<close> in
  hexadecimal, and everything else stands for itself. Bytes of longer
  characters are passed through, which is what the library does with every
  printable one.
\<close>

fun hex_digit :: "nat \<Rightarrow> char" where
  "hex_digit n = char_of (if n < 10 then 48 + n else 87 + n)"

definition hex_lower :: "nat \<Rightarrow> string" where
  "hex_lower n = (if n < 16 then [hex_digit n] else [hex_digit (n div 16), hex_digit (n mod 16)])"

definition debug_char :: "char \<Rightarrow> string" where
  "debug_char c =
     (let n = of_char c :: nat
      in if n = 0 then [CHR 0x5C, CHR ''0'']
         else if n = 9 then [CHR 0x5C, CHR ''t'']
         else if n = 10 then [CHR 0x5C, CHR ''n'']
         else if n = 13 then [CHR 0x5C, CHR ''r'']
         else if n = 34 then [CHR 0x5C, CHR 0x22]
         else if n = 92 then [CHR 0x5C, CHR 0x5C]
         else if n < 32 \<or> n = 127 then CHR 0x5C # ''u{'' @ hex_lower n @ ''}''
         else [c])"

definition debug_str :: "string \<Rightarrow> string" where
  "debug_str v = CHR 0x22 # concat (map debug_char v) @ [CHR 0x22]"

definition rejected_segment :: "string \<Rightarrow> string \<Rightarrow> string" where
  "rejected_segment label v =
     label @ '' '' @ debug_str v @ '' must be non-empty and free of '' @
     [CHR 0x27, CHR ''/'', CHR 0x27] @ '', '' @ [CHR 0x27, CHR ''+'', CHR 0x27] @
     '' and '' @ [CHR 0x27, CHR ''#'', CHR 0x27]"


section \<open>The four identifiers\<close>

text \<open>The body of \<open>new\<close> in the macro \<open>topic_id!\<close>, for one label.\<close>

definition topic_id_new :: "string \<Rightarrow> string \<Rightarrow> 'x SparkplugError + string" where
  "topic_id_new label v =
     (if is_usable_segment v then Inr v
      else Inl (InvalidTopic (rejected_segment label v)))"

lemma topic_id_new_Inr [simp]: "topic_id_new label v = Inr w \<longleftrightarrow> is_usable_segment v \<and> w = v"
  by (auto simp: topic_id_new_def)

lemma topic_id_new_usable: "is_usable_segment v \<Longrightarrow> topic_id_new label v = Inr v"
  by simp

lemma topic_id_new_Inl:
  "topic_id_new label v = Inl e \<longleftrightarrow>
     \<not> is_usable_segment v \<and> e = InvalidTopic (rejected_segment label v)"
  by (auto simp: topic_id_new_def)

datatype GroupId = GroupId (group_text: string)
datatype EdgeNodeId = EdgeNodeId (node_text: string)
datatype DeviceId = DeviceId (device_text: string)
datatype HostId = HostId (host_text: string)

definition GroupId_new :: "string \<Rightarrow> 'x SparkplugError + GroupId" where
  "GroupId_new v = try_then (topic_id_new ''group id'' v) (\<lambda>v. Inr (GroupId v))"

definition EdgeNodeId_new :: "string \<Rightarrow> 'x SparkplugError + EdgeNodeId" where
  "EdgeNodeId_new v = try_then (topic_id_new ''edge node id'' v) (\<lambda>v. Inr (EdgeNodeId v))"

definition DeviceId_new :: "string \<Rightarrow> 'x SparkplugError + DeviceId" where
  "DeviceId_new v = try_then (topic_id_new ''device id'' v) (\<lambda>v. Inr (DeviceId v))"

definition HostId_new :: "string \<Rightarrow> 'x SparkplugError + HostId" where
  "HostId_new v = try_then (topic_id_new ''host id'' v) (\<lambda>v. Inr (HostId v))"

text \<open>
  What the macro implements on each of them: \<open>as_str\<close>, \<open>TryFrom\<close>, \<open>AsRef\<close> and
  \<open>Display\<close>.
\<close>

definition GroupId_as_str :: "GroupId \<Rightarrow> string" where
  "GroupId_as_str i = group_text i"

definition GroupId_try_from :: "string \<Rightarrow> 'x SparkplugError + GroupId" where
  "GroupId_try_from v = GroupId_new v"

definition GroupId_as_ref :: "GroupId \<Rightarrow> string" where
  "GroupId_as_ref i = group_text i"

definition GroupId_to_string :: "GroupId \<Rightarrow> string" where
  "GroupId_to_string i = group_text i"

definition EdgeNodeId_as_str :: "EdgeNodeId \<Rightarrow> string" where
  "EdgeNodeId_as_str i = node_text i"

definition EdgeNodeId_try_from :: "string \<Rightarrow> 'x SparkplugError + EdgeNodeId" where
  "EdgeNodeId_try_from v = EdgeNodeId_new v"

definition EdgeNodeId_as_ref :: "EdgeNodeId \<Rightarrow> string" where
  "EdgeNodeId_as_ref i = node_text i"

definition EdgeNodeId_to_string :: "EdgeNodeId \<Rightarrow> string" where
  "EdgeNodeId_to_string i = node_text i"

definition DeviceId_as_str :: "DeviceId \<Rightarrow> string" where
  "DeviceId_as_str i = device_text i"

definition DeviceId_try_from :: "string \<Rightarrow> 'x SparkplugError + DeviceId" where
  "DeviceId_try_from v = DeviceId_new v"

definition DeviceId_as_ref :: "DeviceId \<Rightarrow> string" where
  "DeviceId_as_ref i = device_text i"

definition DeviceId_to_string :: "DeviceId \<Rightarrow> string" where
  "DeviceId_to_string i = device_text i"

definition HostId_as_str :: "HostId \<Rightarrow> string" where
  "HostId_as_str i = host_text i"

definition HostId_try_from :: "string \<Rightarrow> 'x SparkplugError + HostId" where
  "HostId_try_from v = HostId_new v"

definition HostId_as_ref :: "HostId \<Rightarrow> string" where
  "HostId_as_ref i = host_text i"

definition HostId_to_string :: "HostId \<Rightarrow> string" where
  "HostId_to_string i = host_text i"

abbreviation group_usable :: "GroupId \<Rightarrow> bool" where
  "group_usable g \<equiv> is_usable_segment (group_text g)"

abbreviation node_usable :: "EdgeNodeId \<Rightarrow> bool" where
  "node_usable n \<equiv> is_usable_segment (node_text n)"

abbreviation device_usable :: "DeviceId \<Rightarrow> bool" where
  "device_usable d \<equiv> is_usable_segment (device_text d)"

abbreviation host_usable :: "HostId \<Rightarrow> bool" where
  "host_usable h \<equiv> is_usable_segment (host_text h)"

lemma GroupId_new_Inr [simp]: "GroupId_new v = Inr g \<longleftrightarrow> is_usable_segment v \<and> g = GroupId v"
  by (auto simp: GroupId_new_def try_then_eq_Inr)

lemma EdgeNodeId_new_Inr [simp]:
  "EdgeNodeId_new v = Inr n \<longleftrightarrow> is_usable_segment v \<and> n = EdgeNodeId v"
  by (auto simp: EdgeNodeId_new_def try_then_eq_Inr)

lemma DeviceId_new_Inr [simp]: "DeviceId_new v = Inr d \<longleftrightarrow> is_usable_segment v \<and> d = DeviceId v"
  by (auto simp: DeviceId_new_def try_then_eq_Inr)

lemma HostId_new_Inr [simp]: "HostId_new v = Inr h \<longleftrightarrow> is_usable_segment v \<and> h = HostId v"
  by (auto simp: HostId_new_def try_then_eq_Inr)

lemma id_new_Inl:
  "GroupId_new v = Inl e \<longleftrightarrow>
     \<not> is_usable_segment v \<and> e = InvalidTopic (rejected_segment ''group id'' v)"
  "EdgeNodeId_new v = Inl e \<longleftrightarrow>
     \<not> is_usable_segment v \<and> e = InvalidTopic (rejected_segment ''edge node id'' v)"
  "DeviceId_new v = Inl e \<longleftrightarrow>
     \<not> is_usable_segment v \<and> e = InvalidTopic (rejected_segment ''device id'' v)"
  "HostId_new v = Inl e \<longleftrightarrow>
     \<not> is_usable_segment v \<and> e = InvalidTopic (rejected_segment ''host id'' v)"
  by (auto simp: GroupId_new_def EdgeNodeId_new_def DeviceId_new_def HostId_new_def
      try_then_eq_Inl topic_id_new_Inl)

lemma id_new_usable:
  assumes "is_usable_segment v"
  shows "GroupId_new v = Inr (GroupId v)" "EdgeNodeId_new v = Inr (EdgeNodeId v)"
    "DeviceId_new v = Inr (DeviceId v)" "HostId_new v = Inr (HostId v)"
  using assms by simp_all


section \<open>The edge node pair\<close>

record EdgeNode =
  en_group :: GroupId
  en_edge_node_id :: EdgeNodeId

definition EdgeNode_new :: "GroupId \<Rightarrow> EdgeNodeId \<Rightarrow> EdgeNode" where
  "EdgeNode_new g n = \<lparr>en_group = g, en_edge_node_id = n\<rparr>"

record OwnedEdgeNode =
  owned_group :: string
  owned_edge_node_id :: string

text \<open>\<open>From<EdgeNode> for OwnedEdgeNode\<close>, and the way back, which rewraps.\<close>

definition to_owned :: "EdgeNode \<Rightarrow> OwnedEdgeNode" where
  "to_owned e = \<lparr>owned_group = group_text (en_group e),
                 owned_edge_node_id = node_text (en_edge_node_id e)\<rparr>"

definition of_owned :: "OwnedEdgeNode \<Rightarrow> EdgeNode" where
  "of_owned o' = EdgeNode_new (GroupId (owned_group o')) (EdgeNodeId (owned_edge_node_id o'))"

definition edge_node_usable :: "EdgeNode \<Rightarrow> bool" where
  "edge_node_usable e \<longleftrightarrow> group_usable (en_group e) \<and> node_usable (en_edge_node_id e)"

lemma of_owned_to_owned [simp]: "of_owned (to_owned e) = e"
  by (simp add: of_owned_def to_owned_def EdgeNode_new_def)

interpretation edge_node_copy: canonical_codec to_owned "Some \<circ> of_owned" "\<lambda>_. True"
  by unfold_locales (auto simp: of_owned_def to_owned_def EdgeNode_new_def)


section \<open>Properties\<close>

text \<open>
  Checked identifiers: each of the four constructors accepts a text exactly
  when it is not empty and holds none of the characters that structure an MQTT
  topic or filter, keeps it unchanged, and otherwise answers with the
  \<open>InvalidTopic\<close> error that names its own kind of identifier.
\<close>

theorem identifiers_checked:
  "GroupId_new v =
     (if v \<noteq> [] \<and> set v \<inter> {CHR ''/'', CHR ''+'', CHR ''#''} = {} then Inr (GroupId v)
      else Inl (InvalidTopic (rejected_segment ''group id'' v))) \<and>
   EdgeNodeId_new v =
     (if v \<noteq> [] \<and> set v \<inter> {CHR ''/'', CHR ''+'', CHR ''#''} = {} then Inr (EdgeNodeId v)
      else Inl (InvalidTopic (rejected_segment ''edge node id'' v))) \<and>
   DeviceId_new v =
     (if v \<noteq> [] \<and> set v \<inter> {CHR ''/'', CHR ''+'', CHR ''#''} = {} then Inr (DeviceId v)
      else Inl (InvalidTopic (rejected_segment ''device id'' v))) \<and>
   HostId_new v =
     (if v \<noteq> [] \<and> set v \<inter> {CHR ''/'', CHR ''+'', CHR ''#''} = {} then Inr (HostId v)
      else Inl (InvalidTopic (rejected_segment ''host id'' v)))"
  using is_usable_segment_iff [of v] by (auto simp: id_new_Inl)

end
