(* ===== verification/Seq.thy ===== *)
theory Seq
  imports Topic_Ids
begin

text \<open>
  The sequence counters of \<open>src/sparkplug/seq.rs\<close>: one count and one gate for
  each edge node, and the reservation that holds a drawn number until the
  client takes the message.

  A gate is an \<open>Arc<tokio::sync::Mutex<u8>>\<close>. Its state is the guarded count and
  the party that holds the lock. \<open>lock_owned\<close> completes while nobody holds it,
  and waits otherwise, so \<open>reserve_with\<close> gives no reservation while the gate is
  held: the caller tries again when the runtime wakes it. A party is named by a
  number, so that two reservations stay apart.
\<close>

section \<open>Keys\<close>

definition key_of :: "GroupId \<Rightarrow> EdgeNodeId \<Rightarrow> string" where
  "key_of g n = group_text g @ ''/'' @ node_text n"

lemma key_of_injective:
  assumes "group_usable g" "node_usable n" "group_usable g'" "node_usable n'"
    and "key_of g n = key_of g' n'"
  shows "g = g' \<and> n = n'"
proof -
  have "split_on CHR ''/'' (key_of a b) = [group_text a, node_text b]"
    if "group_usable a" "node_usable b" for a b
    using that by (simp add: key_of_def split_on_append split_on_absent)
  then have "[group_text g, node_text n] = [group_text g', node_text n']"
    using assms by metis
  then show ?thesis by (cases g; cases g'; cases n; cases n') simp
qed


section \<open>Gates and reservations\<close>

record gate =
  gate_count :: u8
  gate_holder :: "nat option"

type_synonym seq_counters = "string \<rightharpoonup> gate"

record SeqReservation =
  res_key :: string
  res_party :: nat
  restore_to :: "u8 option"

definition SeqCounters_new :: seq_counters where
  "SeqCounters_new = Map.empty"

definition default_gate :: gate where
  "default_gate = \<lparr>gate_count = 0, gate_holder = None\<rparr>"

text \<open>\<open>gate_of\<close>: the entry of the pair, added with its default when it is missing.\<close>

definition gate_of :: "string \<Rightarrow> seq_counters \<Rightarrow> gate \<times> seq_counters" where
  "gate_of k m =
     (case m k of
        Some gt \<Rightarrow> (gt, m)
      | None \<Rightarrow> (default_gate, m(k \<mapsto> default_gate)))"

definition reserve_with ::
    "nat \<Rightarrow> GroupId \<Rightarrow> EdgeNodeId \<Rightarrow> (u8 \<Rightarrow> u8) \<Rightarrow> seq_counters \<Rightarrow>
     SeqReservation option \<times> seq_counters" where
  "reserve_with party g n step m =
     (let k = key_of g n; (gt, m1) = gate_of k m
      in case gate_holder gt of
           Some _ \<Rightarrow> (None, m1)
         | None \<Rightarrow>
             (let previous = gate_count gt
              in (Some \<lparr>res_key = k, res_party = party, restore_to = Some previous\<rparr>,
                  m1(k \<mapsto> \<lparr>gate_count = step previous, gate_holder = Some party\<rparr>))))"

definition reserve_reset ::
    "nat \<Rightarrow> GroupId \<Rightarrow> EdgeNodeId \<Rightarrow> seq_counters \<Rightarrow> SeqReservation option \<times> seq_counters" where
  "reserve_reset party g n m = reserve_with party g n (\<lambda>_. 0) m"

text \<open>\<open>wrapping_add(1)\<close> on \<open>u8\<close> is addition on 8-bit words.\<close>

definition reserve ::
    "nat \<Rightarrow> GroupId \<Rightarrow> EdgeNodeId \<Rightarrow> seq_counters \<Rightarrow> SeqReservation option \<times> seq_counters" where
  "reserve party g n m = reserve_with party g n (\<lambda>current. current + 1) m"

text \<open>The count and the holder of one key; a key the map does not hold counts 0.\<close>

definition count_at :: "seq_counters \<Rightarrow> string \<Rightarrow> u8" where
  "count_at m k = (case m k of None \<Rightarrow> 0 | Some gt \<Rightarrow> gate_count gt)"

definition holder_at :: "seq_counters \<Rightarrow> string \<Rightarrow> nat option" where
  "holder_at m k = (case m k of None \<Rightarrow> None | Some gt \<Rightarrow> gate_holder gt)"

text \<open>\<open>Deref\<close>: the number the next message carries.\<close>

definition deref :: "SeqReservation \<Rightarrow> seq_counters \<Rightarrow> u8" where
  "deref r m = count_at m (res_key r)"

definition next_seq :: "SeqReservation \<Rightarrow> seq_counters \<Rightarrow> u8 \<times> seq_counters" where
  "next_seq r m =
     (let c = count_at m (res_key r) + 1
      in (c, m(res_key r \<mapsto> \<lparr>gate_count = c, gate_holder = holder_at m (res_key r)\<rparr>)))"

text \<open>
  \<open>Drop\<close>: write the previous count back unless the publish committed it, then
  release the gate, because the guard is a field of the reservation.
\<close>

definition drop_reservation :: "SeqReservation \<Rightarrow> seq_counters \<Rightarrow> seq_counters" where
  "drop_reservation r m =
     (let k = res_key r;
          c = (case restore_to r of Some previous \<Rightarrow> previous | None \<Rightarrow> count_at m k)
      in m(k \<mapsto> \<lparr>gate_count = c, gate_holder = None\<rparr>))"

text \<open>\<open>commit\<close> clears the restore and lets the reservation drop.\<close>

definition commit :: "SeqReservation \<Rightarrow> seq_counters \<Rightarrow> seq_counters" where
  "commit r m = drop_reservation (r\<lparr>restore_to := None\<rparr>) m"


section \<open>The contract of a counter\<close>

text \<open>
  What the publish path relies on. A counter of this interface keeps, for each
  key, a count and an optional holder; \<open>draw\<close> takes a free gate and applies a
  step, \<open>advance\<close> adds one under the gate, \<open>keep\<close> and \<open>release\<close> end a
  reservation. \<open>key\<close>, \<open>party\<close> and \<open>saved\<close> read a reservation.
\<close>

locale gated_counter =
  fixes count :: "'m \<Rightarrow> 'k \<Rightarrow> u8"
    and holder :: "'m \<Rightarrow> 'k \<Rightarrow> nat option"
    and draw :: "nat \<Rightarrow> 'k \<Rightarrow> (u8 \<Rightarrow> u8) \<Rightarrow> 'm \<Rightarrow> 'r option \<times> 'm"
    and advance :: "'r \<Rightarrow> 'm \<Rightarrow> u8 \<times> 'm"
    and keep :: "'r \<Rightarrow> 'm \<Rightarrow> 'm"
    and release :: "'r \<Rightarrow> 'm \<Rightarrow> 'm"
    and key :: "'r \<Rightarrow> 'k"
    and party :: "'r \<Rightarrow> nat"
    and saved :: "'r \<Rightarrow> u8"
  assumes draw_held:
      "holder m k = Some q \<Longrightarrow> draw p k f m = (x, m') \<Longrightarrow>
         x = None \<and> count m' = count m \<and> holder m' = holder m"
    and draw_free:
      "holder m k = None \<Longrightarrow> draw p k f m = (x, m') \<Longrightarrow>
         \<exists>r. x = Some r \<and> key r = k \<and> party r = p \<and> saved r = count m k \<and>
             count m' = (count m)(k := f (count m k)) \<and> holder m' = (holder m)(k := Some p)"
    and advance_adds:
      "advance r m = (c, m') \<Longrightarrow>
         c = count m (key r) + 1 \<and> count m' = (count m)(key r := c) \<and> holder m' = holder m"
    and keep_keeps: "count (keep r m) = count m"
    and keep_frees: "holder (keep r m) = (holder m)(key r := None)"
    and release_restores:
      "draw p k f m = (Some r, m') \<Longrightarrow> count (release r n) = (count n)(k := saved r)"
    and release_frees:
      "draw p k f m = (Some r, m') \<Longrightarrow> holder (release r n) = (holder n)(k := None)"
begin

lemma draw_Some:
  assumes "draw p k f m = (Some r, m')"
  shows "holder m k = None" "key r = k" "party r = p" "saved r = count m k"
    "count m' = (count m)(k := f (count m k))" "holder m' = (holder m)(k := Some p)"
proof -
  show free: "holder m k = None"
    using draw_held [OF _ assms] by (cases "holder m k") auto
  show "key r = k" "party r = p" "saved r = count m k"
    "count m' = (count m)(k := f (count m k))" "holder m' = (holder m)(k := Some p)"
    using draw_free [OF free assms] by auto
qed

lemma draw_None:
  assumes "draw p k f m = (None, m')"
  shows "holder m k \<noteq> None" "count m' = count m" "holder m' = holder m"
proof -
  show held: "holder m k \<noteq> None"
    using draw_free [OF _ assms] by auto
  then obtain q where "holder m k = Some q" by auto
  from draw_held [OF this assms] show "count m' = count m" "holder m' = holder m" by auto
qed

text \<open>A gate that is held gives no second reservation.\<close>

lemma exclusive:
  assumes "draw p k f m = (Some r, m')"
  shows "fst (draw q k h m') = None"
proof -
  have "holder m' k = Some p" using draw_Some(6) [OF assms] by simp
  moreover obtain x m2 where "draw q k h m' = (x, m2)" by (cases "draw q k h m'")
  ultimately show ?thesis using draw_held by simp
qed

text \<open>A gate that is held stops nobody else: another key still gives a reservation.\<close>

lemma independent:
  assumes "draw p k f m = (Some r, m')" and "holder m l = None" and "k \<noteq> l"
  shows "fst (draw q l h m') \<noteq> None"
proof -
  have "holder m' l = None" using draw_Some(6) [OF assms(1)] assms(2,3) by simp
  moreover obtain x m2 where eq: "draw q l h m' = (x, m2)" by (cases "draw q l h m'")
  ultimately obtain r' where "x = Some r'" using draw_free by blast
  with eq show ?thesis by simp
qed

text \<open>A reservation that drops leaves every count and every gate as it found them.\<close>

lemma draw_release:
  assumes "draw p k f m = (Some r, m')"
  shows "count (release r m') = count m" "holder (release r m') = holder m"
  using draw_Some [OF assms] release_restores [OF assms] release_frees [OF assms]
  by (auto simp: fun_eq_iff)

text \<open>A reservation that commits moves the count of its own key by its step.\<close>

lemma draw_keep:
  assumes "draw p k f m = (Some r, m')"
  shows "count (keep r m') = (count m)(k := f (count m k))" "holder (keep r m') = holder m"
  using draw_Some [OF assms] keep_keeps [of r m'] keep_frees [of r m']
  by (auto simp: fun_eq_iff)

text \<open>One reservation over two messages: the drop undoes both numbers.\<close>

lemma draw_advance_release:
  assumes "draw p k f m = (Some r, m')" and "advance r m' = (c, m2)"
  shows "c = f (count m k) + 1" "count (release r m2) = count m" "holder (release r m2) = holder m"
proof -
  have adv: "c = count m' k + 1" "count m2 = (count m')(k := c)" "holder m2 = holder m'"
    using advance_adds [OF assms(2)] draw_Some(2) [OF assms(1)] by auto
  show "c = f (count m k) + 1"
    using adv(1) draw_Some(5) [OF assms(1)] by simp
  show "count (release r m2) = count m" "holder (release r m2) = holder m"
    using adv draw_Some [OF assms(1)] release_restores [OF assms(1)] release_frees [OF assms(1)]
    by (auto simp: fun_eq_iff)
qed

lemma draw_advance_keep:
  assumes "draw p k f m = (Some r, m')" and "advance r m' = (c, m2)"
  shows "count (keep r m2) = (count m)(k := f (count m k) + 1)" "holder (keep r m2) = holder m"
proof -
  have adv: "c = count m' k + 1" "count m2 = (count m')(k := c)" "holder m2 = holder m'"
    using advance_adds [OF assms(2)] draw_Some(2) [OF assms(1)] by auto
  show "count (keep r m2) = (count m)(k := f (count m k) + 1)" "holder (keep r m2) = holder m"
    using adv draw_Some [OF assms(1)] keep_keeps [of r m2] keep_frees [of r m2]
    by (auto simp: fun_eq_iff)
qed

end


section \<open>The counters keep the contract\<close>

definition saved_count :: "SeqReservation \<Rightarrow> u8" where
  "saved_count r = (case restore_to r of Some c \<Rightarrow> c | None \<Rightarrow> 0)"

lemma count_at_update [simp]:
  "count_at (m(k \<mapsto> gt)) = (count_at m)(k := gate_count gt)"
  by (auto simp: count_at_def)

lemma holder_at_update [simp]:
  "holder_at (m(k \<mapsto> gt)) = (holder_at m)(k := gate_holder gt)"
  by (auto simp: holder_at_def)

lemma gate_of_eq:
  "gate_of k m = (\<lparr>gate_count = count_at m k, gate_holder = holder_at m k\<rparr>, snd (gate_of k m))"
  by (auto simp: gate_of_def count_at_def holder_at_def default_gate_def split: option.split)

lemma snd_gate_of [simp]:
  "count_at (snd (gate_of k m)) = count_at m" "holder_at (snd (gate_of k m)) = holder_at m"
  by (auto simp: gate_of_def count_at_def holder_at_def default_gate_def split: option.split)

lemma reserve_with_eq:
  "reserve_with p g n f m =
     (case holder_at m (key_of g n) of
        Some _ \<Rightarrow> (None, snd (gate_of (key_of g n) m))
      | None \<Rightarrow>
          (Some \<lparr>res_key = key_of g n, res_party = p, restore_to = Some (count_at m (key_of g n))\<rparr>,
           (snd (gate_of (key_of g n) m))(key_of g n \<mapsto>
             \<lparr>gate_count = f (count_at m (key_of g n)), gate_holder = Some p\<rparr>)))"
  unfolding reserve_with_def Let_def by (subst gate_of_eq) (simp split: option.split)

definition draw_key :: "nat \<Rightarrow> string \<Rightarrow> (u8 \<Rightarrow> u8) \<Rightarrow> seq_counters \<Rightarrow>
    SeqReservation option \<times> seq_counters" where
  "draw_key p k f m =
     (case holder_at m k of
        Some _ \<Rightarrow> (None, snd (gate_of k m))
      | None \<Rightarrow>
          (Some \<lparr>res_key = k, res_party = p, restore_to = Some (count_at m k)\<rparr>,
           (snd (gate_of k m))(k \<mapsto> \<lparr>gate_count = f (count_at m k), gate_holder = Some p\<rparr>)))"

lemma reserve_with_draw_key: "reserve_with p g n f m = draw_key p (key_of g n) f m"
  by (simp only: reserve_with_eq draw_key_def)

interpretation sc: gated_counter count_at holder_at draw_key next_seq commit drop_reservation
  res_key res_party saved_count
  by unfold_locales
     (auto simp: draw_key_def next_seq_def commit_def drop_reservation_def
        saved_count_def Let_def split: option.splits)

lemma reserve_draw_key:
  "reserve p g n m = draw_key p (key_of g n) (\<lambda>c. c + 1) m"
  "reserve_reset p g n m = draw_key p (key_of g n) (\<lambda>_. 0) m"
  by (simp_all add: reserve_def reserve_reset_def reserve_with_draw_key)

lemma draw_key_free:
  assumes "holder_at m k = None"
  obtains m' where
    "draw_key p k f m = (Some \<lparr>res_key = k, res_party = p, restore_to = Some (count_at m k)\<rparr>, m')"
    "count_at m' = (count_at m)(k := f (count_at m k))" "holder_at m' = (holder_at m)(k := Some p)"
  using assms by (simp add: draw_key_def)

lemma new_counts [simp]:
  "count_at SeqCounters_new k = 0" "holder_at SeqCounters_new k = None"
  by (simp_all add: SeqCounters_new_def count_at_def holder_at_def)

text \<open>
  The numbers of messages that one party publishes in turn for one edge node,
  each of them taken by the client: what \<open>drawn\<close> of the tests repeats.
\<close>

fun drawn_numbers ::
    "nat \<Rightarrow> nat \<Rightarrow> GroupId \<Rightarrow> EdgeNodeId \<Rightarrow> seq_counters \<Rightarrow> u8 list \<times> seq_counters" where
  "drawn_numbers 0 p g n m = ([], m)"
| "drawn_numbers (Suc i) p g n m =
     (case reserve p g n m of
        (None, m') \<Rightarrow> ([], m')
      | (Some r, m') \<Rightarrow>
          (let (cs, m'') = drawn_numbers i p g n (commit r m') in (deref r m' # cs, m'')))"

lemma drawn_numbers_count:
  assumes "holder_at m (key_of g n) = None"
  shows "fst (drawn_numbers i p g n m) =
           map (\<lambda>j. count_at m (key_of g n) + word_of_nat j + 1) [0..<i]"
  using assms
proof (induction i arbitrary: m)
  case 0
  show ?case by simp
next
  case (Suc i)
  let ?k = "key_of g n"
  from Suc.prems obtain m' where draw: "draw_key p ?k (\<lambda>c. c + 1) m =
      (Some \<lparr>res_key = ?k, res_party = p, restore_to = Some (count_at m ?k)\<rparr>, m')" (is "_ = (Some ?r, _)")
    and m': "count_at m' = (count_at m)(?k := count_at m ?k + 1)"
    by (rule draw_key_free)
  have "count_at (commit ?r m') ?k = count_at m ?k + 1" "holder_at (commit ?r m') ?k = None"
    using sc.draw_keep [OF draw] Suc.prems by simp_all
  then have "fst (drawn_numbers i p g n (commit ?r m')) =
      map (\<lambda>j. count_at m ?k + 1 + word_of_nat j + 1) [0..<i]"
    by (simp add: Suc.IH)
  then show ?case
    using m' by (simp add: reserve_draw_key draw deref_def split_beta map_upt_Suc ac_simps
        del: upt_Suc)
qed


section \<open>Properties\<close>

text \<open>
  C25. How a reservation ends: a message under it carries the step of the count
  its edge node had; a drop leaves every count and every gate as they were, a
  commit moves the count of its own edge node alone, and after \<open>next\<close> a commit
  leaves one more. Each end frees the gate.
\<close>

theorem reservation_ends:
  assumes "reserve_with p g n step m = (Some r, m1)" and "next_seq r m1 = (s, m2)"
  shows "deref r m1 = step (count_at m (key_of g n)) \<and> s = step (count_at m (key_of g n)) + 1 \<and>
    count_at (drop_reservation r m1) = count_at m \<and>
    count_at (drop_reservation r m2) = count_at m \<and>
    count_at (commit r m1) = (count_at m)(key_of g n := step (count_at m (key_of g n))) \<and>
    count_at (commit r m2) = (count_at m)(key_of g n := s) \<and>
    holder_at (drop_reservation r m1) = holder_at m \<and> holder_at (commit r m1) = holder_at m \<and>
    holder_at (drop_reservation r m2) = holder_at m \<and> holder_at (commit r m2) = holder_at m"
proof -
  have draw: "draw_key p (key_of g n) step m = (Some r, m1)"
    using assms(1) by (simp add: reserve_with_draw_key)
  note one = sc.draw_Some [OF draw] sc.draw_release [OF draw] sc.draw_keep [OF draw]
  note two = sc.draw_advance_release [OF draw assms(2)] sc.draw_advance_keep [OF draw assms(2)]
  show ?thesis by (intro conjI) (simp_all add: deref_def one two)
qed

theorem reservation_ends_witness:
  "\<exists>r m1. reserve 7 (GroupId ''g'') (EdgeNodeId ''n'') SeqCounters_new = (Some r, m1) \<and>
     deref r m1 = 1 \<and> count_at (drop_reservation r m1) ''g/n'' = 0 \<and>
     count_at (commit r m1) ''g/n'' = 1"
proof -
  let ?g = "GroupId ''g''" and ?n = "EdgeNodeId ''n''"
  obtain r m1 where draw: "reserve_with 7 ?g ?n (\<lambda>current. current + 1) SeqCounters_new = (Some r, m1)"
    by (simp add: reserve_with_draw_key draw_key_def)
  obtain s m2 where "next_seq r m1 = (s, m2)" by (cases "next_seq r m1")
  from reservation_ends [OF draw this] draw show ?thesis
    by (simp add: reserve_def key_of_def)
qed

text \<open>
  C26. A gate excludes and separates: while a reservation of one edge node
  lives, nobody else gets one for that edge node, and a reservation for any
  other edge node whose gate is free is given at once, under the number it would
  have had anyway.
\<close>

theorem gates_exclude_and_separate:
  assumes held: "reserve p g n m = (Some r, m1)"
    and ids: "group_usable g" "node_usable n" "group_usable g'" "node_usable n'"
    and other: "(g', n') \<noteq> (g, n)" "holder_at m (key_of g' n') = None"
  shows "fst (reserve q g n m1) = None \<and> fst (reserve_reset q g n m1) = None \<and>
    (\<exists>r'. fst (reserve q g' n' m1) = Some r' \<and>
       deref r' (snd (reserve q g' n' m1)) = count_at m (key_of g' n') + 1)"
proof -
  have draw: "draw_key p (key_of g n) (\<lambda>c. c + 1) m = (Some r, m1)"
    using held by (simp add: reserve_draw_key)
  have keys: "key_of g n \<noteq> key_of g' n'"
    using key_of_injective [OF ids] other(1) by auto
  then obtain r' where r': "fst (draw_key q (key_of g' n') (\<lambda>c. c + 1) m1) = Some r'"
    using sc.independent [OF draw other(2), where q = q and h = "\<lambda>c. c + 1"] by auto
  then have "draw_key q (key_of g' n') (\<lambda>c. c + 1) m1 =
      (Some r', snd (draw_key q (key_of g' n') (\<lambda>c. c + 1) m1))"
    by (metis prod.collapse)
  note second = sc.draw_Some [OF this]
  have "deref r' (snd (draw_key q (key_of g' n') (\<lambda>c. c + 1) m1)) = count_at m (key_of g' n') + 1"
    using second(2,5) sc.draw_Some(5) [OF draw] keys by (simp add: deref_def)
  with r' sc.exclusive [OF draw] show ?thesis by (simp add: reserve_draw_key)
qed

theorem gates_exclude_and_separate_witness:
  "fst (reserve 2 (GroupId ''g'') (EdgeNodeId ''a'')
     (snd (reserve 1 (GroupId ''g'') (EdgeNodeId ''a'') SeqCounters_new))) = None"
proof -
  obtain r m1 where r: "reserve 1 (GroupId ''g'') (EdgeNodeId ''a'') SeqCounters_new = (Some r, m1)"
    by (simp add: reserve_draw_key draw_key_def)
  show ?thesis
    using gates_exclude_and_separate [OF r, of "GroupId ''g''" "EdgeNodeId ''b''" 2] r
    by (simp add: is_usable_segment_iff)
qed

text \<open>
  C27. The numbers of an edge node: the first message carries 1, each later one
  the next number, and 255 is followed by 0, for as many messages as the client
  takes.
\<close>

theorem drawn_numbers_wrap:
  "fst (drawn_numbers i p g n SeqCounters_new) = map (\<lambda>j. word_of_nat (Suc j mod 256)) [0..<i]"
proof -
  have "word_of_nat (Suc j mod 256) = (word_of_nat j + 1 :: u8)" for j
    by (rule word_of_nat_eqI) (simp add: unat_word_ariths unat_of_nat mod_Suc_eq)
  then show ?thesis by (simp add: drawn_numbers_count)
qed

end
