(* ===== verification/Topic.thy ===== *)
theory Topic
  imports Topic_Ids
begin

text \<open>
  The topic namespace of \<open>src/sparkplug/topic.rs\<close>: the constructors of
  \<open>Namespace\<close>, the strict parser, the accessors of \<open>SparkplugTopic\<close> and its
  text. The lemmas show which topics exist (\<open>well_formed\<close>), that the text of
  such a topic is unambiguous, and what the parser answers on every text.
\<close>

section \<open>Namespaces and topics\<close>

datatype Namespace = Namespace (ns_text: string)

definition sparkplug_b :: Namespace where
  "sparkplug_b = Namespace ''spBv1.0''"

text \<open>\<open>Default for Namespace\<close>.\<close>

definition Namespace_default :: Namespace where
  "Namespace_default = sparkplug_b"

definition Namespace_new :: "string \<Rightarrow> 'x SparkplugError + Namespace" where
  "Namespace_new version =
     (if is_usable_segment version then Inr (Namespace version)
      else Inl (InvalidNamespace version))"

datatype Address =
    AddressNode string string
  | AddressDevice string string string
  | AddressHost string

record SparkplugTopic =
  topic_namespace :: string
  topic_message_type :: MessageType
  topic_address :: Address

definition node_topic :: "Namespace \<Rightarrow> MessageType \<Rightarrow> GroupId \<Rightarrow> EdgeNodeId \<Rightarrow> SparkplugTopic" where
  "node_topic ns mt g n =
     \<lparr>topic_namespace = ns_text ns, topic_message_type = mt,
      topic_address = AddressNode (group_text g) (node_text n)\<rparr>"

definition device_topic ::
    "Namespace \<Rightarrow> MessageType \<Rightarrow> GroupId \<Rightarrow> EdgeNodeId \<Rightarrow> DeviceId \<Rightarrow> SparkplugTopic" where
  "device_topic ns mt g n d =
     \<lparr>topic_namespace = ns_text ns, topic_message_type = mt,
      topic_address = AddressDevice (group_text g) (node_text n) (device_text d)\<rparr>"

definition nbirth :: "Namespace \<Rightarrow> GroupId \<Rightarrow> EdgeNodeId \<Rightarrow> SparkplugTopic" where
  "nbirth ns g n = node_topic ns NBIRTH g n"

definition ndata :: "Namespace \<Rightarrow> GroupId \<Rightarrow> EdgeNodeId \<Rightarrow> SparkplugTopic" where
  "ndata ns g n = node_topic ns NDATA g n"

definition ndeath :: "Namespace \<Rightarrow> GroupId \<Rightarrow> EdgeNodeId \<Rightarrow> SparkplugTopic" where
  "ndeath ns g n = node_topic ns NDEATH g n"

definition ncmd :: "Namespace \<Rightarrow> GroupId \<Rightarrow> EdgeNodeId \<Rightarrow> SparkplugTopic" where
  "ncmd ns g n = node_topic ns NCMD g n"

definition dbirth :: "Namespace \<Rightarrow> GroupId \<Rightarrow> EdgeNodeId \<Rightarrow> DeviceId \<Rightarrow> SparkplugTopic" where
  "dbirth ns g n d = device_topic ns DBIRTH g n d"

definition ddata :: "Namespace \<Rightarrow> GroupId \<Rightarrow> EdgeNodeId \<Rightarrow> DeviceId \<Rightarrow> SparkplugTopic" where
  "ddata ns g n d = device_topic ns DDATA g n d"

definition ddeath :: "Namespace \<Rightarrow> GroupId \<Rightarrow> EdgeNodeId \<Rightarrow> DeviceId \<Rightarrow> SparkplugTopic" where
  "ddeath ns g n d = device_topic ns DDEATH g n d"

definition dcmd :: "Namespace \<Rightarrow> GroupId \<Rightarrow> EdgeNodeId \<Rightarrow> DeviceId \<Rightarrow> SparkplugTopic" where
  "dcmd ns g n d = device_topic ns DCMD g n d"

definition state :: "Namespace \<Rightarrow> HostId \<Rightarrow> SparkplugTopic" where
  "state ns h =
     \<lparr>topic_namespace = ns_text ns, topic_message_type = STATE,
      topic_address = AddressHost (host_text h)\<rparr>"

lemma message_type_simps [simp]:
  "topic_message_type (node_topic ns mt g n) = mt"
  "topic_message_type (device_topic ns mt g n d) = mt"
  "topic_message_type (state ns h) = STATE"
  by (simp_all add: node_topic_def device_topic_def state_def)

lemmas constructor_defs =
  nbirth_def ndata_def ndeath_def ncmd_def dbirth_def ddata_def ddeath_def dcmd_def


section \<open>Text and accessors\<close>

fun to_string :: "SparkplugTopic \<Rightarrow> string" where
  "to_string t =
     (let ns = topic_namespace t; mt = as_str (topic_message_type t)
      in case topic_address t of
           AddressNode g n \<Rightarrow> ns @ ''/'' @ g @ ''/'' @ mt @ ''/'' @ n
         | AddressDevice g n d \<Rightarrow> ns @ ''/'' @ g @ ''/'' @ mt @ ''/'' @ n @ ''/'' @ d
         | AddressHost h \<Rightarrow> ns @ ''/'' @ mt @ ''/'' @ h)"

declare to_string.simps [simp del]

definition topic_shape :: "SparkplugTopic \<Rightarrow> Shape" where
  "topic_shape t = shape (topic_message_type t)"

definition group_id :: "SparkplugTopic \<Rightarrow> GroupId option" where
  "group_id t =
     (case topic_address t of
        AddressNode g _ \<Rightarrow> Some (GroupId g)
      | AddressDevice g _ _ \<Rightarrow> Some (GroupId g)
      | AddressHost _ \<Rightarrow> None)"

definition node_id :: "SparkplugTopic \<Rightarrow> EdgeNodeId option" where
  "node_id t =
     (case topic_address t of
        AddressNode _ n \<Rightarrow> Some (EdgeNodeId n)
      | AddressDevice _ n _ \<Rightarrow> Some (EdgeNodeId n)
      | AddressHost _ \<Rightarrow> None)"

definition device_id :: "SparkplugTopic \<Rightarrow> DeviceId option" where
  "device_id t =
     (case topic_address t of
        AddressDevice _ _ d \<Rightarrow> Some (DeviceId d)
      | _ \<Rightarrow> None)"

definition host_id :: "SparkplugTopic \<Rightarrow> HostId option" where
  "host_id t =
     (case topic_address t of
        AddressHost h \<Rightarrow> Some (HostId h)
      | _ \<Rightarrow> None)"

definition wrong_shape :: "string \<Rightarrow> MessageType \<Rightarrow> 'x SparkplugError" where
  "wrong_shape topic mt = WrongTopicShape topic mt"


section \<open>The parser\<close>

definition parse :: "Namespace \<Rightarrow> string \<Rightarrow> 'x SparkplugError + SparkplugTopic" where
  "parse ns topic =
     (let parts = split_on CHR ''/'' topic
      in if get parts 0 \<noteq> Some (ns_text ns) then Inl (InvalidTopic topic)
         else if get parts 1 = Some (as_str STATE) then
           (if length parts = 3
            then try_then (HostId_new (parts ! 2)) (\<lambda>h. Inr (state ns h))
            else Inl (wrong_shape topic STATE))
         else (case get parts 2 of
             None \<Rightarrow> Inl (InvalidTopic topic)
           | Some raw_type \<Rightarrow>
               try_then (from_str raw_type) (\<lambda>mt.
                 case (shape mt, length parts) of
                   (ShapeNode, len) \<Rightarrow>
                     (if len = 4
                      then try_then (GroupId_new (parts ! 1)) (\<lambda>g.
                           try_then (EdgeNodeId_new (parts ! 3)) (\<lambda>n.
                           Inr (node_topic ns mt g n)))
                      else Inl (wrong_shape topic mt))
                 | (ShapeDevice, len) \<Rightarrow>
                     (if len = 5
                      then try_then (GroupId_new (parts ! 1)) (\<lambda>g.
                           try_then (EdgeNodeId_new (parts ! 3)) (\<lambda>n.
                           try_then (DeviceId_new (parts ! 4)) (\<lambda>d.
                           Inr (device_topic ns mt g n d))))
                      else Inl (wrong_shape topic mt))
                 | (ShapeHost, len) \<Rightarrow> Inl (wrong_shape topic mt))))"


section \<open>Which topics exist\<close>

text \<open>
  The invariant the module keeps behind its private fields: every segment
  passed the check, and the address has the layout of the message type.
\<close>

fun address_usable :: "Address \<Rightarrow> bool" where
  "address_usable (AddressNode g n) \<longleftrightarrow> is_usable_segment g \<and> is_usable_segment n"
| "address_usable (AddressDevice g n d) \<longleftrightarrow>
     is_usable_segment g \<and> is_usable_segment n \<and> is_usable_segment d"
| "address_usable (AddressHost h) \<longleftrightarrow> is_usable_segment h"

fun address_shape :: "Address \<Rightarrow> Shape" where
  "address_shape (AddressNode _ _) = ShapeNode"
| "address_shape (AddressDevice _ _ _) = ShapeDevice"
| "address_shape (AddressHost _) = ShapeHost"

definition well_formed :: "SparkplugTopic \<Rightarrow> bool" where
  "well_formed t \<longleftrightarrow>
     is_usable_segment (topic_namespace t) \<and> address_usable (topic_address t) \<and>
     address_shape (topic_address t) = topic_shape t"

lemma well_formedI:
  "is_usable_segment (topic_namespace t) \<Longrightarrow> address_usable (topic_address t) \<Longrightarrow>
   address_shape (topic_address t) = topic_shape t \<Longrightarrow> well_formed t"
  by (simp add: well_formed_def)

lemma node_topic_well_formed:
  assumes "is_usable_segment (ns_text ns)" "group_usable g" "node_usable n"
    and "shape mt = ShapeNode"
  shows "well_formed (node_topic ns mt g n)"
  using assms by (auto intro!: well_formedI simp: node_topic_def topic_shape_def)

lemma device_topic_well_formed:
  assumes "is_usable_segment (ns_text ns)" "group_usable g" "node_usable n" "device_usable d"
    and "shape mt = ShapeDevice"
  shows "well_formed (device_topic ns mt g n d)"
  using assms by (auto intro!: well_formedI simp: device_topic_def topic_shape_def)

lemma state_well_formed:
  assumes "is_usable_segment (ns_text ns)" "host_usable h"
  shows "well_formed (state ns h)"
  using assms by (auto intro!: well_formedI simp: state_def topic_shape_def)

text \<open>
  A well-formed topic is one of three layouts, so a proof by cases on it needs
  no impossible combination.
\<close>

lemma well_formed_cases:
  assumes "well_formed t"
  obtains (node) ns mt g n where
      "t = \<lparr>topic_namespace = ns, topic_message_type = mt, topic_address = AddressNode g n\<rparr>"
      "shape mt = ShapeNode" "is_usable_segment ns" "is_usable_segment g" "is_usable_segment n"
  | (device) ns mt g n d where
      "t = \<lparr>topic_namespace = ns, topic_message_type = mt, topic_address = AddressDevice g n d\<rparr>"
      "shape mt = ShapeDevice" "is_usable_segment ns" "is_usable_segment g" "is_usable_segment n"
      "is_usable_segment d"
  | (host) ns h where
      "t = \<lparr>topic_namespace = ns, topic_message_type = STATE, topic_address = AddressHost h\<rparr>"
      "is_usable_segment ns" "is_usable_segment h"
proof (cases "topic_address t")
  case (AddressNode g n)
  with assms show ?thesis
    by (intro node [of "topic_namespace t" "topic_message_type t" g n])
       (auto simp: well_formed_def topic_shape_def)
next
  case (AddressDevice g n d)
  with assms show ?thesis
    by (intro device [of "topic_namespace t" "topic_message_type t" g n d])
       (auto simp: well_formed_def topic_shape_def)
next
  case (AddressHost h)
  with assms have "topic_message_type t = STATE"
    by (simp add: well_formed_def topic_shape_def flip: shape_Host_iff)
  with AddressHost assms show ?thesis
    by (intro host [of "topic_namespace t" h])
       (auto simp: well_formed_def)
qed


section \<open>Text and parser agree\<close>

text \<open>The segments of a topic, in the order its text has them.\<close>

definition segments :: "SparkplugTopic \<Rightarrow> string list" where
  "segments t =
     (let ns = topic_namespace t; mt = as_str (topic_message_type t)
      in case topic_address t of
           AddressNode g n \<Rightarrow> [ns, g, mt, n]
         | AddressDevice g n d \<Rightarrow> [ns, g, mt, n, d]
         | AddressHost h \<Rightarrow> [ns, mt, h])"

lemma to_string_segments: "to_string t = join_with CHR ''/'' (segments t)"
  by (simp add: to_string.simps segments_def Let_def split: Address.split)

lemma segments_not_Nil [simp]: "segments t \<noteq> []"
  by (simp add: segments_def Let_def split: Address.split)

lemma segments_no_slash:
  assumes "well_formed t"
  shows "\<forall>p\<in>set (segments t). CHR ''/'' \<notin> set p"
  using assms by (cases rule: well_formed_cases) (simp_all add: segments_def)

lemma split_to_string:
  assumes "well_formed t"
  shows "split_on CHR ''/'' (to_string t) = segments t"
  unfolding to_string_segments using segments_no_slash [OF assms] by (simp add: split_join)

lemma segments_injective:
  assumes "well_formed t" and "well_formed u" and "segments t = segments u"
  shows "t = u"
  using assms(1)
proof (cases rule: well_formed_cases)
  case node
  with assms(2,3) show ?thesis
    by (cases rule: well_formed_cases [OF assms(2)]) (auto simp: segments_def)
next
  case device
  with assms(2,3) show ?thesis
    by (cases rule: well_formed_cases [OF assms(2)]) (auto simp: segments_def)
next
  case host
  with assms(2,3) show ?thesis
    by (cases rule: well_formed_cases [OF assms(2)]) (auto simp: segments_def)
qed

lemma to_string_injective:
  assumes "well_formed t" and "well_formed u" and "to_string t = to_string u"
  shows "t = u"
proof -
  have "segments t = segments u"
    using assms(3) split_to_string [OF assms(1)] split_to_string [OF assms(2)] by simp
  with assms(1,2) show ?thesis by (rule segments_injective)
qed

text \<open>
  What the parser answers on the text of a topic. One group name is special:
  a topic of the group \<open>STATE\<close> carries \<open>STATE\<close> in its second segment, where
  the parser looks for a host topic.
\<close>

abbreviation group_is_STATE :: "SparkplugTopic \<Rightarrow> bool" where
  "group_is_STATE t \<equiv> group_id t = Some (GroupId ''STATE'')"

lemma parse_to_string:
  assumes "well_formed t" and "topic_namespace t = ns_text ns"
  shows "parse ns (to_string t) =
           (if group_is_STATE t then Inl (WrongTopicShape (to_string t) STATE) else Inr t)"
  using assms(1)
proof (cases rule: well_formed_cases)
  case (node ns' mt g n)
  with assms(2) split_to_string [OF assms(1)] show ?thesis
    by (simp add: parse_def segments_def group_id_def wrong_shape_def node_topic_def id_new_usable)
next
  case (device ns' mt g n d)
  with assms(2) split_to_string [OF assms(1)] show ?thesis
    by (simp add: parse_def segments_def group_id_def wrong_shape_def device_topic_def id_new_usable)
next
  case (host ns' h)
  with assms(2) split_to_string [OF assms(1)] show ?thesis
    by (simp add: parse_def segments_def group_id_def state_def id_new_usable)
qed

lemma get_eq_Some: "get xs i = Some x \<longleftrightarrow> i < length xs \<and> xs ! i = x"
  by (auto simp: get_def)

lemma length_3_iff: "length xs = 3 \<longleftrightarrow> (\<exists>a b c. xs = [a, b, c])"
  by (auto simp: numeral_eq_Suc length_Suc_conv)

lemma length_4_iff: "length xs = 4 \<longleftrightarrow> (\<exists>a b c d. xs = [a, b, c, d])"
  by (auto simp: numeral_eq_Suc length_Suc_conv)

lemma length_5_iff: "length xs = 5 \<longleftrightarrow> (\<exists>a b c d e. xs = [a, b, c, d, e])"
  by (auto simp: numeral_eq_Suc length_Suc_conv)

lemma parse_Inr_segments:
  assumes "parse ns s = Inr t" and "is_usable_segment (ns_text ns)"
  shows "well_formed t \<and> topic_namespace t = ns_text ns \<and> \<not> group_is_STATE t \<and>
         segments t = split_on CHR ''/'' s"
proof -
  define parts where "parts = split_on CHR ''/'' s"
  have first: "get parts 0 = Some (ns_text ns)"
    using assms(1) by (auto simp: parse_def parts_def Let_def split: if_splits)
  show ?thesis
  proof (cases "get parts 1 = Some (as_str STATE)")
    case True
    with assms(1) first obtain h where "length parts = 3"
      and "HostId_new (parts ! 2) = (Inr h :: 'a SparkplugError + HostId)" and "t = state ns h"
      by (auto simp: parse_def Let_def try_then_eq_Inr simp flip: parts_def split: if_splits)
    with first True assms(2) show ?thesis
      by (auto simp: length_3_iff well_formed_def topic_shape_def segments_def state_def group_id_def
          simp flip: parts_def)
  next
    case False
    with assms(1) first obtain raw mt where raw: "get parts 2 = Some raw"
      and mt: "from_str raw = (Inr mt :: 'a SparkplugError + MessageType)"
      by (auto simp: parse_def Let_def try_then_eq_Inr simp flip: parts_def
          split: if_splits option.splits)
    have txt_eq: "as_str mt = raw" using mt by (rule from_str_Inr)
    show ?thesis
    proof (cases "shape mt")
      case ShapeNode
      with assms(1) first False raw mt have "length parts = 4" and "is_usable_segment (parts ! 1)"
        and "is_usable_segment (parts ! 3)"
        and "t = node_topic ns mt (GroupId (parts ! 1)) (EdgeNodeId (parts ! 3))"
        by (auto simp: parse_def Let_def try_then_eq_Inr simp flip: parts_def split: if_splits)
      with first False raw txt_eq assms(2) ShapeNode show ?thesis
        by (auto simp: length_4_iff well_formed_def topic_shape_def segments_def node_topic_def
            group_id_def simp flip: parts_def)
    next
      case ShapeDevice
      with assms(1) first False raw mt have "length parts = 5" and "is_usable_segment (parts ! 1)"
        and "is_usable_segment (parts ! 3)" and "is_usable_segment (parts ! 4)"
        and "t = device_topic ns mt (GroupId (parts ! 1)) (EdgeNodeId (parts ! 3))
               (DeviceId (parts ! 4))"
        by (auto simp: parse_def Let_def try_then_eq_Inr simp flip: parts_def split: if_splits)
      with first False raw txt_eq assms(2) ShapeDevice show ?thesis
        by (auto simp: length_5_iff well_formed_def topic_shape_def segments_def device_topic_def
            group_id_def simp flip: parts_def)
    next
      case ShapeHost
      with assms(1) first False raw mt show ?thesis
        by (simp add: parse_def Let_def flip: parts_def)
    qed
  qed
qed

lemma parse_sound:
  assumes "parse ns s = Inr t" and "is_usable_segment (ns_text ns)"
  shows "well_formed t" "topic_namespace t = ns_text ns" "\<not> group_is_STATE t" "to_string t = s"
  using parse_Inr_segments [OF assms] by (simp_all add: to_string_segments join_split)

text \<open>
  On a usable namespace, text and parser form a canonical encoding of the
  well-formed topics outside the group \<open>STATE\<close>.
\<close>

definition parseable :: "Namespace \<Rightarrow> SparkplugTopic \<Rightarrow> bool" where
  "parseable ns t \<longleftrightarrow>
     well_formed t \<and> topic_namespace t = ns_text ns \<and> \<not> group_is_STATE t"

definition reads_topic :: "Namespace \<Rightarrow> string \<Rightarrow> SparkplugTopic option" where
  "reads_topic ns s =
     (if is_usable_segment (ns_text ns) then ok (parse ns s :: unit SparkplugError + _) else None)"

interpretation topic_text: canonical_codec to_string "reads_topic ns" "parseable ns" for ns
proof
  fix t
  assume "parseable ns t"
  then show "reads_topic ns (to_string t) = Some t"
    by (auto simp: parseable_def reads_topic_def parse_to_string well_formed_def)
next
  fix s t
  assume "reads_topic ns s = Some t"
  then show "parseable ns t \<and> to_string t = s"
    by (auto simp: parseable_def reads_topic_def parse_sound split: if_splits)
qed


section \<open>Properties\<close>

text \<open>
  C21. The parser is exact: on a usable namespace it accepts a text if and only
  if the text is that of a well-formed topic of the namespace outside the group
  \<open>STATE\<close>, and the topic it gives is that one.
\<close>

theorem parse_exact:
  assumes "is_usable_segment (ns_text ns)"
  shows "parse ns s = Inr t \<longleftrightarrow>
     well_formed t \<and> topic_namespace t = ns_text ns \<and> group_id t \<noteq> Some (GroupId ''STATE'') \<and>
     to_string t = s"
  using parse_sound [of ns s t] parse_to_string [of t ns] assms by auto

theorem parse_exact_witness:
  "parse sparkplug_b ''spBv1.0/Plant/DDATA/edge/pump'' =
     (Inr \<lparr>topic_namespace = ''spBv1.0'', topic_message_type = DDATA,
           topic_address = AddressDevice ''Plant'' ''edge'' ''pump''\<rparr> :: unit SparkplugError + _)"
  by (subst parse_exact)
     (simp_all add: sparkplug_b_def is_usable_segment_iff well_formed_def topic_shape_def
       group_id_def to_string.simps)

lemma usable_no_wildcard: "is_usable_segment v \<Longrightarrow> CHR ''+'' \<notin> set v \<and> CHR ''#'' \<notin> set v"
  by (simp add: is_usable_segment_iff)

text \<open>
  C23. The text of a topic is unambiguous and publishable: two well-formed
  topics share a text only when they are equal, and a text holds no MQTT
  wildcard, whatever identifiers the topic was built from.
\<close>

theorem topic_text_is_unambiguous:
  assumes "well_formed t" and "well_formed u"
  shows "(to_string t = to_string u \<longleftrightarrow> t = u) \<and>
    set (to_string t) \<inter> {CHR ''+'', CHR ''#''} = {} \<and> to_string t \<noteq> []"
proof -
  have "CHR ''+'' \<notin> set (to_string t) \<and> CHR ''#'' \<notin> set (to_string t) \<and> to_string t \<noteq> []"
    using assms(1)
    by (cases rule: well_formed_cases)
       (use usable_no_wildcard [OF as_str_is_usable] in \<open>auto simp: to_string.simps dest: usable_no_wildcard\<close>)
  with assms show ?thesis by (auto dest: to_string_injective)
qed

theorem topic_text_is_unambiguous_witness:
  "to_string (ddata sparkplug_b (GroupId ''a'') (EdgeNodeId ''b'') (DeviceId ''c'')) \<noteq>
   to_string (dbirth sparkplug_b (GroupId ''a'') (EdgeNodeId ''b'') (DeviceId ''c''))"
  using topic_text_is_unambiguous
    [of "ddata sparkplug_b (GroupId ''a'') (EdgeNodeId ''b'') (DeviceId ''c'')"
        "dbirth sparkplug_b (GroupId ''a'') (EdgeNodeId ''b'') (DeviceId ''c'')"]
  by (simp add: well_formed_def topic_shape_def is_usable_segment_iff sparkplug_b_def
      ddata_def dbirth_def device_topic_def)

text \<open>
  What the namespace builds is well formed: each of the nine constructors,
  on checked parts, gives a topic of its own message type whose segments passed
  the check and whose address has the layout that type requires.
\<close>

theorem constructors_well_formed:
  assumes "is_usable_segment (ns_text ns)" "group_usable g" "node_usable n" "device_usable d"
    "host_usable h"
  shows "list_all well_formed [nbirth ns g n, ndata ns g n, ndeath ns g n, ncmd ns g n,
      dbirth ns g n d, ddata ns g n d, ddeath ns g n d, dcmd ns g n d, state ns h] \<and>
    map topic_message_type [nbirth ns g n, ndata ns g n, ndeath ns g n, ncmd ns g n,
      dbirth ns g n d, ddata ns g n d, ddeath ns g n d, dcmd ns g n d, state ns h] =
      [NBIRTH, NDATA, NDEATH, NCMD, DBIRTH, DDATA, DDEATH, DCMD, STATE] \<and>
    (group_id (ddata ns g n d), node_id (ddata ns g n d), device_id (ddata ns g n d)) =
      (Some g, Some n, Some d) \<and>
    (group_id (nbirth ns g n), node_id (nbirth ns g n), device_id (nbirth ns g n)) =
      (Some g, Some n, None) \<and>
    (group_id (state ns h), host_id (state ns h)) = (None, Some h)"
  using assms
  by (simp add: constructor_defs node_topic_well_formed device_topic_well_formed state_well_formed)
     (simp add: node_topic_def device_topic_def state_def group_id_def node_id_def device_id_def
       host_id_def)

theorem constructors_well_formed_witness:
  "well_formed (dcmd sparkplug_b (GroupId ''a'') (EdgeNodeId ''b'') (DeviceId ''c'')) \<and>
   well_formed (state sparkplug_b (HostId ''h''))"
  using constructors_well_formed
    [of sparkplug_b "GroupId ''a''" "EdgeNodeId ''b''" "DeviceId ''c''" "HostId ''h''"]
  by (simp add: is_usable_segment_iff sparkplug_b_def)

lemma from_str_STATE: "from_str ''STATE'' = Inr STATE"
  using from_str_as_str [of STATE] by simp

text \<open>
  A message type in a topic with the wrong number of segments, or STATE in
  the place of a message type, is answered with the type found and the whole
  text.
\<close>

theorem wrong_segment_count:
  assumes parts: "split_on CHR ''/'' s = ns_text ns # g # as_str mt # rest"
    and group: "g \<noteq> ''STATE''"
    and count: "length rest \<noteq> (case shape mt of ShapeNode \<Rightarrow> 1 | ShapeDevice \<Rightarrow> 2 | ShapeHost \<Rightarrow> length rest + 1)"
  shows "parse ns s = Inl (WrongTopicShape s mt)"
  using assms by (cases "shape mt") (simp_all add: parse_def get_def wrong_shape_def from_str_STATE)

theorem wrong_segment_count_witness:
  "parse sparkplug_b ''spBv1.0/Plant/DDATA/edge'' =
     (Inl (WrongTopicShape ''spBv1.0/Plant/DDATA/edge'' DDATA) :: unit SparkplugError + _)"
  by (rule wrong_segment_count [where g = "''Plant''" and rest = "[''edge'']"])
     (simp_all add: sparkplug_b_def)

text \<open>
  C24. The group \<open>STATE\<close> is accepted as an identifier, and the eight node and device
  topics of the namespace in it are well formed, but the parser rejects the text of
  every well-formed topic of the group, with \<open>WrongTopicShape\<close> for the type STATE: it
  reads the second segment as the mark of a host topic.
\<close>

theorem state_group_unreadable:
  fixes t :: SparkplugTopic
  assumes "is_usable_segment (ns_text ns)" and "node_usable n" and "device_usable d"
  defines "g \<equiv> GroupId ''STATE''"
  shows "GroupId_new ''STATE'' = (Inr g :: 'x SparkplugError + _) \<and>
    list_all (\<lambda>t. well_formed t \<and> topic_namespace t = ns_text ns \<and> group_id t = Some g)
      [nbirth ns g n, ndata ns g n, ndeath ns g n, ncmd ns g n,
       dbirth ns g n d, ddata ns g n d, ddeath ns g n d, dcmd ns g n d] \<and>
    (well_formed t \<longrightarrow> topic_namespace t = ns_text ns \<longrightarrow> group_id t = Some g \<longrightarrow>
       parse ns (to_string t) = (Inl (WrongTopicShape (to_string t) STATE) :: 'x SparkplugError + _))"
proof (intro conjI impI)
  show "GroupId_new ''STATE'' = (Inr g :: 'x SparkplugError + _)" by (simp add: g_def is_usable_segment_iff)
  have "group_usable g" by (simp add: g_def is_usable_segment_iff)
  then show "list_all (\<lambda>t. well_formed t \<and> topic_namespace t = ns_text ns \<and> group_id t = Some g)
      [nbirth ns g n, ndata ns g n, ndeath ns g n, ncmd ns g n,
       dbirth ns g n d, ddata ns g n d, ddeath ns g n d, dcmd ns g n d]"
    using assms(1-3)
    by (simp add: constructor_defs node_topic_well_formed device_topic_well_formed)
       (simp add: node_topic_def device_topic_def group_id_def)
  assume "well_formed t" "topic_namespace t = ns_text ns" "group_id t = Some g"
  then show "parse ns (to_string t) = (Inl (WrongTopicShape (to_string t) STATE) :: 'x SparkplugError + _)"
    by (simp add: parse_to_string g_def)
qed

theorem state_group_unreadable_witness:
  "parse sparkplug_b ''spBv1.0/STATE/DDATA/edge/pump'' =
     (Inl (WrongTopicShape ''spBv1.0/STATE/DDATA/edge/pump'' STATE) :: unit SparkplugError + _)"
proof -
  let ?t = "ddata sparkplug_b (GroupId ''STATE'') (EdgeNodeId ''edge'') (DeviceId ''pump'')"
  have "is_usable_segment (ns_text sparkplug_b)" "node_usable (EdgeNodeId ''edge'')" "device_usable (DeviceId ''pump'')"
    by (simp_all add: sparkplug_b_def is_usable_segment_iff)
  note unreadable = state_group_unreadable [where 'x = unit, OF this, of ?t]
  then have "well_formed ?t" "topic_namespace ?t = ns_text sparkplug_b" "group_id ?t = Some (GroupId ''STATE'')"
    by simp_all
  with unreadable have "parse sparkplug_b (to_string ?t) =
      (Inl (WrongTopicShape (to_string ?t) STATE) :: unit SparkplugError + _)" by blast
  then show ?thesis by (simp add: ddata_def device_topic_def to_string.simps sparkplug_b_def)
qed

end
