(* ===== verification/Delivery.thy ===== *)
theory Delivery
  imports Errors
begin

text \<open>
  The delivery tracker of \<open>src/sparkplug/delivery.rs\<close>: what is published and
  not acknowledged, what a disconnect discarded, and what a flush reports.

  Every operation is one critical section of the mutex around \<open>State\<close>, so it
  is a function on \<open>State\<close>. \<open>flush\<close> is two of them around a wait, so it is
  \<open>flush_open\<close> and \<open>flush_close\<close>; the argument \<open>drained\<close> of the second is
  what \<open>tokio::time::timeout\<close> gave for the wait. Sums are those of a release
  build, which wrap; the theory \<open>Delivery_Ledger\<close> shows how many publishes it
  takes before one does.
\<close>

record State =
  unacked :: u32
  lost :: u32
  reported :: u64
  generation :: u64

datatype PublishTicket = PublishTicket (ticket_generation: u64)

definition DeliveryTracker_new :: State where
  "DeliveryTracker_new = \<lparr>unacked = 0, lost = 0, reported = 0, generation = 0\<rparr>"

definition record_publish :: "State \<Rightarrow> PublishTicket \<times> State" where
  "record_publish st =
     (let st' = st\<lparr>unacked := unacked st + 1\<rparr> in (PublishTicket (generation st'), st'))"

definition release_one :: "State \<Rightarrow> State" where
  "release_one st = st\<lparr>unacked := saturating_dec (unacked st)\<rparr>"

definition record_ack :: "State \<Rightarrow> State" where
  "record_ack st = release_one st"

definition record_publish_failed :: "PublishTicket \<Rightarrow> State \<Rightarrow> State" where
  "record_publish_failed ticket st =
     (if ticket_generation ticket = generation st
      then st\<lparr>unacked := saturating_dec (unacked st)\<rparr>
      else st)"

definition record_disconnect :: "State \<Rightarrow> State" where
  "record_disconnect st =
     st\<lparr>lost := lost st + unacked st, unacked := 0, generation := generation st + 1\<rparr>"

definition flush_open :: "State \<Rightarrow> u64" where
  "flush_open st = reported st"

text \<open>\<open>u32::try_from(n).unwrap_or(u32::MAX)\<close>.\<close>

definition to_u32_saturating :: "u64 \<Rightarrow> u32" where
  "to_u32_saturating n = (if unat n < 2 ^ 32 then ucast n else u32_max)"

definition flush_close ::
    "duration \<Rightarrow> u64 \<Rightarrow> unit + unit \<Rightarrow> State \<Rightarrow> ('x SparkplugError + unit) \<times> State" where
  "flush_close timeout opened_at drained st =
     (case drained of
        Inl _ \<Rightarrow> (Inl (FlushTimeout timeout (unacked st)), st)
      | Inr _ \<Rightarrow>
          (let st' = st\<lparr>reported := reported st + ucast (lost st), lost := 0\<rparr>;
               n = to_u32_saturating (reported st' - opened_at)
           in (if n = 0 then Inr () else Inl (PublishLost n), st')))"

text \<open>
  The whole of \<open>flush\<close>: \<open>meanwhile\<close> is what other tasks and the event loop do
  to the tracker between its two critical sections.
\<close>

definition flush ::
    "duration \<Rightarrow> (State \<Rightarrow> State) \<Rightarrow> unit + unit \<Rightarrow> State \<Rightarrow> ('x SparkplugError + unit) \<times> State" where
  "flush timeout meanwhile drained st =
     (let opened_at = flush_open st in flush_close timeout opened_at drained (meanwhile st))"

text \<open>\<open>wait_for_drain\<close> returns when it reads this.\<close>

definition drained_now :: "State \<Rightarrow> bool" where
  "drained_now st \<longleftrightarrow> unacked st = 0"


section \<open>The guard of one publish\<close>

text \<open>
  \<open>PublishInFlight\<close> holds the ticket until one of its two ends takes it:
  \<open>keep\<close>, or the drop, which rolls the count back.
\<close>

datatype PublishInFlight = PublishInFlight (ticket: "PublishTicket option")

definition publish_in_flight :: "State \<Rightarrow> PublishInFlight \<times> State" where
  "publish_in_flight st =
     (let (t, st') = record_publish st in (PublishInFlight (Some t), st'))"

definition drop_in_flight :: "PublishInFlight \<Rightarrow> State \<Rightarrow> State" where
  "drop_in_flight guard st =
     (case ticket guard of Some t \<Rightarrow> record_publish_failed t st | None \<Rightarrow> st)"

definition keep_in_flight :: "PublishInFlight \<Rightarrow> State \<Rightarrow> State" where
  "keep_in_flight guard st = drop_in_flight (PublishInFlight None) st"

lemma keep_in_flight_id [simp]: "keep_in_flight guard st = st"
  by (simp add: keep_in_flight_def drop_in_flight_def)

lemmas tracker_defs =
  DeliveryTracker_new_def record_publish_def release_one_def record_ack_def
  record_publish_failed_def record_disconnect_def flush_open_def flush_close_def
  publish_in_flight_def drop_in_flight_def

lemma publish_then_drop:
  assumes "publish_in_flight st = (guard, st')" and "unat (unacked st) < 2 ^ 32 - 1"
  shows "drop_in_flight guard st' = st"
proof -
  have "unat (unacked st + 1) = Suc (unat (unacked st))"
    using assms(2) by (intro unat_Suc_no_wrap) simp
  then have "unacked st + 1 \<noteq> 0" by auto
  then show ?thesis
    using assms(1) by (auto simp: tracker_defs Let_def saturating_dec_def)
qed

lemma to_u32_saturating_0: "to_u32_saturating n = 0 \<longleftrightarrow> n = 0"
proof (cases "unat n < 2 ^ 32")
  case True
  then have "unat (ucast n :: u32) = unat n"
    by (simp add: unsigned_ucast_eq take_bit_nat_eq_self)
  with True show ?thesis
    by (auto simp: to_u32_saturating_def unat_eq_zero)
next
  case False
  then have "n \<noteq> 0" by auto
  with False show ?thesis by (simp add: to_u32_saturating_def)
qed


section \<open>Critical sections\<close>

text \<open>The critical sections of the tracker as calls, in whatever order tasks make them.\<close>

datatype section_call =
    Call_Publish
  | Call_Ack
  | Call_Failed PublishTicket
  | Call_Disconnect
  | Call_Close duration u64 "unit + unit"

fun section_effect :: "section_call \<Rightarrow> State \<Rightarrow> State" where
  "section_effect Call_Publish st = snd (record_publish st)"
| "section_effect Call_Ack st = record_ack st"
| "section_effect (Call_Failed t) st = record_publish_failed t st"
| "section_effect Call_Disconnect st = record_disconnect st"
| "section_effect (Call_Close timeout opened_at drained) st =
     snd (flush_close timeout opened_at drained st :: (unit SparkplugError + unit) \<times> State)"

definition disconnects_in :: "section_call list \<Rightarrow> nat" where
  "disconnects_in calls = length (filter (\<lambda>call. call = Call_Disconnect) calls)"

lemma section_generation:
  "generation (section_effect call st) = generation st + of_bool (call = Call_Disconnect)"
  by (cases call) (auto simp: tracker_defs Let_def split: sum.split)

lemma sections_generation:
  "generation (fold section_effect calls st) = generation st + word_of_nat (disconnects_in calls)"
  by (induction calls arbitrary: st) (simp_all add: disconnects_in_def section_generation)


section \<open>Properties\<close>

text \<open>
  Overlapping flushes: two flushes that were open over the same losses
  give the same answer, whichever takes the record first, and a flush that
  opens afterwards reports nothing twice.
\<close>

theorem overlapping_flushes_agree:
  fixes st :: State and t t' :: duration and opened_at :: u64
  defines "closed \<equiv> snd (flush_close t opened_at (Inr ()) st :: ('x SparkplugError + unit) \<times> State)"
  shows "fst (flush_close t' opened_at (Inr ()) closed) =
      (fst (flush_close t opened_at (Inr ()) st) :: 'x SparkplugError + unit) \<and>
    fst (flush_close t' (flush_open closed) (Inr ()) closed) = (Inr () :: 'x SparkplugError + unit)"
  by (simp add: closed_def flush_close_def flush_open_def Let_def to_u32_saturating_0)

text \<open>
  C20. A ticket releases its own publish and no other: whatever publishes,
  acknowledgements, refusals, ends of flushes and, short of \<open>2 ^ 64\<close>, disconnects
  other tasks record while a publish is in flight, a publish that then ends without
  the client takes one off the count if no disconnect came between, and otherwise
  leaves the tracker as it is, with the count of every publish recorded since. With
  nothing in between, the tracker is back in the state before the publish, unless
  the count had already wrapped.
\<close>

theorem ticket_releases_own_publish:
  assumes "publish_in_flight st = (guard, st1)" and "disconnects_in calls < 2 ^ 64"
    and "st2 = fold section_effect calls st1"
  shows "drop_in_flight guard st2 =
      (if Call_Disconnect \<in> set calls then st2 else st2\<lparr>unacked := saturating_dec (unacked st2)\<rparr>) \<and>
    (calls = [] \<longrightarrow> unat (unacked st) < 2 ^ 32 - 1 \<longrightarrow> drop_in_flight guard st2 = st)"
proof -
  have guard: "guard = PublishInFlight (Some (PublishTicket (generation st1)))"
    using assms(1) by (auto simp: tracker_defs Let_def)
  have gen: "generation st2 = generation st1 + word_of_nat (disconnects_in calls)"
    by (simp add: assms(3) sections_generation)
  have none: "Call_Disconnect \<notin> set calls \<longleftrightarrow> disconnects_in calls = 0"
    by (auto simp: disconnects_in_def filter_empty_conv)
  define w :: u64 where "w = word_of_nat (disconnects_in calls)"
  have "unat w = disconnects_in calls" using assms(2) by (simp add: w_def unat_of_nat)
  moreover have "w = 0 \<longleftrightarrow> unat w = 0" by (simp add: unat_eq_zero)
  ultimately have "generation st2 = generation st1 \<longleftrightarrow> Call_Disconnect \<notin> set calls"
    by (simp add: gen none flip: w_def)
  then have "drop_in_flight guard st2 =
      (if Call_Disconnect \<in> set calls then st2 else st2\<lparr>unacked := saturating_dec (unacked st2)\<rparr>)"
    by (auto simp: guard drop_in_flight_def record_publish_failed_def)
  moreover have "drop_in_flight guard st2 = st" if "calls = []" "unat (unacked st) < 2 ^ 32 - 1"
    using publish_then_drop [OF assms(1) that(2)] that(1) assms(3) by simp
  ultimately show ?thesis by blast
qed

text \<open>A publish recorded after a disconnect keeps its count when an older one ends.\<close>

theorem ticket_releases_own_publish_witness:
  "\<exists>guard st1. publish_in_flight DeliveryTracker_new = (guard, st1) \<and>
     unacked (drop_in_flight guard (fold section_effect [Call_Disconnect, Call_Publish] st1)) = 1 \<and>
     unacked (drop_in_flight guard (fold section_effect [Call_Publish] st1)) = 1"
proof -
  obtain guard st1 where pub: "publish_in_flight DeliveryTracker_new = (guard, st1)"
    by (cases "publish_in_flight DeliveryTracker_new")
  then have st1: "unacked st1 = 1" by (auto simp: tracker_defs Let_def)
  from ticket_releases_own_publish [OF pub _ refl, of "[Call_Disconnect, Call_Publish]"]
    ticket_releases_own_publish [OF pub _ refl, of "[Call_Publish]"] pub st1
  show ?thesis
    by (intro exI [of _ guard] exI [of _ st1])
       (simp add: disconnects_in_def record_publish_def record_disconnect_def saturating_dec_def Let_def)
qed

end
