(* ===== verification/Event_Loop.thy ===== *)
theory Event_Loop
  imports Delivery
begin

text \<open>
  The background poll loop of \<open>src/sparkplug/eventloop.rs\<close>: one polled event
  at a time updates the delivery tracker, the health signal, the count of
  consecutive errors and the one-shot signal that \<open>connect\<close> waits for.

  \<open>rumqttc\<close> defines the events. The loop tells apart four packets and one
  outgoing event and ignores what the others carry, so each of the other
  packets is \<open>OtherPacket\<close>, each of the other outgoing events
  \<open>OtherOutgoing\<close>. What the loop logs, the signal it sends and the pause it
  takes after an error are its effects, in their order.
\<close>

section \<open>Events\<close>

datatype packet = ConnAck | PubAck | PacketDisconnect | OtherPacket
datatype outgoing = OutgoingDisconnect | OtherOutgoing
datatype event = Incoming packet | Outgoing outgoing

text \<open>What one poll gives: an event, or a connection error \<open>'e\<close>.\<close>

type_synonym 'e polled = "'e + event"

datatype Health = Connected | Disconnected_link

definition MAX_CONSECUTIVE_ERRORS :: u32 where
  "MAX_CONSECUTIVE_ERRORS = 5"

definition ERROR_BACKOFF :: duration where
  "ERROR_BACKOFF = from_secs 1"

fun apply_event :: "State \<Rightarrow> 'e polled \<Rightarrow> State" where
  "apply_event delivery (Inr (Incoming PubAck)) = record_ack delivery"
| "apply_event delivery (Inr (Incoming PacketDisconnect)) = record_disconnect delivery"
| "apply_event delivery (Inl _) = record_disconnect delivery"
| "apply_event delivery (Inr _) = delivery"

fun apply_health :: "Health \<Rightarrow> 'e polled \<Rightarrow> Health" where
  "apply_health health (Inr (Incoming ConnAck)) = Connected"
| "apply_health health (Inr (Incoming PacketDisconnect)) = Disconnected_link"
| "apply_health health (Inr (Outgoing OutgoingDisconnect)) = Disconnected_link"
| "apply_health health (Inl _) = Disconnected_link"
| "apply_health health (Inr _) = health"


section \<open>The loop\<close>

datatype 'e effect =
    LogConnected
  | LogDisconnected
  | LogErrorWarn u32 'e
  | LogErrorError u32 'e
  | SignalReady
  | Sleep duration

record loop_state =
  delivery :: State
  health :: Health
  ready :: bool
  consecutive_errors :: u32

definition loop_init :: "State \<Rightarrow> Health \<Rightarrow> loop_state" where
  "loop_init st h = \<lparr>delivery = st, health = h, ready = True, consecutive_errors = 0\<rparr>"

text \<open>One turn of the loop, from the event the poll gave.\<close>

definition loop_turn :: "'e polled \<Rightarrow> loop_state \<Rightarrow> loop_state \<times> 'e effect list" where
  "loop_turn event s =
     (let s1 = s\<lparr>delivery := apply_event (delivery s) event,
                 health := apply_health (health s) event\<rparr>
      in case event of
           Inr (Incoming ConnAck) \<Rightarrow>
             (s1\<lparr>consecutive_errors := 0, ready := False\<rparr>,
              LogConnected # (if ready s then [SignalReady] else []))
         | Inr (Incoming PacketDisconnect) \<Rightarrow> (s1, [LogDisconnected])
         | Inr _ \<Rightarrow> (s1\<lparr>consecutive_errors := 0\<rparr>, [])
         | Inl e \<Rightarrow>
             (let n = consecutive_errors s + 1
              in (s1\<lparr>consecutive_errors := n\<rparr>,
                  [if MAX_CONSECUTIVE_ERRORS \<le> n then LogErrorError n e else LogErrorWarn n e,
                   Sleep ERROR_BACKOFF])))"

text \<open>
  The loop never returns, so a run is its state and its effects after the
  events polled so far.
\<close>

fun loop_run :: "'e polled list \<Rightarrow> loop_state \<Rightarrow> loop_state \<times> 'e effect list" where
  "loop_run [] s = (s, [])"
| "loop_run (e # es) s =
     (let (s1, out) = loop_turn e s; (s2, outs) = loop_run es s1 in (s2, out @ outs))"


section \<open>What a run does\<close>

lemma loop_turn_simps [simp]:
  "delivery (fst (loop_turn e s)) = apply_event (delivery s) e"
  "health (fst (loop_turn e s)) = apply_health (health s) e"
  "ready (fst (loop_turn e s)) \<longleftrightarrow> ready s \<and> e \<noteq> Inr (Incoming ConnAck)"
  by (auto simp: loop_turn_def Let_def split: sum.split event.split packet.split)

lemma loop_run_delivery: "delivery (fst (loop_run es s)) = foldl apply_event (delivery s) es"
  by (induction es arbitrary: s) (simp_all add: split_beta Let_def)

lemma loop_run_health: "health (fst (loop_run es s)) = foldl apply_health (health s) es"
  by (induction es arbitrary: s) (simp_all add: split_beta Let_def)

lemma loop_run_append:
  "loop_run (es @ fs) s =
     (let (s1, out) = loop_run es s; (s2, outs) = loop_run fs s1 in (s2, out @ outs))"
  by (induction es arbitrary: s) (simp_all add: split_beta Let_def)

text \<open>Health is decided by the last event that says something about the link.\<close>

fun link_event :: "'e polled \<Rightarrow> Health option" where
  "link_event (Inr (Incoming ConnAck)) = Some Connected"
| "link_event (Inr (Incoming PacketDisconnect)) = Some Disconnected_link"
| "link_event (Inr (Outgoing OutgoingDisconnect)) = Some Disconnected_link"
| "link_event (Inl _) = Some Disconnected_link"
| "link_event (Inr _) = None"

lemma apply_health_link: "apply_health h e = (case link_event e of None \<Rightarrow> h | Some h' \<Rightarrow> h')"
  by (cases "(h, e)" rule: apply_health.cases) simp_all

lemma health_last:
  "foldl apply_health h es =
     (case List.map_filter link_event es of [] \<Rightarrow> h | x # xs \<Rightarrow> last (x # xs))"
proof (induction es arbitrary: h)
  case Nil
  show ?case by (simp add: List.map_filter_simps)
next
  case (Cons e es)
  then show ?case
    by (auto simp: apply_health_link List.map_filter_simps split: option.split list.split)
qed

text \<open>The signal goes out once, at the first ConnAck.\<close>

lemma loop_turn_signals:
  "count_list (snd (loop_turn e s)) SignalReady =
     (if ready s \<and> e = Inr (Incoming ConnAck) then 1 else 0)"
  by (auto simp: loop_turn_def Let_def split: sum.split event.split packet.split)

lemma loop_run_signals:
  "count_list (snd (loop_run es s)) SignalReady =
     (if ready s \<and> Inr (Incoming ConnAck) \<in> set es then 1 else 0)"
  by (induction es arbitrary: s) (auto simp: split_beta Let_def loop_turn_signals)

text \<open>
  The count of consecutive errors: errors since the last event that clears it.
  An incoming DISCONNECT is the one event that neither counts nor clears.
\<close>

fun error_event :: "'e polled \<Rightarrow> bool" where
  "error_event (Inl _) \<longleftrightarrow> True"
| "error_event (Inr _) \<longleftrightarrow> False"

fun neutral_event :: "'e polled \<Rightarrow> bool" where
  "neutral_event (Inr (Incoming PacketDisconnect)) \<longleftrightarrow> True"
| "neutral_event _ \<longleftrightarrow> False"

definition error_streak :: "'e polled list \<Rightarrow> nat" where
  "error_streak es =
     length (filter error_event (takeWhile (\<lambda>e. error_event e \<or> neutral_event e) (rev es)))"

lemma loop_turn_errors:
  "consecutive_errors (fst (loop_turn e s)) =
     (if error_event e then consecutive_errors s + 1
      else if neutral_event e then consecutive_errors s else 0)"
  by (auto simp: loop_turn_def Let_def split: sum.split event.split packet.split)

lemma error_streak_snoc:
  "error_streak (es @ [e]) =
     (if error_event e then Suc (error_streak es)
      else if neutral_event e then error_streak es else 0)"
  by (auto simp: error_streak_def)

lemma loop_run_errors:
  assumes "consecutive_errors s = 0"
  shows "consecutive_errors (fst (loop_run es s)) = word_of_nat (error_streak es)"
proof (induction es rule: rev_induct)
  case Nil
  with assms show ?case by (simp add: error_streak_def)
next
  case (snoc e es)
  then show ?case
    by (simp add: loop_run_append split_beta Let_def loop_turn_errors error_streak_snoc
        add.commute)
qed

text \<open>The event that ends a run decides what the last turn puts out.\<close>

lemma loop_run_last:
  "snd (loop_run (es @ [e]) s) = snd (loop_run es s) @ snd (loop_turn e (fst (loop_run es s)))"
  by (simp add: loop_run_append split_beta Let_def)


section \<open>Properties\<close>

text \<open>
  C31. Health is what the link last said: after any events, the health signal
  holds the reading of the last event that concerns the link, and its first
  value where there was none.
\<close>

theorem health_is_last_link_event:
  "health (fst (loop_run es (loop_init st h))) =
     (case List.map_filter link_event es of [] \<Rightarrow> h | x # xs \<Rightarrow> last (x # xs))"
  by (simp add: loop_run_health health_last loop_init_def)

definition loss_event :: "'e polled \<Rightarrow> bool" where
  "loss_event e \<longleftrightarrow> error_event e \<or> neutral_event e"

lemma apply_event_no_loss:
  assumes "\<not> loss_event e"
  shows "apply_event st e = (if e = Inr (Incoming PubAck) then record_ack st else st)"
  using assms by (cases "(st, e)" rule: apply_event.cases) (simp_all add: loss_event_def)

lemma apply_event_loss: "loss_event e \<Longrightarrow> apply_event st e = record_disconnect st"
  by (cases "(st, e)" rule: apply_event.cases) (simp_all add: loss_event_def)

lemma acks_run:
  "\<forall>e\<in>set es. \<not> loss_event e \<Longrightarrow>
     unat (unacked (foldl apply_event st es)) = unat (unacked st) - count_list es (Inr (Incoming PubAck)) \<and>
     lost (foldl apply_event st es) = lost st \<and> generation (foldl apply_event st es) = generation st"
proof (induction es arbitrary: st)
  case Nil
  then show ?case by simp
next
  case (Cons e es)
  have dec: "unat (saturating_dec u) = unat u - 1" for u :: u32
    by (cases "u = 0") (simp_all add: saturating_dec_def unat_minus_one)
  show ?case
    using Cons.IH [of "apply_event st e"] Cons.prems
    by (auto simp: apply_event_no_loss record_ack_def release_one_def dec)
qed

text \<open>
  C32. The loop accounts for every acknowledgement and every loss: while the
  link holds, each PubAck releases one publish and never more than there are;
  the event that ends the link turns exactly the rest into losses.
\<close>

theorem loop_accounts_for_acks:
  assumes "\<forall>e\<in>set es. \<not> loss_event e" and "loss_event final"
  shows "unat (unacked (delivery (fst (loop_run es (loop_init st h))))) =
      unat (unacked st) - count_list es (Inr (Incoming PubAck)) \<and>
    lost (delivery (fst (loop_run es (loop_init st h)))) = lost st \<and>
    unacked (delivery (fst (loop_run (es @ [final]) (loop_init st h)))) = 0 \<and>
    lost (delivery (fst (loop_run (es @ [final]) (loop_init st h)))) =
      lost st + unacked (delivery (fst (loop_run es (loop_init st h))))"
  using acks_run [OF assms(1), of st] assms(2)
  by (simp add: loop_run_delivery apply_event_loss record_disconnect_def loop_init_def)

theorem loop_accounts_for_acks_witness:
  "unat (lost (delivery (fst (loop_run
     [Inr (Incoming ConnAck), Inr (Incoming PubAck), Inr (Incoming PacketDisconnect) :: unit polled]
     (loop_init \<lparr>unacked = 3, lost = 0, reported = 0, generation = 0\<rparr> Disconnected_link))))) = 2"
proof -
  let ?st = "\<lparr>unacked = 3, lost = 0, reported = 0, generation = 0\<rparr> :: State"
  let ?es = "[Inr (Incoming ConnAck), Inr (Incoming PubAck) :: unit polled]"
  have "unat (unacked (delivery (fst (loop_run ?es (loop_init ?st Disconnected_link))))) = 2 \<and>
    lost (delivery (fst (loop_run (?es @ [Inr (Incoming PacketDisconnect)]) (loop_init ?st Disconnected_link)))) =
      unacked (delivery (fst (loop_run ?es (loop_init ?st Disconnected_link))))"
    using loop_accounts_for_acks [of ?es "Inr (Incoming PacketDisconnect)" ?st Disconnected_link]
    by (simp add: loss_event_def)
  then have "unat (lost (delivery (fst (loop_run (?es @ [Inr (Incoming PacketDisconnect)])
      (loop_init ?st Disconnected_link))))) = 2"
    by metis
  then show ?thesis by (simp only: append.simps)
qed

text \<open>
  C33. Errors escalate and back off: the turn of a connection error logs a
  warning while fewer than five errors came in a row, an error from the fifth
  on, with the length of the row, and sleeps one second.
\<close>

theorem errors_escalate:
  assumes "Suc (error_streak es) < 2 ^ 32"
  shows "snd (loop_turn (Inl err) (fst (loop_run es (loop_init st h)))) =
     [(if 5 \<le> Suc (error_streak es) then LogErrorError else LogErrorWarn)
        (word_of_nat (Suc (error_streak es))) err, Sleep (from_secs 1)]"
proof -
  have errors: "consecutive_errors (fst (loop_run es (loop_init st h))) = word_of_nat (error_streak es)"
    by (rule loop_run_errors) (simp add: loop_init_def)
  have "unat (word_of_nat (Suc (error_streak es)) :: u32) = Suc (error_streak es)"
    using assms by (simp only: unsigned_of_nat) (simp add: take_bit_nat_eq_self)
  then have "unat (1 + word_of_nat (error_streak es) :: u32) = Suc (error_streak es)" by simp
  then have "MAX_CONSECUTIVE_ERRORS \<le> 1 + word_of_nat (error_streak es) \<longleftrightarrow> 5 \<le> Suc (error_streak es)"
    by (simp add: MAX_CONSECUTIVE_ERRORS_def word_le_nat_alt)
  then show ?thesis
    by (simp add: loop_turn_def errors ERROR_BACKOFF_def Let_def add.commute)
qed

theorem errors_escalate_witness:
  "snd (loop_turn (Inl 4) (fst (loop_run [Inl 0, Inr (Incoming PubAck), Inl 1, Inl 2, Inl 3, Inl (3::nat)]
      (loop_init DeliveryTracker_new Disconnected_link)))) = [LogErrorError 5 4, Sleep (from_secs 1)]"
  using errors_escalate [of "[Inl 0, Inr (Incoming PubAck), Inl 1, Inl 2, Inl 3, Inl (3::nat)]" 4 DeliveryTracker_new Disconnected_link]
  by (simp add: error_streak_def)

text \<open>
  The signal that a caller of \<open>connect\<close> waits for goes out exactly once,
  and only if the broker acknowledged the connection.
\<close>

theorem ready_signal_once:
  "count_list (snd (loop_run es (loop_init st h))) SignalReady =
     (if Inr (Incoming ConnAck) \<in> set es then 1 else 0)"
  by (simp add: loop_run_signals loop_init_def)

end
