(* ===== verification/Mqtt_Config.thy ===== *)
theory Mqtt_Config
  imports Topic_Ids
begin

text \<open>
  The MQTT connection setup of \<open>src/client.rs\<close>: the configuration, the
  generated client id and the options a Sparkplug connection uses. The
  transport belongs to \<open>rumqttc\<close> and is the type parameter \<open>'t\<close>;
  \<open>MqttOptions\<close> holds what the code sets on the options of that crate.
\<close>

record 't MqttConfig =
  broker_url :: string
  broker_port :: u16
  transport :: 't
  username :: string
  password :: string
  client_id :: "string option"
  version :: string

section \<open>The generated client id\<close>

text \<open>\<open>{:08x}\<close> of a \<open>u32\<close>: eight hexadecimal digits, the most significant first.\<close>

fun hex_digits :: "nat \<Rightarrow> nat \<Rightarrow> string" where
  "hex_digits 0 n = []"
| "hex_digits (Suc w) n = hex_digits w (n div 16) @ [hex_digit (n mod 16)]"

definition generate_client_id :: "string \<Rightarrow> u32 \<Rightarrow> string" where
  "generate_client_id v random = v @ ''_'' @ hex_digits 8 (unat random)"

lemma length_hex_digits [simp]: "length (hex_digits w n) = w"
  by (induction w n rule: hex_digits.induct) simp_all

lemma hex_digit_inject:
  assumes "a < 16" and "b < 16" and "hex_digit a = hex_digit b"
  shows "a = b"
proof -
  have "(of_char (hex_digit x) :: nat) = (if x < 10 then 48 + x else 87 + x)" if "x < 16" for x
    using that by (simp add: of_char_of)
  from this [OF assms(1)] this [OF assms(2)] assms(3) show ?thesis
    by (auto split: if_splits)
qed

lemma hex_digits_inject:
  "m < 16 ^ w \<Longrightarrow> n < 16 ^ w \<Longrightarrow> hex_digits w m = hex_digits w n \<Longrightarrow> m = n"
proof (induction w arbitrary: m n)
  case 0
  then show ?case by simp
next
  case (Suc w)
  from Suc.prems(3) have high: "hex_digits w (m div 16) = hex_digits w (n div 16)"
    and "hex_digit (m mod 16) = hex_digit (n mod 16)" by (simp_all del: hex_digit.simps)
  then have low: "m mod 16 = n mod 16"
    by (intro hex_digit_inject) simp_all
  have "m div 16 < 16 ^ w" "n div 16 < 16 ^ w"
    using Suc.prems(1,2) by (simp_all add: div_less_iff_less_mult mult.commute)
  then have "m div 16 = n div 16" using high by (rule Suc.IH)
  with low show ?case by (metis div_mult_mod_eq)
qed

lemma hex_digit_charset: "n < 16 \<Longrightarrow> hex_digit n \<in> set ''0123456789abcdef''"
proof -
  have "list_all (\<lambda>k. hex_digit k \<in> set ''0123456789abcdef'') [0..<16]" by code_simp
  then show "n < 16 \<Longrightarrow> hex_digit n \<in> set ''0123456789abcdef''"
    by (simp only: list_all_iff set_upt) simp
qed

lemma hex_digits_charset: "set (hex_digits w n) \<subseteq> set ''0123456789abcdef''"
proof (induction w n rule: hex_digits.induct)
  case (2 w n)
  have "hex_digit (n mod 16) \<in> set ''0123456789abcdef''" by (rule hex_digit_charset) simp
  with 2 show ?case by (simp del: hex_digit.simps)
qed simp

lemma generate_client_id_inject:
  "generate_client_id v r = generate_client_id v s \<longleftrightarrow> r = s"
proof
  assume "generate_client_id v r = generate_client_id v s"
  then have "hex_digits 8 (unat r) = hex_digits 8 (unat s)"
    by (simp add: generate_client_id_def)
  moreover have "unat r < 16 ^ 8" "unat s < 16 ^ 8"
    using unsigned_less [of r] unsigned_less [of s] by simp_all
  ultimately have "unat r = unat s" by (intro hex_digits_inject)
  then have "word_of_nat (unat s) = r" by (rule word_of_nat_eqI)
  moreover have "word_of_nat (unat s) = s" by (rule word_of_nat_eqI) (rule refl)
  ultimately show "r = s" by (rule trans [OF sym])
qed simp


section \<open>Options\<close>

record 't MqttOptions =
  opt_client_id :: string
  opt_host :: string
  opt_port :: u16
  opt_credentials :: "string \<times> string"
  opt_keep_alive :: duration
  opt_clean_session :: bool
  opt_max_packet_size :: "nat \<times> nat"
  opt_inflight :: u16
  opt_manual_acks :: bool
  opt_pending_throttle :: duration
  opt_transport :: 't

text \<open>The argument \<open>random\<close> is the draw of \<open>rand::random\<close>.\<close>

definition mqtt_options :: "u32 \<Rightarrow> 't MqttConfig \<Rightarrow> 't MqttOptions" where
  "mqtt_options random config =
     (let cid = (case client_id config of
                   Some cid \<Rightarrow> cid
                 | None \<Rightarrow> generate_client_id (version config) random)
      in \<lparr>opt_client_id = cid,
          opt_host = broker_url config,
          opt_port = broker_port config,
          opt_credentials = (username config, password config),
          opt_keep_alive = from_secs 15,
          opt_clean_session = True,
          opt_max_packet_size = (10 * 1024 * 1024, 10 * 1024 * 1024),
          opt_inflight = 100,
          opt_manual_acks = False,
          opt_pending_throttle = from_millis 100,
          opt_transport = transport config\<rparr>)"

text \<open>\<open>mqtt_parts\<close>: the options and the capacity of the request channel.\<close>

definition mqtt_parts :: "u32 \<Rightarrow> 't MqttConfig \<Rightarrow> 't MqttOptions \<times> nat" where
  "mqtt_parts random config = (mqtt_options random config, 10)"


section \<open>The debug text\<close>

definition debug_option :: "string option \<Rightarrow> string" where
  "debug_option v = (case v of None \<Rightarrow> ''None'' | Some s \<Rightarrow> ''Some('' @ debug_str s @ '')'')"

definition debug_config :: "'t MqttConfig \<Rightarrow> string" where
  "debug_config config =
     ''MqttConfig { broker_url: '' @ debug_str (broker_url config) @
     '', broker_port: '' @ decimal (unat (broker_port config)) @
     '', username: '' @ debug_str (username config) @
     '', password: '' @ debug_str ''[REDACTED]'' @
     '', client_id: '' @ debug_option (client_id config) @
     '', version: '' @ debug_str (version config) @ '', .. }''"

lemma debug_config_password: "debug_config (config\<lparr>password := p\<rparr>) = debug_config config"
  by (simp add: debug_config_def)


section \<open>Properties\<close>

text \<open>
  Generated client ids: two connections of one configuration that names no
  client id share an id only when they drew the same number, and the id is the
  version, an underscore and eight lowercase hexadecimal digits. A configured
  id is taken as it is. The session is clean either way.
\<close>

theorem generated_client_ids:
  "(opt_client_id (mqtt_options r config) = opt_client_id (mqtt_options s config) \<longleftrightarrow>
      (case client_id config of None \<Rightarrow> r = s | Some _ \<Rightarrow> True)) \<and>
   (\<exists>digits. generate_client_id v r = v @ ''_'' @ digits \<and> length digits = 8 \<and>
      set digits \<subseteq> set ''0123456789abcdef'') \<and>
   opt_clean_session (mqtt_options r config)"
proof -
  have "opt_client_id (mqtt_options r config) = opt_client_id (mqtt_options s config) \<longleftrightarrow>
      (case client_id config of None \<Rightarrow> r = s | Some _ \<Rightarrow> True)"
    by (cases "client_id config") (simp_all add: mqtt_options_def Let_def generate_client_id_inject)
  moreover have "\<exists>digits. generate_client_id v r = v @ ''_'' @ digits \<and> length digits = 8 \<and>
      set digits \<subseteq> set ''0123456789abcdef''"
    by (intro exI [of _ "hex_digits 8 (unat r)"] conjI hex_digits_charset)
       (simp_all add: generate_client_id_def)
  ultimately show ?thesis by (simp add: mqtt_options_def Let_def)
qed

text \<open>
  The debug text of a configuration does not depend on the password: it is
  the same text for any two passwords.
\<close>

theorem debug_hides_password:
  "debug_config (config\<lparr>password := p\<rparr>) = debug_config (config\<lparr>password := q\<rparr>)"
  by (simp add: debug_config_password)

end
