(* ===== verification/Client.thy ===== *)
theory Client
  imports Seq Topic Event_Loop Mqtt_Config
begin

text \<open>
  The client of \<open>src/sparkplug/client.rs\<close> and its shutdown,
  \<open>src/sparkplug/client/shutdown.rs\<close>.

  The client record holds the fields of \<open>SparkplugClient\<close>. Its \<open>AsyncClient\<close>
  belongs to \<open>rumqttc\<close>; what the crate can observe of it is the list of the
  requests it has taken, oldest first, which is \<open>cl_wire\<close>. The results of the
  \<open>tokio\<close> timers and channels are arguments, in the shape the code matches on.
\<close>

section \<open>Identity and state\<close>

datatype Identity = IdentityPublisher | IdentityEdgeNode OwnedEdgeNode

record request =
  req_topic :: string
  req_qos :: QoS
  req_retain :: bool
  req_payload :: "u8 list"

text \<open>The task of the event loop, as its handle sees it.\<close>

datatype loop_task = NotSpawned | Running | Aborted

record client =
  cl_wire :: "request list"
  cl_namespace :: Namespace
  cl_identity :: Identity
  cl_delivery :: State
  cl_seq :: seq_counters
  cl_health :: Health
  cl_loop :: loop_task

definition role :: "client \<Rightarrow> Role" where
  "role c =
     (case cl_identity c of
        IdentityPublisher \<Rightarrow> RolePublisher
      | IdentityEdgeNode _ \<Rightarrow> RoleEdgeNode)"

definition edge_node :: "client \<Rightarrow> EdgeNode option" where
  "edge_node c =
     (case cl_identity c of
        IdentityPublisher \<Rightarrow> None
      | IdentityEdgeNode owned \<Rightarrow> Some (of_owned owned))"

lemma edge_node_role: "edge_node c = None \<longleftrightarrow> role c = RolePublisher"
  by (simp add: edge_node_def role_def split: Identity.split)


section \<open>Connecting\<close>

definition DEFAULT_CONNECT_TIMEOUT :: duration where
  "DEFAULT_CONNECT_TIMEOUT = from_secs 5"

text \<open>
  What \<open>tokio::time::timeout(timeout, rx)\<close> gives: the signal of the loop, the
  error of a receiver whose sender was dropped, or the end of the time.
\<close>

datatype ready_wait = ReadySignalled | ReadySenderDropped | ReadyElapsed

text \<open>
  \<open>connect_with\<close>. The list \<open>events\<close> is what the loop has polled when the wait
  ends, \<open>random\<close> the draw of a generated client id. The result is what the
  caller gets, the state of the loop task, and what \<open>mqtt_parts\<close> was built
  with: the options of the connection and the capacity of its channel.
\<close>

definition connect_with ::
    "u32 \<Rightarrow> 't MqttConfig \<Rightarrow> Identity \<Rightarrow> duration \<Rightarrow> 'e polled list \<Rightarrow> ready_wait \<Rightarrow>
     ('x SparkplugError + client) \<times> loop_task \<times> ('t MqttOptions \<times> nat)" where
  "connect_with random config identity timeout events waited =
     (let parts = mqtt_parts random config
      in case Namespace_new (version config) of
        Inl e \<Rightarrow> (Inl e, NotSpawned, parts)
      | Inr namespace \<Rightarrow>
          (let looped = fst (loop_run events (loop_init DeliveryTracker_new Disconnected_link))
           in case waited of
                ReadyElapsed \<Rightarrow> (Inl (ConnectionTimeout timeout), Aborted, parts)
              | _ \<Rightarrow>
                  (Inr \<lparr>cl_wire = [], cl_namespace = namespace, cl_identity = identity,
                        cl_delivery = delivery looped, cl_seq = SeqCounters_new,
                        cl_health = health looped, cl_loop = Running\<rparr>, Running, parts)))"

definition connect ::
    "u32 \<Rightarrow> 't MqttConfig \<Rightarrow> 'e polled list \<Rightarrow> ready_wait \<Rightarrow> ('x SparkplugError + client) \<times> loop_task \<times> ('t MqttOptions \<times> nat)" where
  "connect random config events waited =
     connect_with random config IdentityPublisher DEFAULT_CONNECT_TIMEOUT events waited"

definition connect_with_timeout ::
    "u32 \<Rightarrow> 't MqttConfig \<Rightarrow> duration \<Rightarrow> 'e polled list \<Rightarrow> ready_wait \<Rightarrow>
     ('x SparkplugError + client) \<times> loop_task \<times> ('t MqttOptions \<times> nat)" where
  "connect_with_timeout random config timeout events waited =
     connect_with random config IdentityPublisher timeout events waited"

definition connect_as_edge_node ::
    "u32 \<Rightarrow> 't MqttConfig \<Rightarrow> EdgeNode \<Rightarrow> duration \<Rightarrow> 'e polled list \<Rightarrow> ready_wait \<Rightarrow>
     ('x SparkplugError + client) \<times> loop_task \<times> ('t MqttOptions \<times> nat)" where
  "connect_as_edge_node random config en timeout events waited =
     connect_with random config (IdentityEdgeNode (to_owned en)) timeout events waited"

lemmas connect_defs =
  connect_def connect_with_timeout_def connect_as_edge_node_def connect_with_def

text \<open>
  What the channel promises: the wait ends with the signal only when the loop
  has sent it.
\<close>

definition ready_consistent :: "'e polled list \<Rightarrow> ready_wait \<Rightarrow> bool" where
  "ready_consistent events waited \<longleftrightarrow>
     (waited = ReadySignalled \<longrightarrow>
        SignalReady \<in> set (snd (loop_run events (loop_init DeliveryTracker_new Disconnected_link))))"

lemma ready_consistent_ConnAck:
  "ready_consistent events ReadySignalled \<longleftrightarrow> Inr (Incoming ConnAck) \<in> set events"
proof -
  have member: "x \<in> set xs \<longleftrightarrow> count_list xs x \<noteq> 0" for x :: "'a effect" and xs
    by (induction xs) auto
  show ?thesis
    unfolding ready_consistent_def member by (simp add: loop_run_signals loop_init_def)
qed

lemma Namespace_new_Inr [simp]:
  "Namespace_new v = Inr ns \<longleftrightarrow> is_usable_segment v \<and> ns = Namespace v"
  by (auto simp: Namespace_new_def)

lemma Namespace_new_Inl:
  "Namespace_new v = Inl e \<longleftrightarrow> \<not> is_usable_segment v \<and> e = InvalidNamespace v"
  by (auto simp: Namespace_new_def)


section \<open>Reading the client\<close>

definition client_unacked :: "client \<Rightarrow> u32" where
  "client_unacked c = unacked (cl_delivery c)"

definition client_flush ::
    "duration \<Rightarrow> (State \<Rightarrow> State) \<Rightarrow> unit + unit \<Rightarrow> client \<Rightarrow> ('x SparkplugError + unit) \<times> client" where
  "client_flush timeout meanwhile drained c =
     (let (answer, st) = flush timeout meanwhile drained (cl_delivery c)
      in (answer, c\<lparr>cl_delivery := st\<rparr>))"

text \<open>\<open>Drop\<close>: the event loop is aborted.\<close>

definition drop_client :: "client \<Rightarrow> client" where
  "drop_client c = c\<lparr>cl_loop := Aborted\<rparr>"


section \<open>Shutdown\<close>

text \<open>
  \<open>wait_for_disconnect\<close>. The argument \<open>wait_for\<close> is
  \<open>timeout_at(deadline, health.wait_for(..))\<close>, a function of the predicate it is
  called with: \<open>Inl\<close> when the deadline came first, else what the watch channel
  gave, which is an error or a reading.
\<close>

type_synonym health_wait = "(Health \<Rightarrow> bool) \<Rightarrow> unit + (unit + Health)"

definition wait_for_disconnect :: "health_wait \<Rightarrow> bool" where
  "wait_for_disconnect wait_for =
     (case wait_for (\<lambda>h. h = Disconnected_link) of
        Inl _ \<Rightarrow> False
      | Inr found \<Rightarrow> (case found of Inl _ \<Rightarrow> False | Inr _ \<Rightarrow> True))"

text \<open>What the channel documents: a reading it gives satisfies the predicate.\<close>

definition wait_for_sound :: "health_wait \<Rightarrow> bool" where
  "wait_for_sound wait_for \<longleftrightarrow> (\<forall>accept h. wait_for accept = Inr (Inr h) \<longrightarrow> accept h)"

datatype 'x Disconnected = Written | Unconfirmed | Refused 'x

definition disconnect_outcome ::
    "unit + ('x + unit) \<Rightarrow> health_wait \<Rightarrow> 'x Disconnected" where
  "disconnect_outcome requested wait_for =
     (case requested of
        Inl _ \<Rightarrow> Unconfirmed
      | Inr (Inl e) \<Rightarrow> Refused e
      | Inr (Inr _) \<Rightarrow> (if wait_for_disconnect wait_for then Written else Unconfirmed))"

definition shutdown_outcome ::
    "'x SparkplugError + unit \<Rightarrow> 'x Disconnected \<Rightarrow> duration \<Rightarrow> 'x SparkplugError + unit" where
  "shutdown_outcome flushed disconnected timeout =
     (case flushed of
        Inl e \<Rightarrow> Inl e
      | Inr _ \<Rightarrow>
          (case disconnected of
             Written \<Rightarrow> Inr ()
           | Refused e \<Rightarrow> Inl (Disconnect e)
           | Unconfirmed \<Rightarrow> Inl (ShutdownTimeout timeout)))"

text \<open>
  \<open>shutdown\<close>: flush, request the DISCONNECT, wait for it, and drop the client.
  The result of every wait is an argument.
\<close>

definition shutdown ::
    "duration \<Rightarrow> (State \<Rightarrow> State) \<Rightarrow> unit + unit \<Rightarrow> unit + ('x + unit) \<Rightarrow>
     health_wait \<Rightarrow> client \<Rightarrow> ('x SparkplugError + unit) \<times> client" where
  "shutdown timeout meanwhile drained requested wait_for c =
     (let (flushed, c1) = client_flush timeout meanwhile drained c
      in (shutdown_outcome flushed (disconnect_outcome requested wait_for) timeout, drop_client c1))"

lemma wait_for_disconnect_sound:
  assumes "wait_for_sound wait_for"
  shows "wait_for_disconnect wait_for \<longleftrightarrow>
    wait_for (\<lambda>h. h = Disconnected_link) = Inr (Inr Disconnected_link)"
  using assms
  by (auto simp: wait_for_disconnect_def wait_for_sound_def split: sum.splits)

lemma shutdown_outcome_Inr:
  "shutdown_outcome flushed disconnected timeout = Inr () \<longleftrightarrow>
     flushed = Inr () \<and> disconnected = Written"
  by (auto simp: shutdown_outcome_def split: sum.split Disconnected.split)


text \<open>A client as it stands right after it connected, with nothing published.\<close>

definition idle_client :: "string \<Rightarrow> Identity \<Rightarrow> client" where
  "idle_client v identity =
     \<lparr>cl_wire = [], cl_namespace = Namespace v, cl_identity = identity,
      cl_delivery = DeliveryTracker_new, cl_seq = SeqCounters_new,
      cl_health = Connected, cl_loop = Running\<rparr>"


section \<open>Properties\<close>

text \<open>
  C29. What a shutdown reports, and that it stops the loop: it returns \<open>Ok\<close>
  exactly if the flush did, the client took the DISCONNECT and the link was then
  seen down; an error of the flush comes first, then the refusal of the
  DISCONNECT, and what is left is the timeout; whatever it reports, the event
  loop is aborted, and only the flush changes the tracker.
\<close>

theorem shutdown_result:
  fixes requested :: "unit + ('x + unit)"
  assumes "wait_for_sound wait_for"
    and "client_flush t meanwhile drained c = (flushed, c1)"
    and "shutdown t meanwhile drained requested wait_for c = (result, c2)"
  shows "(result = Inr () \<longleftrightarrow> flushed = Inr () \<and> requested = Inr (Inr ()) \<and>
        wait_for (\<lambda>h. h = Disconnected_link) = Inr (Inr Disconnected_link)) \<and>
    (\<forall>e. flushed = Inl e \<longrightarrow> result = Inl e) \<and>
    (\<forall>e. flushed = Inr () \<and> requested = Inr (Inl e) \<longrightarrow> result = Inl (Disconnect e)) \<and>
    result \<in> {flushed, Inl (ShutdownTimeout t)} \<union> (\<lambda>e. Inl (Disconnect e)) ` {e. requested = Inr (Inl e)} \<and>
    c2 = c1\<lparr>cl_loop := Aborted\<rparr>"
proof -
  have result: "result = shutdown_outcome flushed (disconnect_outcome requested wait_for) t"
    and c2: "c2 = drop_client c1"
    using assms(2,3) by (auto simp: shutdown_def)
  show ?thesis
    using wait_for_disconnect_sound [OF assms(1)]
    by (auto simp: result c2 drop_client_def shutdown_outcome_def disconnect_outcome_def
        split: sum.splits)
qed

text \<open>A wait that sees a link that is down at once, as the channel documents it.\<close>

theorem shutdown_result_witness:
  "\<exists>c1 c2. client_flush 5 id (Inr ()) (idle_client ''spBv1.0'' IdentityPublisher) =
       (Inr () :: unit SparkplugError + unit, c1) \<and>
     shutdown 5 id (Inr ()) (Inr (Inr ()))
       (\<lambda>accept. if accept Disconnected_link then Inr (Inr Disconnected_link) else Inl ())
       (idle_client ''spBv1.0'' IdentityPublisher) = (Inr () :: unit SparkplugError + unit, c2) \<and>
     cl_loop c2 = Aborted"
proof -
  let ?wait = "\<lambda>accept. if accept Disconnected_link then Inr (Inr Disconnected_link) else Inl () :: unit + (unit + Health)"
  let ?c = "idle_client ''spBv1.0'' IdentityPublisher"
  have sound: "wait_for_sound ?wait" by (simp add: wait_for_sound_def)
  obtain c1 where flush: "client_flush 5 id (Inr ()) ?c = (Inr () :: unit SparkplugError + unit, c1)"
    by (simp add: client_flush_def flush_def flush_open_def flush_close_def idle_client_def
        DeliveryTracker_new_def to_u32_saturating_0 Let_def)
  obtain result c2 where call: "shutdown 5 id (Inr ()) (Inr (Inr () :: unit + unit)) ?wait ?c = (result, c2)"
    by (cases "shutdown 5 id (Inr ()) (Inr (Inr () :: unit + unit)) ?wait ?c")
  from shutdown_result [OF sound flush call] flush call show ?thesis by simp
qed

end
