(* ===== verification/Data_Type.thy ===== *)
theory Data_Type
  imports Prelude
begin

text \<open>
  The Sparkplug B datatype codes of \<open>src/sparkplug/datatype.rs\<close>. The macro
  \<open>datatypes!\<close> generates the enum and both directions of its wire mapping from
  one table; the definitions below are its expansion on that table.
\<close>

datatype DataType =
    DT_Int8 | DT_Int16 | DT_Int32 | DT_Int64
  | DT_UInt8 | DT_UInt16 | DT_UInt32 | DT_UInt64
  | DT_Float | DT_Double | DT_Boolean | DT_String
  | DT_DateTime | DT_Text | DT_Uuid | DT_DataSet | DT_Bytes
  | DT_File | DT_Template | DT_PropertySet | DT_PropertySetList

fun code :: "DataType \<Rightarrow> u32" where
  "code DT_Int8 = 1"
| "code DT_Int16 = 2"
| "code DT_Int32 = 3"
| "code DT_Int64 = 4"
| "code DT_UInt8 = 5"
| "code DT_UInt16 = 6"
| "code DT_UInt32 = 7"
| "code DT_UInt64 = 8"
| "code DT_Float = 9"
| "code DT_Double = 10"
| "code DT_Boolean = 11"
| "code DT_String = 12"
| "code DT_DateTime = 13"
| "code DT_Text = 14"
| "code DT_Uuid = 15"
| "code DT_DataSet = 16"
| "code DT_Bytes = 17"
| "code DT_File = 18"
| "code DT_Template = 19"
| "code DT_PropertySet = 20"
| "code DT_PropertySetList = 21"

definition from_code :: "u32 \<Rightarrow> DataType option" where
  "from_code c =
     (if c = 1 then Some DT_Int8
      else if c = 2 then Some DT_Int16
      else if c = 3 then Some DT_Int32
      else if c = 4 then Some DT_Int64
      else if c = 5 then Some DT_UInt8
      else if c = 6 then Some DT_UInt16
      else if c = 7 then Some DT_UInt32
      else if c = 8 then Some DT_UInt64
      else if c = 9 then Some DT_Float
      else if c = 10 then Some DT_Double
      else if c = 11 then Some DT_Boolean
      else if c = 12 then Some DT_String
      else if c = 13 then Some DT_DateTime
      else if c = 14 then Some DT_Text
      else if c = 15 then Some DT_Uuid
      else if c = 16 then Some DT_DataSet
      else if c = 17 then Some DT_Bytes
      else if c = 18 then Some DT_File
      else if c = 19 then Some DT_Template
      else if c = 20 then Some DT_PropertySet
      else if c = 21 then Some DT_PropertySetList
      else None)"

lemma from_code_code: "from_code (code d) = Some d"
  by (cases d) (simp_all add: from_code_def)

lemma from_code_Some: "from_code c = Some d \<Longrightarrow> code d = c"
  by (auto simp: from_code_def split: if_splits)

interpretation datatype_code: canonical_codec code from_code "\<lambda>_. True"
  by unfold_locales (simp_all add: from_code_code from_code_Some)

lemma code_eq_iff [simp]: "code a = code b \<longleftrightarrow> a = b"
  using datatype_code.render_injective by blast

text \<open>The table names exactly the codes 1 to 21.\<close>

lemma code_range: "1 \<le> unat (code d) \<and> unat (code d) \<le> 21"
  by (cases d) simp_all

lemma from_code_None_outside:
  assumes "unat c = 0 \<or> 21 < unat c"
  shows "from_code c = None"
proof (cases "from_code c")
  case (Some d)
  then have "code d = c" by (rule from_code_Some)
  with assms code_range [of d] show ?thesis by auto
qed

text \<open>Every code of the table is reached: the numbers 1 to 21 leave no hole.\<close>

lemma from_code_inside:
  assumes "1 \<le> unat c" and "unat c \<le> 21"
  shows "from_code c \<noteq> None"
proof -
  have "unat c \<in> set [1..<22]" using assms by simp
  also have "[1..<22] = [1::nat,2,3,4,5,6,7,8,9,10,11,12,13,14,15,16,17,18,19,20,21]"
    by (simp add: upt_rec)
  finally have "unat c \<in> set [1::nat,2,3,4,5,6,7,8,9,10,11,12,13,14,15,16,17,18,19,20,21]" .
  moreover have "c = word_of_nat (unat c)" by (simp only: of_nat_unat ucast_id)
  ultimately obtain n :: nat where "n \<in> set [1,2,3,4,5,6,7,8,9,10,11,12,13,14,15,16,17,18,19,20,21]"
    and "c = word_of_nat n" by blast
  then show ?thesis
    by (auto simp: from_code_def)
qed


section \<open>Properties\<close>

text \<open>
  Datatype codes: the two directions of the mapping agree on every 32-bit
  code, and the codes that name no datatype are exactly 0 and those above 21.
\<close>

theorem datatype_codes:
  "(from_code c = Some d \<longleftrightarrow> code d = c) \<and>
   (from_code c = None \<longleftrightarrow> unat c = 0 \<or> 21 < unat c)"
  using datatype_code.reads_iff [of c d] from_code_None_outside [of c] from_code_inside [of c]
  by (meson less_one not_le)

end
