(* ===== verification/Payload.thy ===== *)
theory Payload
  imports Data_Type
begin

text \<open>
  The messages of \<open>src/sparkplugb.proto\<close>, in the shape prost generates for
  them: an \<open>optional\<close> field is an option, a \<open>repeated\<close> field a list, a
  \<open>oneof\<close> a datatype of its own, and a message of extensions has no field.
  Recursive messages (a template holds metrics, a metric holds a template; a
  property set holds values that hold property sets) are mutually recursive
  datatypes, the others records. Every field a Rust struct literal leaves to
  \<open>..Default::default()\<close> is \<open>None\<close> or the empty list.
\<close>

section \<open>Templates, data sets, properties, metadata\<close>

datatype ParameterValue =
    ParamInt u32
  | ParamLong u64
  | ParamFloat f32
  | ParamDouble f64
  | ParamBoolean bool
  | ParamString string
  | ParamExtension

record Parameter =
  parameter_name :: "string option"
  parameter_type :: "u32 option"
  parameter_value :: "ParameterValue option"

datatype DataSetValue =
    CellInt u32
  | CellLong u64
  | CellFloat f32
  | CellDouble f64
  | CellBoolean bool
  | CellString string
  | CellExtension

record Row =
  elements :: "DataSetValue option list"

record DataSet =
  num_of_columns :: "u64 option"
  columns :: "string list"
  types :: "u32 list"
  rows :: "Row list"

datatype PropertyValue =
    PropertyValue (property_type: "u32 option") (property_is_null: "bool option")
      (property_value: "PropertyVariant option")
and PropertyVariant =
    PropInt u32
  | PropLong u64
  | PropFloat f32
  | PropDouble f64
  | PropBoolean bool
  | PropString string
  | PropSet PropertySet
  | PropSets "PropertySet list"
  | PropExtension
and PropertySet =
    PropertySet (property_keys: "string list") (property_values: "PropertyValue list")

record MetaData =
  is_multi_part :: "bool option"
  content_type :: "string option"
  meta_size :: "u64 option"
  meta_seq :: "u64 option"
  file_name :: "string option"
  file_type :: "string option"
  md5 :: "string option"
  description :: "string option"


section \<open>Metric and payload\<close>

datatype Metric =
    Metric
      (metric_name: "string option")
      (metric_alias: "u64 option")
      (metric_timestamp: "u64 option")
      (metric_datatype: "u32 option")
      (is_historical: "bool option")
      (is_transient: "bool option")
      (metric_is_null: "bool option")
      (metric_metadata: "MetaData option")
      (metric_properties: "PropertySet option")
      (metric_value: "MetricVariant option")
and MetricVariant =
    IntValue u32
  | LongValue u64
  | FloatValue f32
  | DoubleValue f64
  | BooleanValue bool
  | StringValue string
  | BytesValue "u8 list"
  | DatasetValue DataSet
  | TemplateValue Template
  | ExtensionValue
and Template =
    Template
      (template_version: "string option")
      (template_metrics: "Metric list")
      (template_parameters: "Parameter list")
      (template_ref: "string option")
      (is_definition: "bool option")

record Payload =
  payload_timestamp :: "u64 option"
  payload_metrics :: "Metric list"
  payload_seq :: "u64 option"
  payload_uuid :: "string option"
  payload_body :: "u8 list option"

end
