(* ===== verification/Payload_Helpers.thy ===== *)
theory Payload_Helpers
  imports Payload Types
begin

text \<open>
  The metric and payload builders of \<open>src/sparkplug/payload_helpers.rs\<close>, with
  \<open>MetricValue\<close> of \<open>src/sparkplug/types.rs\<close> and the batch mapping
  \<open>proto_metrics\<close> of \<open>src/sparkplug/client/publish.rs\<close>. The lemmas state
  what reaches the payload: the name, the value beside the datatype that names
  it, the instant and the count.
\<close>

datatype MetricValue =
    MetricFloat f64
  | MetricString string
  | MetricBool bool
  | MetricInt u64

fun to_proto :: "MetricValue \<Rightarrow> MetricVariant \<times> DataType" where
  "to_proto (MetricFloat v) = (DoubleValue v, DT_Double)"
| "to_proto (MetricString v) = (StringValue v, DT_String)"
| "to_proto (MetricBool v) = (BooleanValue v, DT_Boolean)"
| "to_proto (MetricInt v) = (LongValue v, DT_UInt64)"

definition create_metric :: "string \<Rightarrow> MetricValue \<Rightarrow> Timestamp \<Rightarrow> Metric" where
  "create_metric name v timestamp =
     (let (proto_value, d) = to_proto v
      in Metric (Some name) None (Some (millis timestamp)) (Some (code d))
           None None None None None (Some proto_value))"

definition create_payload :: "Metric list \<Rightarrow> Timestamp \<Rightarrow> u8 \<Rightarrow> Payload" where
  "create_payload metrics timestamp seq =
     \<lparr>payload_timestamp = Some (millis timestamp), payload_metrics = metrics,
      payload_seq = Some (ucast seq), payload_uuid = None, payload_body = None\<rparr>"

definition create_birth_certificate :: "Timestamp \<Rightarrow> u8 \<Rightarrow> Payload" where
  "create_birth_certificate timestamp seq =
     (let metric = create_metric ''Node Control/Rebirth'' (MetricFloat 0) timestamp
      in \<lparr>payload_timestamp = Some (millis timestamp), payload_metrics = [metric],
          payload_seq = Some (ucast seq), payload_uuid = None, payload_body = None\<rparr>)"

definition create_device_birth_certificate :: "Timestamp \<Rightarrow> u8 \<Rightarrow> Payload" where
  "create_device_birth_certificate timestamp seq =
     (let metric = create_metric ''Device Control/Rebirth'' (MetricFloat 0) timestamp
      in \<lparr>payload_timestamp = Some (millis timestamp), payload_metrics = [metric],
          payload_seq = Some (ucast seq), payload_uuid = None, payload_body = None\<rparr>)"

definition proto_metrics :: "(string \<times> MetricValue \<times> u64) list \<Rightarrow> Metric list" where
  "proto_metrics metrics = map (\<lambda>(name, v, ts). create_metric name v (Timestamp ts)) metrics"

text \<open>The value a metric variant stands for, given the datatype beside it.\<close>

definition of_proto :: "MetricVariant \<Rightarrow> DataType \<Rightarrow> MetricValue option" where
  "of_proto p d =
     (case p of
        DoubleValue v \<Rightarrow> (if d = DT_Double then Some (MetricFloat v) else None)
      | StringValue v \<Rightarrow> (if d = DT_String then Some (MetricString v) else None)
      | BooleanValue v \<Rightarrow> (if d = DT_Boolean then Some (MetricBool v) else None)
      | LongValue v \<Rightarrow> (if d = DT_UInt64 then Some (MetricInt v) else None)
      | _ \<Rightarrow> None)"

text \<open>
  A host application that holds a metric on the wire reads its value back from
  the variant and from the datatype code: the reading side of \<open>create_metric\<close>.
\<close>

definition metric_reading :: "Metric \<Rightarrow> (string \<times> MetricValue \<times> Timestamp) option" where
  "metric_reading m =
     (case (metric_name m, metric_value m, metric_datatype m, metric_timestamp m) of
        (Some name, Some v, Some c, Some ts) \<Rightarrow>
          (case from_code c of
             None \<Rightarrow> None
           | Some d \<Rightarrow> map_option (\<lambda>value. (name, value, Timestamp ts)) (of_proto v d))
      | _ \<Rightarrow> None)"

lemma of_proto_to_proto: "to_proto v = (p, d) \<Longrightarrow> of_proto p d = Some v"
  by (cases v) (auto simp: of_proto_def)

lemma metric_reading_create: "metric_reading (create_metric name v at) = Some (name, v, at)"
  by (cases v; cases at) (simp_all add: metric_reading_def create_metric_def from_code_def of_proto_def)

lemma payload_seq_simps [simp]:
  "payload_seq (create_payload ms at s) = Some (ucast s)"
  "payload_seq (create_birth_certificate at s) = Some (ucast s)"
  "payload_seq (create_device_birth_certificate at s) = Some (ucast s)"
  by (simp_all add: create_payload_def create_birth_certificate_def
      create_device_birth_certificate_def)

lemma proto_metrics_readings:
  "map metric_reading (proto_metrics ms) = map (\<lambda>(name, v, ts). Some (name, v, Timestamp ts)) ms"
  by (auto simp: proto_metrics_def metric_reading_create)

text \<open>A count holds one byte, so the 64-bit field carries it without loss.\<close>

lemma ucast_seq_inject [simp]: "(ucast (a :: u8) :: u64) = ucast b \<longleftrightarrow> a = b"
proof
  assume "(ucast a :: u64) = ucast b"
  then have "(ucast (ucast a :: u64) :: u8) = ucast (ucast b :: u64)" by simp
  then show "a = b" by (simp add: ucast_up_ucast_id is_up)
qed simp


section \<open>Properties\<close>

text \<open>
  Metrics are readable: from the payload of a batch, a reader gets back
  every name, value and instant in the order the caller gave them, the datatype
  code beside a value being the one that names it; and the payload carries the
  instant and the count of the message.
\<close>

theorem batch_metrics_readable:
  "map metric_reading (payload_metrics (create_payload (proto_metrics ms) at s)) =
     map (\<lambda>(name, v, ts). Some (name, v, Timestamp ts)) ms \<and>
   payload_timestamp (create_payload (proto_metrics ms) at s) = Some (millis at) \<and>
   (payload_seq (create_payload (proto_metrics ms) at s) = Some (ucast n) \<longleftrightarrow> n = s)"
  using proto_metrics_readings [of ms] by (auto simp: create_payload_def)

end
