(* ===== verification/Publish.thy ===== *)
theory Publish
  imports Client Payload_Helpers
begin

text \<open>
  The publish paths of \<open>src/sparkplug/client/publish.rs\<close>: every call, from the
  draw of its number to the end of its reservation.

  A call hands its message to \<open>AsyncClient::publish\<close> and waits. The wait ends in
  one of three ways: the client takes the message, it refuses it with an error
  \<open>'x\<close>, or the caller cancels and the future is dropped. That end is the
  argument \<open>answer\<close>; a cancelled call gives its caller nothing, which is the
  result \<open>None\<close>. \<open>meanwhile\<close> is what the event loop and other tasks do to the
  delivery tracker during the wait. \<open>prost\<close>'s \<open>encode_to_vec\<close> is the argument
  \<open>encode\<close>. The functions here follow one call; the theory \<open>Publish_Machine\<close>
  interleaves the parts of many calls.
\<close>

datatype 'x client_answer = Taken | RefusedBy 'x | Cancelled

type_synonym 'x outcome = "('x SparkplugError + unit) option"

section \<open>Counting around one publish\<close>

text \<open>
  \<open>record_around_publish\<close> in its two halves, before and after the wait, and
  whole; then the choice \<open>publish_with_options\<close> makes.
\<close>

definition count_publish :: "WireOptions \<Rightarrow> State \<Rightarrow> PublishInFlight option \<times> State" where
  "count_publish options st =
     (if tracked options
      then (let (guard, st') = publish_in_flight st in (Some guard, st'))
      else (None, st))"

definition settle_publish ::
    "PublishInFlight option \<Rightarrow> 'x client_answer \<Rightarrow> State \<Rightarrow> 'x outcome \<times> State" where
  "settle_publish in_flight answer st =
     (case answer of
        Taken \<Rightarrow> (Some (Inr ()),
          case in_flight of Some guard \<Rightarrow> keep_in_flight guard st | None \<Rightarrow> st)
      | RefusedBy e \<Rightarrow> (Some (Inl (Publish e)),
          case in_flight of Some guard \<Rightarrow> drop_in_flight guard st | None \<Rightarrow> st)
      | Cancelled \<Rightarrow> (None,
          case in_flight of Some guard \<Rightarrow> drop_in_flight guard st | None \<Rightarrow> st))"

definition record_around_publish ::
    "(State \<Rightarrow> State) \<Rightarrow> 'x client_answer \<Rightarrow> State \<Rightarrow> 'x outcome \<times> State" where
  "record_around_publish meanwhile answer st =
     (let (in_flight, st1) = publish_in_flight st
      in settle_publish (Some in_flight) answer (meanwhile st1))"

definition publish_with_options ::
    "WireOptions \<Rightarrow> (State \<Rightarrow> State) \<Rightarrow> 'x client_answer \<Rightarrow> State \<Rightarrow> 'x outcome \<times> State" where
  "publish_with_options options meanwhile answer st =
     (case tracked options of
        True \<Rightarrow> record_around_publish meanwhile answer st
      | False \<Rightarrow> settle_publish None answer (meanwhile st))"

lemma publish_with_options_halves:
  "publish_with_options options meanwhile answer st =
     (let (in_flight, st1) = count_publish options st
      in settle_publish in_flight answer (meanwhile st1))"
  by (simp add: publish_with_options_def record_around_publish_def count_publish_def Let_def
      split_beta split: bool.split)


section \<open>One message\<close>

definition message_request :: "client \<Rightarrow> SparkplugTopic \<Rightarrow> u8 list \<Rightarrow> request" where
  "message_request c topic payload =
     (let options = wire_options (role c) (topic_message_type topic)
      in \<lparr>req_topic = to_string topic, req_qos = qos options, req_retain = retain options,
          req_payload = payload\<rparr>)"

definition publish_message ::
    "SparkplugTopic \<Rightarrow> u8 list \<Rightarrow> (State \<Rightarrow> State) \<Rightarrow> 'x client_answer \<Rightarrow> client \<Rightarrow>
     'x outcome \<times> client" where
  "publish_message topic payload meanwhile answer c =
     (let options = wire_options (role c) (topic_message_type topic);
          (result, st) = publish_with_options options meanwhile answer (cl_delivery c);
          wire = (case answer of Taken \<Rightarrow> cl_wire c @ [message_request c topic payload]
                  | _ \<Rightarrow> cl_wire c)
      in (result, c\<lparr>cl_delivery := st, cl_wire := wire\<rparr>))"

definition tracks_delivery :: "client \<Rightarrow> bool" where
  "tracks_delivery c = tracked (wire_options (role c) DDATA)"

definition no_edge_node_text :: "SparkplugTopic \<Rightarrow> string" where
  "no_edge_node_text topic = to_string topic @ '' names no edge node, so it holds no seq count''"

text \<open>
  \<open>reserve_seq\<close> for the call \<open>party\<close>. Where the gate is held, the call waits,
  which is the answer \<open>Inr None\<close>.
\<close>

definition reserve_seq ::
    "nat \<Rightarrow> SparkplugTopic \<Rightarrow> client \<Rightarrow> ('x SparkplugError + SeqReservation option) \<times> client" where
  "reserve_seq party topic c =
     (case (group_id topic, node_id topic) of
        (Some g, Some n) \<Rightarrow>
          (let (r, m) =
             (case topic_message_type topic of
                NBIRTH \<Rightarrow> reserve_reset party g n (cl_seq c)
              | _ \<Rightarrow> reserve party g n (cl_seq c))
           in (Inr r, c\<lparr>cl_seq := m\<rparr>))
      | _ \<Rightarrow> (Inl (InvalidTopic (no_edge_node_text topic)), c))"

text \<open>How a reservation ends: it commits after a success, and drops otherwise.\<close>

definition end_reservation :: "'x outcome \<Rightarrow> SeqReservation \<Rightarrow> client \<Rightarrow> client" where
  "end_reservation result r c =
     (case result of
        Some (Inr _) \<Rightarrow> c\<lparr>cl_seq := commit r (cl_seq c)\<rparr>
      | _ \<Rightarrow> c\<lparr>cl_seq := drop_reservation r (cl_seq c)\<rparr>)"

definition publish_metrics_on ::
    "(Payload \<Rightarrow> u8 list) \<Rightarrow> nat \<Rightarrow> SparkplugTopic \<Rightarrow> Metric list \<Rightarrow> Timestamp \<Rightarrow>
     (State \<Rightarrow> State) \<Rightarrow> 'x client_answer \<Rightarrow> client \<Rightarrow> 'x outcome \<times> client" where
  "publish_metrics_on encode party topic metrics at meanwhile answer c =
     (case reserve_seq party topic c of
        (Inl e, c1) \<Rightarrow> (Some (Inl e), c1)
      | (Inr None, c1) \<Rightarrow> (None, c1)
      | (Inr (Some r), c1) \<Rightarrow>
          (let payload = create_payload metrics at (deref r (cl_seq c1));
               (result, c2) = publish_message topic (encode payload) meanwhile answer c1
           in (result, end_reservation result r c2)))"

definition ddata_topic ::
    "client \<Rightarrow> string \<Rightarrow> string \<Rightarrow> string \<Rightarrow> 'x SparkplugError + SparkplugTopic" where
  "ddata_topic c gid nid did =
     try_then (GroupId_new gid) (\<lambda>g.
     try_then (EdgeNodeId_new nid) (\<lambda>n.
     try_then (DeviceId_new did) (\<lambda>d.
     Inr (ddata (cl_namespace c) g n d))))"


section \<open>The public calls\<close>

definition publish_metric ::
    "(Payload \<Rightarrow> u8 list) \<Rightarrow> nat \<Rightarrow> string \<Rightarrow> string \<Rightarrow> string \<Rightarrow> string \<Rightarrow> MetricValue \<Rightarrow> u64 \<Rightarrow>
     (State \<Rightarrow> State) \<Rightarrow> 'x client_answer \<Rightarrow> client \<Rightarrow> 'x outcome \<times> client" where
  "publish_metric encode party gid nid did name v ts meanwhile answer c =
     (let metric = create_metric name v (Timestamp ts)
      in case ddata_topic c gid nid did of
           Inl e \<Rightarrow> (Some (Inl e), c)
         | Inr topic \<Rightarrow>
             publish_metrics_on encode party topic [metric] (Timestamp ts) meanwhile answer c)"

definition publish_metrics ::
    "(Payload \<Rightarrow> u8 list) \<Rightarrow> nat \<Rightarrow> int \<Rightarrow> string \<Rightarrow> string \<Rightarrow> string \<Rightarrow>
     (string \<times> MetricValue \<times> u64) list \<Rightarrow>
     (State \<Rightarrow> State) \<Rightarrow> 'x client_answer \<Rightarrow> client \<Rightarrow> 'x outcome \<times> client" where
  "publish_metrics encode party clock gid nid did metrics meanwhile answer c =
     (case ddata_topic c gid nid did of
        Inl e \<Rightarrow> (Some (Inl e), c)
      | Inr topic \<Rightarrow>
          publish_metrics_on encode party topic (proto_metrics metrics) (now clock) meanwhile answer c)"

definition publish_metric_to ::
    "(Payload \<Rightarrow> u8 list) \<Rightarrow> nat \<Rightarrow> SparkplugTopic \<Rightarrow> string \<Rightarrow> MetricValue \<Rightarrow> u64 \<Rightarrow>
     (State \<Rightarrow> State) \<Rightarrow> 'x client_answer \<Rightarrow> client \<Rightarrow> 'x outcome \<times> client" where
  "publish_metric_to encode party topic name v ts meanwhile answer c =
     (let metric = create_metric name v (Timestamp ts)
      in publish_metrics_on encode party topic [metric] (Timestamp ts) meanwhile answer c)"

definition publish_metrics_to ::
    "(Payload \<Rightarrow> u8 list) \<Rightarrow> nat \<Rightarrow> int \<Rightarrow> SparkplugTopic \<Rightarrow>
     (string \<times> MetricValue \<times> u64) list \<Rightarrow>
     (State \<Rightarrow> State) \<Rightarrow> 'x client_answer \<Rightarrow> client \<Rightarrow> 'x outcome \<times> client" where
  "publish_metrics_to encode party clock topic metrics meanwhile answer c =
     publish_metrics_on encode party topic (proto_metrics metrics) (now clock) meanwhile answer c"

text \<open>
  \<open>publish_birth\<close>: one reservation over the NBIRTH and the DBIRTH. \<open>answer1\<close>
  ends the wait of the first message, \<open>answer2\<close> that of the second.
\<close>

definition publish_birth ::
    "(Payload \<Rightarrow> u8 list) \<Rightarrow> nat \<Rightarrow> int \<Rightarrow> DeviceId \<Rightarrow>
     (State \<Rightarrow> State) \<Rightarrow> 'x client_answer \<Rightarrow> (State \<Rightarrow> State) \<Rightarrow> 'x client_answer \<Rightarrow> client \<Rightarrow>
     'x outcome \<times> client" where
  "publish_birth encode party clock device meanwhile1 answer1 meanwhile2 answer2 c =
     (case edge_node c of
        None \<Rightarrow> (Some (Inl NotAnEdgeNode), c)
      | Some en \<Rightarrow>
          (let at = now clock;
               nbirth_topic = nbirth (cl_namespace c) (en_group en) (en_edge_node_id en)
           in case reserve_seq party nbirth_topic c of
                (Inl e, c1) \<Rightarrow> (Some (Inl e), c1)
              | (Inr None, c1) \<Rightarrow> (None, c1)
              | (Inr (Some r), c1) \<Rightarrow>
                  (let nbirth_payload = create_birth_certificate at (deref r (cl_seq c1));
                       (result1, c2) =
                         publish_message nbirth_topic (encode nbirth_payload) meanwhile1 answer1 c1
                   in case result1 of
                        Some (Inr _) \<Rightarrow>
                          (let dbirth_topic =
                                 dbirth (cl_namespace c) (en_group en) (en_edge_node_id en) device;
                               (s, m) = next_seq r (cl_seq c2);
                               c3 = c2\<lparr>cl_seq := m\<rparr>;
                               dbirth_payload = create_device_birth_certificate at s;
                               (result2, c4) =
                                 publish_message dbirth_topic (encode dbirth_payload)
                                   meanwhile2 answer2 c3
                           in (result2, end_reservation result2 r c4))
                      | _ \<Rightarrow> (result1, end_reservation result1 r c2))))"


section \<open>What a call leaves behind\<close>

text \<open>
  The result of a call by the way its wait ended, the step its topic applies to
  the count, and the key of the count its topic names.
\<close>

fun answer_outcome :: "'x client_answer \<Rightarrow> 'x outcome" where
  "answer_outcome Taken = Some (Inr ())"
| "answer_outcome (RefusedBy e) = Some (Inl (Publish e))"
| "answer_outcome Cancelled = None"

definition seq_step :: "MessageType \<Rightarrow> u8 \<Rightarrow> u8" where
  "seq_step mt = (if mt = NBIRTH then (\<lambda>_. 0) else (\<lambda>current. current + 1))"

definition topic_key :: "SparkplugTopic \<Rightarrow> string option" where
  "topic_key t =
     (case (group_id t, node_id t) of (Some g, Some n) \<Rightarrow> Some (key_of g n) | _ \<Rightarrow> None)"

lemma topic_key_simps [simp]:
  "topic_key (node_topic ns mt g n) = Some (key_of g n)"
  "topic_key (device_topic ns mt g n d) = Some (key_of g n)"
  "topic_key (state ns h) = None"
  by (simp_all add: topic_key_def node_topic_def device_topic_def state_def group_id_def node_id_def)

lemma topic_key_None_iff:
  assumes "well_formed t"
  shows "topic_key t = None \<longleftrightarrow> topic_message_type t = STATE"
  using assms
  by (cases rule: well_formed_cases) (auto simp: topic_key_def group_id_def node_id_def)

lemma seq_step_simps [simp]:
  "seq_step NBIRTH c = 0"
  "mt \<noteq> NBIRTH \<Longrightarrow> seq_step mt c = c + 1"
  by (simp_all add: seq_step_def)

lemma case_not_NBIRTH: "mt \<noteq> NBIRTH \<Longrightarrow> (case mt of NBIRTH \<Rightarrow> a | _ \<Rightarrow> b) = b"
  by (cases mt) simp_all

lemma reserve_seq_eq:
  "reserve_seq party topic c =
     (case topic_key topic of
        None \<Rightarrow> (Inl (InvalidTopic (no_edge_node_text topic)), c)
      | Some k \<Rightarrow>
          (let (r, m) = draw_key party k (seq_step (topic_message_type topic)) (cl_seq c)
           in (Inr r, c\<lparr>cl_seq := m\<rparr>)))"
proof (cases "topic_message_type topic = NBIRTH")
  case True
  then show ?thesis
    by (simp add: reserve_seq_def topic_key_def reserve_draw_key seq_step_def split: option.split)
next
  case False
  then show ?thesis
    by (simp add: reserve_seq_def topic_key_def reserve_draw_key seq_step_def case_not_NBIRTH
        split: option.split)
qed

lemma reserve_seq_Some:
  assumes "reserve_seq party topic c = (Inr (Some r), c1)"
  obtains k m1 where "topic_key topic = Some k"
    "draw_key party k (seq_step (topic_message_type topic)) (cl_seq c) = (Some r, m1)"
    "c1 = c\<lparr>cl_seq := m1\<rparr>"
    "deref r m1 = seq_step (topic_message_type topic) (count_at (cl_seq c) k)"
  using assms sc.draw_Some [of party _ "seq_step (topic_message_type topic)" "cl_seq c" r]
  by (auto simp: reserve_seq_eq deref_def Let_def split: option.splits prod.splits)

lemma reserve_seq_free:
  assumes "topic_key topic = Some k" and "holder_at (cl_seq c) k = None"
  obtains r c1 where "reserve_seq party topic c = (Inr (Some r), c1)"
proof -
  obtain m' where "draw_key party k (seq_step (topic_message_type topic)) (cl_seq c) =
      (Some \<lparr>res_key = k, res_party = party, restore_to = Some (count_at (cl_seq c) k)\<rparr>, m')"
    using assms(2) by (rule draw_key_free)
  with assms(1) that show thesis by (simp add: reserve_seq_eq)
qed

lemma settle_publish_fst: "fst (settle_publish guard answer st) = answer_outcome answer"
  by (cases answer) (simp_all add: settle_publish_def)

lemma publish_with_options_fst:
  "fst (publish_with_options options meanwhile answer st) = answer_outcome answer"
  by (simp add: publish_with_options_halves settle_publish_fst split_beta Let_def)

lemma publish_message_eq:
  "publish_message topic payload meanwhile answer c =
     (answer_outcome answer,
      c\<lparr>cl_delivery := snd (publish_with_options (wire_options (role c) (topic_message_type topic))
                         meanwhile answer (cl_delivery c)),
        cl_wire := cl_wire c @
          (case answer of Taken \<Rightarrow> [message_request c topic payload] | _ \<Rightarrow> [])\<rparr>)"
  by (cases answer) (simp_all add: publish_message_def split_beta Let_def publish_with_options_fst)

lemma end_reservation_eq:
  "end_reservation (answer_outcome answer) r c =
     c\<lparr>cl_seq := (case answer of Taken \<Rightarrow> commit r (cl_seq c) | _ \<Rightarrow> drop_reservation r (cl_seq c))\<rparr>"
  by (cases answer) (simp_all add: end_reservation_def)


text \<open>
  One message under one reservation: the number it carries, and what the call
  leaves behind by the way its wait ends.
\<close>

definition number_for :: "client \<Rightarrow> SparkplugTopic \<Rightarrow> string \<Rightarrow> u8" where
  "number_for c topic k = seq_step (topic_message_type topic) (count_at (cl_seq c) k)"

definition delivery_after ::
    "client \<Rightarrow> SparkplugTopic \<Rightarrow> (State \<Rightarrow> State) \<Rightarrow> 'x client_answer \<Rightarrow> State" where
  "delivery_after c topic meanwhile answer =
     snd (publish_with_options (wire_options (role c) (topic_message_type topic))
       meanwhile answer (cl_delivery c))"

lemma role_simps [simp]:
  "role (c\<lparr>cl_seq := m\<rparr>) = role c"
  "role (c\<lparr>cl_delivery := st\<rparr>) = role c"
  "role (c\<lparr>cl_wire := w\<rparr>) = role c"
  by (simp_all add: role_def)

lemma message_request_simps [simp]:
  "message_request (c\<lparr>cl_seq := m\<rparr>) = message_request c"
  "message_request (c\<lparr>cl_delivery := st\<rparr>) = message_request c"
  "message_request (c\<lparr>cl_wire := w\<rparr>) = message_request c"
  by (simp_all add: message_request_def fun_eq_iff)

lemma publish_metrics_on_free:
  fixes answer :: "'x client_answer"
  assumes key: "topic_key topic = Some k" and free: "holder_at (cl_seq c) k = None"
    and call: "publish_metrics_on encode party topic ms at meanwhile answer c = (result, c')"
  shows "result = answer_outcome answer"
    and "cl_wire c' = cl_wire c @
           (case answer of
              Taken \<Rightarrow> [message_request c topic (encode (create_payload ms at (number_for c topic k)))]
            | _ \<Rightarrow> [])"
    and "count_at (cl_seq c') =
           (case answer of
              Taken \<Rightarrow> (count_at (cl_seq c))(k := number_for c topic k)
            | _ \<Rightarrow> count_at (cl_seq c))"
    and "holder_at (cl_seq c') = holder_at (cl_seq c)"
    and "cl_delivery c' = delivery_after c topic meanwhile answer"
proof -
  obtain r c1 where
    rs: "reserve_seq party topic c = (Inr (Some r) :: 'x SparkplugError + _, c1)"
    using reserve_seq_free [OF key free] by blast
  then obtain m1 where draw:
      "draw_key party k (seq_step (topic_message_type topic)) (cl_seq c) = (Some r, m1)"
    and c1: "c1 = c\<lparr>cl_seq := m1\<rparr>" and num: "deref r m1 = number_for c topic k"
    using key by (elim reserve_seq_Some) (simp add: number_for_def)
  have eqs: "result = answer_outcome answer \<and>
      c' = c\<lparr>cl_seq := (case answer of Taken \<Rightarrow> commit r m1 | _ \<Rightarrow> drop_reservation r m1),
              cl_delivery := delivery_after c topic meanwhile answer,
              cl_wire := cl_wire c @ (case answer of
                Taken \<Rightarrow> [message_request c topic (encode (create_payload ms at (number_for c topic k)))]
              | _ \<Rightarrow> [])\<rparr>"
    using call rs c1 num
    by (cases answer)
       (auto simp: publish_metrics_on_def publish_message_eq end_reservation_def
        delivery_after_def Let_def)
  then have outcome: "result = answer_outcome answer" by (rule conjunct1)
  from eqs have c': "c' = c\<lparr>cl_seq := (case answer of Taken \<Rightarrow> commit r m1 | _ \<Rightarrow> drop_reservation r m1),
              cl_delivery := delivery_after c topic meanwhile answer,
              cl_wire := cl_wire c @ (case answer of
                Taken \<Rightarrow> [message_request c topic (encode (create_payload ms at (number_for c topic k)))]
              | _ \<Rightarrow> [])\<rparr>" by (rule conjunct2)
  show "result = answer_outcome answer" by (fact outcome)
  show "cl_wire c' = cl_wire c @
           (case answer of
              Taken \<Rightarrow> [message_request c topic (encode (create_payload ms at (number_for c topic k)))]
            | _ \<Rightarrow> [])"
    "cl_delivery c' = delivery_after c topic meanwhile answer"
    by (simp_all add: c')
  show "count_at (cl_seq c') =
           (case answer of
              Taken \<Rightarrow> (count_at (cl_seq c))(k := number_for c topic k)
            | _ \<Rightarrow> count_at (cl_seq c))"
    "holder_at (cl_seq c') = holder_at (cl_seq c)"
    using sc.draw_keep [OF draw] sc.draw_release [OF draw]
    by (simp_all add: c' number_for_def split: client_answer.split)
qed

lemma publish_metrics_on_held:
  assumes "topic_key topic = Some k" and "holder_at (cl_seq c) k = Some q"
    and "publish_metrics_on encode party topic ms at meanwhile answer c = (result, c')"
  shows "result = None" "cl_wire c' = cl_wire c" "cl_delivery c' = cl_delivery c"
    "count_at (cl_seq c') = count_at (cl_seq c)" "holder_at (cl_seq c') = holder_at (cl_seq c)"
  using assms by (auto simp: publish_metrics_on_def reserve_seq_eq draw_key_def)

lemma publish_metrics_on_no_key:
  assumes "topic_key topic = None"
  shows "publish_metrics_on encode party topic ms at meanwhile answer c =
    (Some (Inl (InvalidTopic (no_edge_node_text topic))), c)"
  using assms by (simp add: publish_metrics_on_def reserve_seq_eq)

text \<open>The two messages of a birth under one reservation.\<close>

definition birth_key :: "EdgeNode \<Rightarrow> string" where
  "birth_key en = key_of (en_group en) (en_edge_node_id en)"

definition nbirth_request :: "(Payload \<Rightarrow> u8 list) \<Rightarrow> int \<Rightarrow> client \<Rightarrow> EdgeNode \<Rightarrow> request" where
  "nbirth_request encode clock c en =
     message_request c (nbirth (cl_namespace c) (en_group en) (en_edge_node_id en))
       (encode (create_birth_certificate (now clock) 0))"

definition dbirth_request ::
    "(Payload \<Rightarrow> u8 list) \<Rightarrow> int \<Rightarrow> client \<Rightarrow> EdgeNode \<Rightarrow> DeviceId \<Rightarrow> request" where
  "dbirth_request encode clock c en device =
     message_request c (dbirth (cl_namespace c) (en_group en) (en_edge_node_id en) device)
       (encode (create_device_birth_certificate (now clock) 1))"

lemma publish_birth_free:
  fixes answer1 answer2 :: "'x client_answer"
  assumes en: "edge_node c = Some en" and free: "holder_at (cl_seq c) (birth_key en) = None"
    and call: "publish_birth encode party clock device mw1 answer1 mw2 answer2 c = (result, c')"
  shows "result = (case answer1 of Taken \<Rightarrow> answer_outcome answer2 | _ \<Rightarrow> answer_outcome answer1)"
    and "cl_wire c' = cl_wire c @
           (case answer1 of
              Taken \<Rightarrow> nbirth_request encode clock c en #
                (case answer2 of Taken \<Rightarrow> [dbirth_request encode clock c en device] | _ \<Rightarrow> [])
            | _ \<Rightarrow> [])"
    and "count_at (cl_seq c') =
           (case (answer1, answer2) of
              (Taken, Taken) \<Rightarrow> (count_at (cl_seq c))(birth_key en := 1)
            | _ \<Rightarrow> count_at (cl_seq c))"
    and "holder_at (cl_seq c') = holder_at (cl_seq c)"
proof -
  let ?t = "nbirth (cl_namespace c) (en_group en) (en_edge_node_id en)"
  have key: "topic_key ?t = Some (birth_key en)" and mt: "topic_message_type ?t = NBIRTH"
    by (simp_all add: nbirth_def birth_key_def)
  obtain r c1 where
    rs: "reserve_seq party ?t c = (Inr (Some r) :: 'x SparkplugError + _, c1)"
    using reserve_seq_free [OF key free] by blast
  then obtain m1 where draw: "draw_key party (birth_key en) (\<lambda>_. 0) (cl_seq c) = (Some r, m1)"
    and c1: "c1 = c\<lparr>cl_seq := m1\<rparr>" and num: "deref r m1 = 0"
    using key mt by (elim reserve_seq_Some) (simp add: seq_step_def)
  obtain s m2 where adv: "next_seq r m1 = (s, m2)" by (cases "next_seq r m1")
  then have s: "s = 1" using sc.draw_advance_keep(1) [OF draw adv]
    sc.draw_advance_release(1) [OF draw adv] by simp
  have birth: "publish_birth encode party clock device mw1 answer1 mw2 answer2 c =
     (case publish_message ?t (encode (create_birth_certificate (now clock) 0)) mw1 answer1
             (c\<lparr>cl_seq := m1\<rparr>) of
        (result1, c2) \<Rightarrow>
          (case result1 of
             Some (Inr _) \<Rightarrow>
               (case publish_message (dbirth (cl_namespace c) (en_group en) (en_edge_node_id en) device)
                       (encode (create_device_birth_certificate (now clock) 1)) mw2 answer2
                       (c2\<lparr>cl_seq := m2\<rparr>) of
                  (result2, c4) \<Rightarrow> (result2, end_reservation result2 r c4))
           | _ \<Rightarrow> (result1, end_reservation result1 r c2)))"
    unfolding publish_birth_def Let_def
    using en rs c1 num adv s by (simp add: publish_message_eq split: client_answer.split)
  have res: "result = fst (publish_birth encode party clock device mw1 answer1 mw2 answer2 c)"
    "c' = snd (publish_birth encode party clock device mw1 answer1 mw2 answer2 c)"
    using call by simp_all
  have fields: "result = (case answer1 of Taken \<Rightarrow> answer_outcome answer2 | _ \<Rightarrow> answer_outcome answer1) \<and>
    cl_wire c' = cl_wire c @
           (case answer1 of
              Taken \<Rightarrow> nbirth_request encode clock c en #
                (case answer2 of Taken \<Rightarrow> [dbirth_request encode clock c en device] | _ \<Rightarrow> [])
            | _ \<Rightarrow> []) \<and>
    cl_seq c' = (case (answer1, answer2) of (Taken, Taken) \<Rightarrow> commit r m2
        | (Taken, _) \<Rightarrow> drop_reservation r m2 | _ \<Rightarrow> drop_reservation r m1)"
    unfolding res birth nbirth_request_def dbirth_request_def
    by (cases answer1; cases answer2) (simp_all add: end_reservation_def publish_message_eq)
  show "result = (case answer1 of Taken \<Rightarrow> answer_outcome answer2 | _ \<Rightarrow> answer_outcome answer1)"
    "cl_wire c' = cl_wire c @
           (case answer1 of
              Taken \<Rightarrow> nbirth_request encode clock c en #
                (case answer2 of Taken \<Rightarrow> [dbirth_request encode clock c en device] | _ \<Rightarrow> [])
            | _ \<Rightarrow> [])"
    using fields by blast+
  show "count_at (cl_seq c') =
           (case (answer1, answer2) of
              (Taken, Taken) \<Rightarrow> (count_at (cl_seq c))(birth_key en := 1)
            | _ \<Rightarrow> count_at (cl_seq c))"
    "holder_at (cl_seq c') = holder_at (cl_seq c)"
    using sc.draw_advance_keep [OF draw adv] sc.draw_advance_release [OF draw adv]
      sc.draw_release [OF draw]
    by (simp_all add: fields split: client_answer.split)
qed

lemma publish_birth_publisher:
  assumes "edge_node c = None"
  shows "publish_birth encode party clock device mw1 answer1 mw2 answer2 c =
    (Some (Inl NotAnEdgeNode), c)"
  using assms by (simp add: publish_birth_def)

text \<open>No call changes who the client is.\<close>

lemma publish_metrics_on_keeps:
  assumes "publish_metrics_on encode party topic ms at meanwhile answer c = (result, c')"
  shows "edge_node c' = edge_node c" "cl_namespace c' = cl_namespace c" "cl_identity c' = cl_identity c"
  using assms
  by (cases answer; auto simp: publish_metrics_on_def reserve_seq_eq publish_message_eq end_reservation_def
      edge_node_def Let_def split: option.splits prod.splits sum.splits)+

lemma publish_birth_keeps:
  assumes "publish_birth encode party clock device mw1 answer1 mw2 answer2 c = (result, c')"
  shows "edge_node c' = edge_node c" "cl_namespace c' = cl_namespace c" "cl_identity c' = cl_identity c"
  using assms
  by (cases answer1; cases answer2; auto simp: publish_birth_def reserve_seq_eq publish_message_eq
      end_reservation_def edge_node_def Let_def split: option.splits prod.splits sum.splits)+


section \<open>Properties\<close>

text \<open>
  C16. A publish that the client takes: exactly one request reaches the wire, on
  the text of the topic, with the QoS and the retain flag of the role and the
  message type, carrying the metric under the instant the caller gave and the
  next number of the edge node (0 for an NBIRTH); the count of that edge node
  alone moves to this number, and every gate is as it was.
\<close>

theorem publish_metric_to_effect:
  assumes "topic_key topic = Some k" and "holder_at (cl_seq c) k = None"
  defines "s \<equiv> (if topic_message_type topic = NBIRTH then 0 else count_at (cl_seq c) k + 1)"
  shows "\<exists>c'. publish_metric_to encode party topic name v ts meanwhile Taken c =
      (Some (Inr ()) :: 'x outcome, c') \<and>
    cl_wire c' = cl_wire c @
      [\<lparr>req_topic = to_string topic,
        req_qos = qos (wire_options (role c) (topic_message_type topic)),
        req_retain = (topic_message_type topic = STATE),
        req_payload = encode (create_payload [create_metric name v (Timestamp ts)] (Timestamp ts) s)\<rparr>] \<and>
    count_at (cl_seq c') = (count_at (cl_seq c))(k := s) \<and>
    holder_at (cl_seq c') = holder_at (cl_seq c)"
proof -
  obtain result c' where call:
    "publish_metric_to encode party topic name v ts meanwhile (Taken :: 'x client_answer) c = (result, c')"
    by (cases "publish_metric_to encode party topic name v ts meanwhile (Taken :: 'x client_answer) c")
  then have "publish_metrics_on encode party topic [create_metric name v (Timestamp ts)] (Timestamp ts)
      meanwhile Taken c = (result, c')"
    by (simp add: publish_metric_to_def)
  note effect = publish_metrics_on_free [OF assms(1,2) this]
  have "number_for c topic k = s" by (simp add: number_for_def s_def)
  with effect call show ?thesis
    by (intro exI [of _ c']) (simp add: message_request_def spec_retain_iff)
qed

theorem publish_metric_to_effect_witness:
  "\<exists>c'. publish_metric_to (\<lambda>p. [ucast (the (payload_seq p))]) 0
       (ddata sparkplug_b (GroupId ''g'') (EdgeNodeId ''n'') (DeviceId ''d''))
       ''temp'' (MetricBool True) 7 id Taken (idle_client ''spBv1.0'' IdentityPublisher) =
       (Some (Inr ()) :: unit outcome, c') \<and>
     map req_payload (cl_wire c') = [[1]] \<and> map req_qos (cl_wire c') = [AtLeastOnce]"
  using publish_metric_to_effect
    [where 'x = unit and topic = "ddata sparkplug_b (GroupId ''g'') (EdgeNodeId ''n'') (DeviceId ''d'')"
      and k = "''g/n''" and c = "idle_client ''spBv1.0'' IdentityPublisher"
      and encode = "\<lambda>p. [ucast (the (payload_seq p))]" and party = 0 and name = "''temp''"
      and v = "MetricBool True" and ts = 7 and meanwhile = id]
  by (auto simp: idle_client_def ddata_def key_of_def role_def)

lemma delivery_after_not_taken:
  assumes "\<not> (answer = Taken)" and "unat (unacked (cl_delivery c)) < 2 ^ 32 - 1"
  shows "delivery_after c topic id answer = cl_delivery c"
proof -
  obtain guard st1 where "publish_in_flight (cl_delivery c) = (guard, st1)"
    by (cases "publish_in_flight (cl_delivery c)")
  with assms publish_then_drop [OF this assms(2)] show ?thesis
    by (cases answer)
       (auto simp: delivery_after_def publish_with_options_halves count_publish_def settle_publish_def
         Let_def)
qed

text \<open>
  C17. A publish for an edge node that the client does not take leaves no trace: refused, or
  cancelled before the client takes it, the wire, every count, every gate and the
  delivery tracker are as they were, if nothing else happened meanwhile, and the
  caller gets the refusal as its error, or nothing. The gate was free and the count
  of unacknowledged publishes short of the one that wraps. A publish cancelled in the
  very instant the client takes it reaches the broker; that is the step \<open>Steal\<close> of
  the theory \<open>Publish_Steps\<close>.
\<close>

theorem unanswered_publish_leaves_no_trace:
  assumes "topic_key topic = Some k" and "holder_at (cl_seq c) k = None"
    and "answer \<noteq> Taken" and "unat (unacked (cl_delivery c)) < 2 ^ 32 - 1"
    and "publish_metrics_to encode party clock topic ms id answer c = (result, c')"
  shows "result = (case answer of RefusedBy e \<Rightarrow> Some (Inl (Publish e)) | _ \<Rightarrow> None) \<and>
    cl_wire c' = cl_wire c \<and> count_at (cl_seq c') = count_at (cl_seq c) \<and>
    holder_at (cl_seq c') = holder_at (cl_seq c) \<and> cl_delivery c' = cl_delivery c"
proof -
  have "publish_metrics_on encode party topic (proto_metrics ms) (now clock) id answer c = (result, c')"
    using assms(5) by (simp add: publish_metrics_to_def)
  note effect = publish_metrics_on_free [OF assms(1,2) this]
  show ?thesis
    using effect assms(3) delivery_after_not_taken [OF assms(3,4)]
    by (cases answer) simp_all
qed

theorem unanswered_publish_leaves_no_trace_witness:
  "\<exists>c'. publish_metrics_to (\<lambda>_. []) 0 0
       (ddata sparkplug_b (GroupId ''g'') (EdgeNodeId ''n'') (DeviceId ''d''))
       [(''temp'', MetricBool True, 7)] id (RefusedBy ()) (idle_client ''spBv1.0'' IdentityPublisher) =
       (Some (Inl (Publish ())), c') \<and>
     cl_wire c' = [] \<and> cl_delivery c' = DeliveryTracker_new"
proof -
  let ?c = "idle_client ''spBv1.0'' IdentityPublisher"
  let ?t = "ddata sparkplug_b (GroupId ''g'') (EdgeNodeId ''n'') (DeviceId ''d'')"
  obtain result c' where call: "publish_metrics_to (\<lambda>_. []) 0 0 ?t [(''temp'', MetricBool True, 7)] id
      (RefusedBy ()) ?c = (result, c')"
    by (cases "publish_metrics_to (\<lambda>_. []) 0 0 ?t [(''temp'', MetricBool True, 7)] id (RefusedBy ()) ?c")
  with unanswered_publish_leaves_no_trace [where k = "''g/n''", OF _ _ _ _ call] show ?thesis
    by (simp add: idle_client_def ddata_def key_of_def DeliveryTracker_new_def)
qed

text \<open>
  C18. A birth that the client takes is a pair: the NBIRTH of the client's own
  edge node with number 0, then the DBIRTH of the device with number 1, side by
  side on the wire and under one instant, at QoS 0; the count of the edge node
  stands at 1 and no other count moved.
\<close>

theorem publish_birth_pair:
  assumes "edge_node c = Some en" and "holder_at (cl_seq c) (birth_key en) = None"
  shows "\<exists>c'. publish_birth encode party clock device mwn Taken mwd Taken c =
      (Some (Inr ()) :: 'x outcome, c') \<and>
    cl_wire c' = cl_wire c @
      [\<lparr>req_topic = to_string (nbirth (cl_namespace c) (en_group en) (en_edge_node_id en)),
        req_qos = AtMostOnce, req_retain = False,
        req_payload = encode (create_birth_certificate (now clock) 0)\<rparr>,
       \<lparr>req_topic = to_string (dbirth (cl_namespace c) (en_group en) (en_edge_node_id en) device),
        req_qos = AtMostOnce, req_retain = False,
        req_payload = encode (create_device_birth_certificate (now clock) 1)\<rparr>] \<and>
    count_at (cl_seq c') = (count_at (cl_seq c))(birth_key en := 1) \<and>
    holder_at (cl_seq c') = holder_at (cl_seq c)"
proof -
  obtain result c' where call:
    "publish_birth encode party clock device mwn (Taken :: 'x client_answer) mwd Taken c = (result, c')"
    by (cases "publish_birth encode party clock device mwn (Taken :: 'x client_answer) mwd Taken c")
  have "role c = RoleEdgeNode"
    using assms(1) edge_node_role [of c] by (cases "role c") auto
  with publish_birth_free [OF assms call] call show ?thesis
    by (intro exI [of _ c'])
       (simp add: nbirth_request_def dbirth_request_def message_request_def nbirth_def dbirth_def
         node_topic_def device_topic_def)
qed

theorem publish_birth_pair_witness:
  "\<exists>c'. publish_birth (\<lambda>p. [ucast (the (payload_seq p))]) 0 0 (DeviceId ''d'') id Taken id Taken
      (idle_client ''spBv1.0'' (IdentityEdgeNode \<lparr>owned_group = ''g'', owned_edge_node_id = ''n''\<rparr>)) =
      (Some (Inr ()) :: unit outcome, c') \<and>
    map req_payload (cl_wire c') = [[0], [1]]"
  using publish_birth_pair
    [where 'x = unit and c = "idle_client ''spBv1.0'' (IdentityEdgeNode \<lparr>owned_group = ''g'', owned_edge_node_id = ''n''\<rparr>)"
      and en = "EdgeNode_new (GroupId ''g'') (EdgeNodeId ''n'')"
      and encode = "\<lambda>p. [ucast (the (payload_seq p))]" and party = 0 and clock = 0
      and device = "DeviceId ''d''" and mwn = id and mwd = id]
  by (auto simp: idle_client_def edge_node_def of_owned_def EdgeNode_new_def)

text \<open>
  Text identifiers are checked before anything happens: \<open>publish_metric\<close>
  answers with the first identifier that fails, in the order group, edge node,
  device, and leaves the client as it was; with three usable identifiers it is
  \<open>publish_metric_to\<close> on their DDATA topic.
\<close>

theorem publish_metric_checks_ids:
  "publish_metric encode party gid nid did name v ts meanwhile answer c =
     (if \<not> is_usable_segment gid
      then (Some (Inl (InvalidTopic (rejected_segment ''group id'' gid))), c)
      else if \<not> is_usable_segment nid
      then (Some (Inl (InvalidTopic (rejected_segment ''edge node id'' nid))), c)
      else if \<not> is_usable_segment did
      then (Some (Inl (InvalidTopic (rejected_segment ''device id'' did))), c)
      else publish_metric_to encode party
             (ddata (cl_namespace c) (GroupId gid) (EdgeNodeId nid) (DeviceId did))
             name v ts meanwhile answer c)"
  by (simp add: publish_metric_def publish_metric_to_def ddata_topic_def GroupId_new_def
      EdgeNodeId_new_def DeviceId_new_def topic_id_new_def try_then_def)

text \<open>
  C19. The data of an edge node client is never counted: whatever the client
  answers, its tracker holds what the loop and other tasks made of it, so no
  flush waits for or reports the message, and \<open>tracks_delivery\<close> says so.
\<close>

theorem edge_node_data_untracked:
  assumes "edge_node c = Some en" and "topic_key topic = Some k" and "holder_at (cl_seq c) k = None"
    and "topic_message_type topic \<notin> {NDEATH, STATE}"
    and "publish_metrics_to encode party clock topic ms meanwhile answer c = (result, c')"
  shows "cl_delivery c' = meanwhile (cl_delivery c) \<and> \<not> tracks_delivery c \<and>
    (\<forall>rq \<in> set (drop (length (cl_wire c)) (cl_wire c')). req_qos rq = AtMostOnce)"
proof -
  have "publish_metrics_on encode party topic (proto_metrics ms) (now clock) meanwhile answer c = (result, c')"
    using assms(5) by (simp add: publish_metrics_to_def)
  note effect = publish_metrics_on_free [OF assms(2,3) this]
  have r: "role c = RoleEdgeNode"
    using assms(1) edge_node_role [of c] by (cases "role c") auto
  then have untracked: "\<not> tracked (wire_options (role c) (topic_message_type topic))"
    using assms(4) by (simp add: tracked_iff)
  then have "delivery_after c topic meanwhile answer = meanwhile (cl_delivery c)"
    by (cases answer)
       (simp_all add: delivery_after_def publish_with_options_halves count_publish_def settle_publish_def)
  moreover have "\<not> tracks_delivery c" by (simp add: tracks_delivery_def tracked_iff r)
  moreover have "spec_qos (topic_message_type topic) = AtMostOnce"
    using assms(4) spec_qos_cases [of "topic_message_type topic"] by (auto simp: spec_qos_iff)
  ultimately show ?thesis
    using effect r by (auto simp: message_request_def split: client_answer.splits)
qed

theorem edge_node_data_untracked_witness:
  "\<exists>c' result. publish_metrics_to (\<lambda>_. []) 0 0
       (ddata sparkplug_b (GroupId ''g'') (EdgeNodeId ''n'') (DeviceId ''d'')) [] id (Taken :: unit client_answer)
       (idle_client ''spBv1.0'' (IdentityEdgeNode \<lparr>owned_group = ''g'', owned_edge_node_id = ''n''\<rparr>)) =
       (result, c') \<and> cl_delivery c' = DeliveryTracker_new"
proof -
  let ?c = "idle_client ''spBv1.0'' (IdentityEdgeNode \<lparr>owned_group = ''g'', owned_edge_node_id = ''n''\<rparr>)"
  let ?t = "ddata sparkplug_b (GroupId ''g'') (EdgeNodeId ''n'') (DeviceId ''d'')"
  obtain result c' where call: "publish_metrics_to (\<lambda>_. []) 0 0 ?t [] id (Taken :: unit client_answer) ?c =
      (result, c')"
    by (cases "publish_metrics_to (\<lambda>_. []) 0 0 ?t [] id (Taken :: unit client_answer) ?c")
  with edge_node_data_untracked [where k = "''g/n''", OF _ _ _ _ call] show ?thesis
    by (simp add: idle_client_def edge_node_def ddata_def device_topic_def key_of_def topic_key_def
        group_id_def node_id_def)
qed

text \<open>
  Calls that name no edge node are refused before anything happens: a
  metric on a STATE topic is \<open>InvalidTopic\<close>, a birth of a publisher client is
  \<open>NotAnEdgeNode\<close>, and either leaves the client as it was.
\<close>

theorem calls_without_edge_node_refused:
  assumes "well_formed topic" and "topic_message_type topic = STATE" and "role c = RolePublisher"
  shows "publish_metrics_to encode party clock topic ms meanwhile answer c =
      (Some (Inl (InvalidTopic (to_string topic @ '' names no edge node, so it holds no seq count''))), c) \<and>
    publish_birth encode party clock device mw1 answer1 mw2 answer2 c = (Some (Inl NotAnEdgeNode), c)"
proof -
  have "topic_key topic = None" using assms(1,2) by (simp add: topic_key_None_iff)
  moreover have "edge_node c = None" using assms(3) by (simp add: edge_node_role)
  ultimately show ?thesis
    by (simp add: publish_metrics_to_def publish_metrics_on_no_key publish_birth_publisher
        no_edge_node_text_def)
qed

theorem calls_without_edge_node_refused_witness:
  "publish_birth (\<lambda>_. []) 0 0 (DeviceId ''d'') id (Taken :: unit client_answer) id Taken
     (idle_client ''spBv1.0'' IdentityPublisher) =
     (Some (Inl NotAnEdgeNode), idle_client ''spBv1.0'' IdentityPublisher)"
proof -
  let ?c = "idle_client ''spBv1.0'' IdentityPublisher"
  have topic: "well_formed (state sparkplug_b (HostId ''h''))"
    "topic_message_type (state sparkplug_b (HostId ''h'')) = STATE"
    by (simp_all add: state_well_formed sparkplug_b_def is_usable_segment_iff)
  have "role ?c = RolePublisher" by (simp add: role_def idle_client_def)
  then show ?thesis
    by (rule conjunct2 [OF calls_without_edge_node_refused [OF topic]])
qed

end
