(* ===== verification/Publish_Steps.thy ===== *)
theory Publish_Steps
  imports Publish
begin

text \<open>
  Many publish calls on one client, interleaved with the polls of the event
  loop. A step of the machine is what one task does between two awaits: it waits
  for the gate of its edge node, or for \<open>AsyncClient::publish\<close> to answer. On a
  runtime of several threads these parts can overlap, but each takes at most one
  critical section of the tracker and works on a count whose gate it holds, so
  they take effect one after the other. The steps are put together from the parts
  of the calls in the theory \<open>Publish\<close>.

  Which of the calls that wait for a gate enters next is left open here; the theory
  \<open>Gate_Queue\<close> adds the order in which \<open>tokio\<close> lets them in.

  A call can be cancelled at either await. \<open>Steal\<close> is the window the code
  documents: the client takes the message in the instant the call is cancelled.
  The set \<open>m_escaped\<close> is a ghost. It collects the edge nodes of which a message
  reached the client under a number that was then written back, by a \<open>Steal\<close>
  or by a birth that ended between its two messages.
\<close>

section \<open>Tasks\<close>

datatype call =
    CallMetrics SparkplugTopic "Metric list" Timestamp
  | CallBirth DeviceId Timestamp

datatype stage = OnlyMessage | FirstBirth | SecondBirth

record pending =
  p_call :: call
  p_stage :: stage
  p_res :: SeqReservation
  p_guard :: "PublishInFlight option"
  p_request :: request

datatype task = AwaitGate call | AwaitClient pending

record 'x machine =
  m_client :: client
  m_tasks :: "nat \<rightharpoonup> task"
  m_results :: "(nat \<times> 'x outcome) list"
  m_escaped :: "string set"

datatype ('x, 'e) action =
    Start nat call
  | Enter nat
  | Answer nat "'x client_answer"
  | Steal nat
  | Leave nat
  | Poll "'e polled"

text \<open>The identifiers of a call passed the checks of their types.\<close>

fun call_ok :: "call \<Rightarrow> bool" where
  "call_ok (CallMetrics topic _ _) \<longleftrightarrow> well_formed topic"
| "call_ok (CallBirth device _) \<longleftrightarrow> device_usable device"

fun call_topic :: "client \<Rightarrow> call \<Rightarrow> 'x SparkplugError + SparkplugTopic" where
  "call_topic c (CallMetrics topic _ _) = Inr topic"
| "call_topic c (CallBirth _ _) =
     (case edge_node c of
        None \<Rightarrow> Inl NotAnEdgeNode
      | Some en \<Rightarrow> Inr (nbirth (cl_namespace c) (en_group en) (en_edge_node_id en)))"

fun first_stage :: "call \<Rightarrow> stage" where
  "first_stage (CallMetrics _ _ _) = OnlyMessage"
| "first_stage (CallBirth _ _) = FirstBirth"

fun first_payload :: "call \<Rightarrow> u8 \<Rightarrow> Payload" where
  "first_payload (CallMetrics _ metrics at) seq = create_payload metrics at seq"
| "first_payload (CallBirth _ at) seq = create_birth_certificate at seq"

text \<open>
  The second message of a birth, which only a call at its NBIRTH still has
  to publish.
\<close>

definition second_message :: "client \<Rightarrow> pending \<Rightarrow> (SparkplugTopic \<times> (u8 \<Rightarrow> Payload)) option" where
  "second_message c p =
     (case (p_stage p, p_call p, edge_node c) of
        (FirstBirth, CallBirth device at, Some en) \<Rightarrow>
          Some (dbirth (cl_namespace c) (en_group en) (en_edge_node_id en) device,
                create_device_birth_certificate at)
      | _ \<Rightarrow> None)"


section \<open>Steps\<close>

definition finish :: "nat \<Rightarrow> 'x outcome \<Rightarrow> client \<Rightarrow> 'x machine \<Rightarrow> 'x machine" where
  "finish i result c m =
     m\<lparr>m_client := c, m_tasks := (m_tasks m)(i := None),
       m_results := m_results m @ [(i, result)]\<rparr>"

text \<open>\<open>publish_message\<close> up to its await: count the publish and hand it over.\<close>

definition hand_over ::
    "(Payload \<Rightarrow> u8 list) \<Rightarrow> nat \<Rightarrow> call \<Rightarrow> stage \<Rightarrow> SeqReservation \<Rightarrow> SparkplugTopic \<Rightarrow> Payload \<Rightarrow>
     client \<Rightarrow> 'x machine \<Rightarrow> 'x machine" where
  "hand_over encode i cl stg r topic payload c m =
     (let options = wire_options (role c) (topic_message_type topic);
          (guard, st) = count_publish options (cl_delivery c);
          c' = c\<lparr>cl_delivery := st\<rparr>
      in m\<lparr>m_client := c',
           m_tasks := (m_tasks m)(i \<mapsto> AwaitClient
             \<lparr>p_call = cl, p_stage = stg, p_res = r, p_guard = guard,
              p_request = message_request c topic (encode payload)\<rparr>)\<rparr>)"

definition enter :: "(Payload \<Rightarrow> u8 list) \<Rightarrow> nat \<Rightarrow> call \<Rightarrow> 'x machine \<Rightarrow> 'x machine option" where
  "enter encode i cl m =
     (let c = m_client m
      in case call_topic c cl of
           Inl e \<Rightarrow> Some (finish i (Some (Inl e)) c m)
         | Inr topic \<Rightarrow>
             (case reserve_seq i topic c of
                (Inl e, c1) \<Rightarrow> Some (finish i (Some (Inl e)) c1 m)
              | (Inr None, c1) \<Rightarrow> None
              | (Inr (Some r), c1) \<Rightarrow>
                  Some (hand_over encode i cl (first_stage cl) r topic
                          (first_payload cl (deref r (cl_seq c1))) c1 m)))"

text \<open>What the client does with a message, and what that does to the tracker.\<close>

definition take_request :: "pending \<Rightarrow> client \<Rightarrow> client" where
  "take_request p c = c\<lparr>cl_wire := cl_wire c @ [p_request p]\<rparr>"

definition settle :: "pending \<Rightarrow> 'x client_answer \<Rightarrow> client \<Rightarrow> 'x outcome \<times> client" where
  "settle p answer c =
     (let (result, st) = settle_publish (p_guard p) answer (cl_delivery c)
      in (result, c\<lparr>cl_delivery := st\<rparr>))"

definition mark_escaped :: "bool \<Rightarrow> string \<Rightarrow> 'x machine \<Rightarrow> 'x machine" where
  "mark_escaped escapes k m = (if escapes then m\<lparr>m_escaped := insert k (m_escaped m)\<rparr> else m)"

fun is_taken :: "'x client_answer \<Rightarrow> bool" where
  "is_taken Taken \<longleftrightarrow> True"
| "is_taken _ \<longleftrightarrow> False"

definition answered ::
    "(Payload \<Rightarrow> u8 list) \<Rightarrow> nat \<Rightarrow> pending \<Rightarrow> 'x client_answer \<Rightarrow> 'x machine \<Rightarrow> 'x machine" where
  "answered encode i p answer m =
     (let c = (if is_taken answer then take_request p (m_client m) else m_client m);
          (result, c1) = settle p answer c;
          r = p_res p
      in case (result, second_message c1 p) of
           (Some (Inr _), Some (topic, payload)) \<Rightarrow>
             (let (s, seqs) = next_seq r (cl_seq c1)
              in hand_over encode i (p_call p) SecondBirth r topic (payload s)
                   (c1\<lparr>cl_seq := seqs\<rparr>) m)
         | _ \<Rightarrow>
             mark_escaped (p_stage p = SecondBirth \<and> \<not> is_taken answer) (res_key r)
               (finish i result (end_reservation result r c1) m))"

definition stolen :: "nat \<Rightarrow> pending \<Rightarrow> 'x machine \<Rightarrow> 'x machine" where
  "stolen i p m =
     (let (result, c1) = settle p (Cancelled :: 'x client_answer) (take_request p (m_client m))
      in mark_escaped True (res_key (p_res p))
           (finish i result (end_reservation result (p_res p) c1) m))"

definition poll :: "'e polled \<Rightarrow> client \<Rightarrow> client" where
  "poll e c = c\<lparr>cl_delivery := apply_event (cl_delivery c) e, cl_health := apply_health (cl_health c) e\<rparr>"

fun machine_step ::
    "(Payload \<Rightarrow> u8 list) \<Rightarrow> ('x, 'e) action \<Rightarrow> 'x machine \<Rightarrow> 'x machine option" where
  "machine_step encode (Start i cl) m =
     (if m_tasks m i = None \<and> call_ok cl
      then Some (m\<lparr>m_tasks := (m_tasks m)(i \<mapsto> AwaitGate cl)\<rparr>) else None)"
| "machine_step encode (Enter i) m =
     (case m_tasks m i of Some (AwaitGate cl) \<Rightarrow> enter encode i cl m | _ \<Rightarrow> None)"
| "machine_step encode (Answer i answer) m =
     (case m_tasks m i of
        Some (AwaitClient p) \<Rightarrow> Some (answered encode i p answer m) | _ \<Rightarrow> None)"
| "machine_step encode (Steal i) m =
     (case m_tasks m i of Some (AwaitClient p) \<Rightarrow> Some (stolen i p m) | _ \<Rightarrow> None)"
| "machine_step encode (Leave i) m =
     (case m_tasks m i of
        Some (AwaitGate _) \<Rightarrow> Some (finish i None (m_client m) m) | _ \<Rightarrow> None)"
| "machine_step encode (Poll e) m = Some (m\<lparr>m_client := poll e (m_client m)\<rparr>)"

definition machine_init :: "client \<Rightarrow> 'x machine" where
  "machine_init c =
     \<lparr>m_client = c, m_tasks = Map.empty, m_results = [], m_escaped = {}\<rparr>"

text \<open>A client as \<open>connect_with\<close> gives it.\<close>

definition fresh_client :: "client \<Rightarrow> bool" where
  "fresh_client c \<longleftrightarrow>
     cl_wire c = [] \<and> cl_seq c = SeqCounters_new \<and> is_usable_segment (ns_text (cl_namespace c)) \<and>
     (case edge_node c of None \<Rightarrow> True | Some en \<Rightarrow> edge_node_usable en)"


section \<open>What a host application reads\<close>

text \<open>
  A host reads the group, the message type and the edge node from their places
  in the topic, and the number from the payload; \<open>decode\<close> is its reading of
  \<open>seq\<close> from the bytes.
\<close>

definition wire_reading ::
    "(u8 list \<Rightarrow> u64 option) \<Rightarrow> request \<Rightarrow> (string \<times> MessageType \<times> u64 option) option" where
  "wire_reading decode rq =
     (case split_on CHR ''/'' (req_topic rq) of
        _ # g # raw # n # _ \<Rightarrow>
          (case ok (from_str raw :: unit SparkplugError + MessageType) of
             Some mt \<Rightarrow> Some (g @ ''/'' @ n, mt, decode (req_payload rq))
           | None \<Rightarrow> None)
      | _ \<Rightarrow> None)"

definition read_for ::
    "(u8 list \<Rightarrow> u64 option) \<Rightarrow> string \<Rightarrow> request \<Rightarrow> (MessageType \<times> u64 option) list" where
  "read_for decode k rq =
     (case wire_reading decode rq of
        Some (k', mt, s) \<Rightarrow> (if k' = k then [(mt, s)] else [])
      | None \<Rightarrow> [])"

definition seq_stream ::
    "(u8 list \<Rightarrow> u64 option) \<Rightarrow> string \<Rightarrow> request list \<Rightarrow> (MessageType \<times> u64 option) list" where
  "seq_stream decode k wire = concat (map (read_for decode k) wire)"

text \<open>
  The check a host makes for one edge node: an NBIRTH carries 0 and any other
  message one more than the message before it, modulo 256. The result is the
  number read last; \<open>None\<close> is a gap.
\<close>

fun follow :: "u8 \<Rightarrow> (MessageType \<times> u64 option) list \<Rightarrow> u8 option" where
  "follow n [] = Some n"
| "follow n ((mt, s) # xs) =
     (if s = Some (ucast (seq_step mt n)) then follow (seq_step mt n) xs else None)"

lemma follow_append: "follow n (xs @ ys) = Option.bind (follow n xs) (\<lambda>k. follow k ys)"
  by (induction n xs rule: follow.induct) simp_all

lemma seq_stream_snoc: "seq_stream decode k (w @ [rq]) = seq_stream decode k w @ read_for decode k rq"
  by (simp add: seq_stream_def)

lemma wire_reading_message:
  assumes "well_formed t" and "topic_key t = Some k"
  shows "wire_reading decode (message_request c t payload) =
    Some (k, topic_message_type t, decode payload)"
  using assms(1)
proof (cases rule: well_formed_cases)
  case (node ns mt g n)
  with assms split_to_string [OF assms(1)] show ?thesis
    by (simp add: wire_reading_def message_request_def segments_def topic_key_def group_id_def
        node_id_def key_of_def Let_def)
next
  case (device ns mt g n d)
  with assms split_to_string [OF assms(1)] show ?thesis
    by (simp add: wire_reading_def message_request_def segments_def topic_key_def group_id_def
        node_id_def key_of_def Let_def)
next
  case (host ns h)
  with assms(2) show ?thesis by (simp add: topic_key_def group_id_def)
qed

end
