(* ===== verification/Publish_Chains.thy ===== *)
theory Publish_Chains
  imports Publish_Steps
begin

text \<open>
  Chains of numbers: what ties the counts of the edge nodes, the holders of their
  gates, the messages at the client and the messages on the wire together, as a
  predicate on these parts alone, and how the steps of a call keep it.
\<close>

section \<open>Chains of numbers\<close>

text \<open>
  What holds between two steps, for a host reading \<open>decode\<close> of the payloads:
  over the counts, the holders of the gates, the messages that wait for the
  client, the messages it took, and the escaped keys. \<open>before_message\<close> is the
  number the client took last for the key of a pending message, and
  \<open>last_sent\<close> that number for every key.
\<close>

definition before_message :: "pending \<Rightarrow> u8" where
  "before_message p = (if p_stage p = SecondBirth then 0 else saved_count (p_res p))"

definition last_sent ::
    "(string \<Rightarrow> u8) \<Rightarrow> (string \<Rightarrow> nat option) \<Rightarrow> (nat \<Rightarrow> pending option) \<Rightarrow> string \<Rightarrow> u8" where
  "last_sent cnt hld pend k =
     (case hld k of
        None \<Rightarrow> cnt k
      | Some i \<Rightarrow> (case pend i of Some p \<Rightarrow> before_message p | None \<Rightarrow> 0))"

abbreviation p_key :: "pending \<Rightarrow> string" where
  "p_key p \<equiv> res_key (p_res p)"

definition pending_ok ::
    "(u8 list \<Rightarrow> u64 option) \<Rightarrow> (string \<Rightarrow> u8) \<Rightarrow> (string \<Rightarrow> nat option) \<Rightarrow> nat \<Rightarrow> pending \<Rightarrow> bool" where
  "pending_ok decode cnt hld i p \<longleftrightarrow>
     hld (p_key p) = Some i \<and> restore_to (p_res p) \<noteq> None \<and>
     (p_stage p = FirstBirth \<longrightarrow> cnt (p_key p) = 0) \<and>
     (\<exists>mt. cnt (p_key p) = seq_step mt (before_message p) \<and>
        wire_reading decode (p_request p) = Some (p_key p, mt, Some (ucast (cnt (p_key p)))))"

definition chained ::
    "(u8 list \<Rightarrow> u64 option) \<Rightarrow> (string \<Rightarrow> u8) \<Rightarrow> (string \<Rightarrow> nat option) \<Rightarrow> (nat \<Rightarrow> pending option) \<Rightarrow>
     request list \<Rightarrow> string set \<Rightarrow> bool" where
  "chained decode cnt hld pend wire esc \<longleftrightarrow>
     (\<forall>i p. pend i = Some p \<longrightarrow> pending_ok decode cnt hld i p) \<and>
     (\<forall>k i. hld k = Some i \<longrightarrow> (\<exists>p. pend i = Some p \<and> p_key p = k)) \<and>
     (\<forall>k. k \<notin> esc \<longrightarrow> follow 0 (seq_stream decode k wire) = Some (last_sent cnt hld pend k))"

lemma chained_pending: "chained decode cnt hld pend wire esc \<Longrightarrow> pend i = Some p \<Longrightarrow>
    pending_ok decode cnt hld i p"
  by (simp add: chained_def)

lemma chained_holder: "chained decode cnt hld pend wire esc \<Longrightarrow> hld k = Some i \<Longrightarrow>
    \<exists>p. pend i = Some p \<and> p_key p = k"
  by (simp add: chained_def)

lemma chained_follow: "chained decode cnt hld pend wire esc \<Longrightarrow> k \<notin> esc \<Longrightarrow>
    follow 0 (seq_stream decode k wire) = Some (last_sent cnt hld pend k)"
  by (simp add: chained_def)

text \<open>Two pending messages of one key belong to one task.\<close>

lemma chained_unique:
  assumes "chained decode cnt hld pend wire esc" and "pend i = Some p" and "pend j = Some q"
    and "p_key p = p_key q"
  shows "i = j"
  using chained_pending [OF assms(1,2)] chained_pending [OF assms(1,3)] assms(4)
  by (simp add: pending_ok_def)

lemma chained_init: "chained decode (\<lambda>_. 0) (\<lambda>_. None) (\<lambda>_. None) [] {}"
  by (simp add: chained_def last_sent_def seq_stream_def)

lemma chained_enter:
  assumes ch: "chained decode cnt hld pend wire esc"
    and free: "hld (p_key p) = None" "pend i = None"
    and res: "restore_to (p_res p) = Some (cnt (p_key p))" "p_stage p \<noteq> SecondBirth"
      "p_stage p = FirstBirth \<Longrightarrow> seq_step mt (cnt (p_key p)) = 0"
    and reading: "wire_reading decode (p_request p) =
      Some (p_key p, mt, Some (ucast (seq_step mt (cnt (p_key p)))))"
  shows "chained decode (cnt(p_key p := seq_step mt (cnt (p_key p)))) (hld(p_key p := Some i))
           (pend(i := Some p)) wire esc"
  unfolding chained_def
proof (intro conjI allI impI)
  fix j q
  assume q: "(pend(i := Some p)) j = Some q"
  show "pending_ok decode (cnt(p_key p := seq_step mt (cnt (p_key p)))) (hld(p_key p := Some i)) j q"
  proof (cases "j = i")
    case True
    with q res reading show ?thesis
      by (auto simp: pending_ok_def before_message_def saved_count_def)
  next
    case False
    with q have "pending_ok decode cnt hld j q" by (simp add: chained_pending [OF ch])
    moreover from this have "p_key q \<noteq> p_key p" using free(1) by (auto simp: pending_ok_def)
    ultimately show ?thesis by (simp add: pending_ok_def)
  qed
next
  fix k j
  assume h: "(hld(p_key p := Some i)) k = Some j"
  show "\<exists>q. (pend(i := Some p)) j = Some q \<and> p_key q = k"
  proof (cases "k = p_key p")
    case True
    with h show ?thesis by simp
  next
    case False
    with h have "\<exists>q. pend j = Some q \<and> p_key q = k" by (simp add: chained_holder [OF ch])
    with free(2) show ?thesis by auto
  qed
next
  fix k
  assume "k \<notin> esc"
  then have "follow 0 (seq_stream decode k wire) = Some (last_sent cnt hld pend k)"
    by (rule chained_follow [OF ch])
  also have "last_sent cnt hld pend k =
      last_sent (cnt(p_key p := seq_step mt (cnt (p_key p)))) (hld(p_key p := Some i)) (pend(i := Some p)) k"
    using free res chained_holder [OF ch, of k i]
    by (auto simp: last_sent_def before_message_def saved_count_def split: option.split)
  finally show "follow 0 (seq_stream decode k wire) =
      Some (last_sent (cnt(p_key p := seq_step mt (cnt (p_key p)))) (hld(p_key p := Some i))
        (pend(i := Some p)) k)" .
qed

text \<open>Whatever ends a pending message frees its gate; the other keys see nothing of it.\<close>

lemma chained_end:
  assumes ch: "chained decode cnt hld pend wire esc" and p: "pend i = Some p"
    and esc: "esc \<subseteq> esc'"
    and same: "\<And>k. k \<noteq> p_key p \<Longrightarrow> seq_stream decode k wire' = seq_stream decode k wire"
    and own: "p_key p \<notin> esc' \<Longrightarrow> follow 0 (seq_stream decode (p_key p) wire') = Some n"
  shows "chained decode (cnt(p_key p := n)) (hld(p_key p := None)) (pend(i := None)) wire' esc'"
  unfolding chained_def
proof (intro conjI allI impI)
  fix j q
  assume q: "(pend(i := None)) j = Some q"
  then have "pending_ok decode cnt hld j q" "p_key q \<noteq> p_key p"
    using chained_pending [OF ch] chained_unique [OF ch p] by (auto split: if_splits)
  then show "pending_ok decode (cnt(p_key p := n)) (hld(p_key p := None)) j q"
    by (simp add: pending_ok_def)
next
  fix k j
  assume h: "(hld(p_key p := None)) k = Some j"
  then have k: "k \<noteq> p_key p" and "hld k = Some j" by (auto split: if_splits)
  then obtain q where "pend j = Some q" "p_key q = k" using chained_holder [OF ch] by blast
  with k p show "\<exists>q. (pend(i := None)) j = Some q \<and> p_key q = k" by auto
next
  fix k
  assume k: "k \<notin> esc'"
  show "follow 0 (seq_stream decode k wire') =
      Some (last_sent (cnt(p_key p := n)) (hld(p_key p := None)) (pend(i := None)) k)"
  proof (cases "k = p_key p")
    case True
    with own k show ?thesis by (simp add: last_sent_def)
  next
    case False
    have "k \<notin> esc" using k esc by auto
    with chained_follow [OF ch] same [OF False] False p show ?thesis
      using chained_holder [OF ch, of k i] by (auto simp: last_sent_def split: option.split)
  qed
qed

lemma read_for_pending:
  assumes "pending_ok decode cnt hld i p"
  obtains mt where "cnt (p_key p) = seq_step mt (before_message p)"
    "\<And>k. read_for decode k (p_request p) =
       (if k = p_key p then [(mt, Some (ucast (cnt (p_key p))))] else [])"
  using assms by (auto simp: pending_ok_def read_for_def)

lemma follow_pending:
  assumes ch: "chained decode cnt hld pend wire esc" and p: "pend i = Some p"
    and k: "p_key p \<notin> esc"
  shows "follow 0 (seq_stream decode (p_key p) wire) = Some (before_message p)"
    "follow 0 (seq_stream decode (p_key p) (wire @ [p_request p])) = Some (cnt (p_key p))"
proof -
  have ok: "pending_ok decode cnt hld i p" by (rule chained_pending [OF ch p])
  then have "last_sent cnt hld pend (p_key p) = before_message p"
    using p by (simp add: pending_ok_def last_sent_def)
  then show before: "follow 0 (seq_stream decode (p_key p) wire) = Some (before_message p)"
    using chained_follow [OF ch k] by simp
  obtain mt where "cnt (p_key p) = seq_step mt (before_message p)"
    "\<And>k. read_for decode k (p_request p) =
       (if k = p_key p then [(mt, Some (ucast (cnt (p_key p))))] else [])"
    using read_for_pending [OF ok] by blast
  then show "follow 0 (seq_stream decode (p_key p) (wire @ [p_request p])) = Some (cnt (p_key p))"
    by (simp add: seq_stream_snoc follow_append before)
qed

lemma seq_stream_pending:
  assumes "chained decode cnt hld pend wire esc" and "pend i = Some p" and "k \<noteq> p_key p"
  shows "seq_stream decode k (wire @ [p_request p]) = seq_stream decode k wire"
  using read_for_pending [OF chained_pending [OF assms(1,2)]] assms(3)
  by (metis append_Nil2 seq_stream_snoc)

lemma chained_commit:
  assumes "chained decode cnt hld pend wire esc" and "pend i = Some p"
  shows "chained decode cnt (hld(p_key p := None)) (pend(i := None)) (wire @ [p_request p]) esc"
  using chained_end [OF assms subset_refl, of "wire @ [p_request p]" "cnt (p_key p)"]
    seq_stream_pending [OF assms] follow_pending(2) [OF assms] by simp

lemma chained_drop:
  assumes "chained decode cnt hld pend wire esc" and "pend i = Some p"
    and "p_stage p = SecondBirth \<Longrightarrow> p_key p \<in> esc'" and "esc \<subseteq> esc'"
  shows "chained decode (cnt(p_key p := saved_count (p_res p))) (hld(p_key p := None))
           (pend(i := None)) wire esc'"
proof (rule chained_end [OF assms(1,2,4)])
  assume k: "p_key p \<notin> esc'"
  then have "before_message p = saved_count (p_res p)"
    using assms(3) by (auto simp: before_message_def)
  then show "follow 0 (seq_stream decode (p_key p) wire) = Some (saved_count (p_res p))"
    using follow_pending(1) [OF assms(1,2)] k assms(4) by auto
qed simp

lemma chained_steal:
  assumes "chained decode cnt hld pend wire esc" and "pend i = Some p"
  shows "chained decode (cnt(p_key p := n)) (hld(p_key p := None)) (pend(i := None))
           (wire @ [p_request p]) (insert (p_key p) esc)"
  by (rule chained_end [OF assms]) (auto simp: seq_stream_pending [OF assms])

lemma chained_second:
  assumes ch: "chained decode cnt hld pend wire esc" and p: "pend i = Some p"
    and stg: "p_stage p = FirstBirth"
    and q: "p_res q = p_res p" "p_stage q = SecondBirth"
      "wire_reading decode (p_request q) = Some (p_key p, DBIRTH, Some (ucast (cnt (p_key p) + 1)))"
  shows "chained decode (cnt(p_key p := cnt (p_key p) + 1)) hld (pend(i := Some q))
           (wire @ [p_request p]) esc"
  unfolding chained_def
proof (intro conjI allI impI)
  have ok: "pending_ok decode cnt hld i p" by (rule chained_pending [OF ch p])
  then have zero: "cnt (p_key p) = 0" and own: "hld (p_key p) = Some i"
    using stg by (simp_all add: pending_ok_def)
  {
    fix j r
    assume r: "(pend(i := Some q)) j = Some r"
    show "pending_ok decode (cnt(p_key p := cnt (p_key p) + 1)) hld j r"
    proof (cases "j = i")
      case True
      with r q zero ok show ?thesis
        by (auto simp: pending_ok_def before_message_def seq_step_def intro!: exI [of _ DBIRTH])
    next
      case False
      with r have "pending_ok decode cnt hld j r" "p_key r \<noteq> p_key p"
        using chained_pending [OF ch] chained_unique [OF ch p] by auto
      then show ?thesis by (simp add: pending_ok_def)
    qed
  }
  {
    fix k j
    assume "hld k = Some j"
    then show "\<exists>r. (pend(i := Some q)) j = Some r \<and> p_key r = k"
      using chained_holder [OF ch, of k j] p q(1) by (cases "j = i") auto
  }
  {
    fix k
    assume k: "k \<notin> esc"
    show "follow 0 (seq_stream decode k (wire @ [p_request p])) =
        Some (last_sent (cnt(p_key p := cnt (p_key p) + 1)) hld (pend(i := Some q)) k)"
    proof (cases "k = p_key p")
      case True
      with follow_pending(2) [OF ch p] k own q(2) zero show ?thesis
        by (simp add: last_sent_def before_message_def)
    next
      case False
      with chained_follow [OF ch k] seq_stream_pending [OF ch p False]
        chained_holder [OF ch, of k i] p show ?thesis
        by (auto simp: last_sent_def split: option.split)
    qed
  }
qed

end
