(* ===== verification/Publish_Machine.thy ===== *)
theory Publish_Machine
  imports Publish_Chains
begin

text \<open>
  The invariant of the publish machine of the theory \<open>Publish_Steps\<close>, that every
  step keeps it, and what follows for every run: the numbers a host reads, the
  gates, and the results of the calls.
\<close>

section \<open>The invariant of the machine\<close>

definition in_client :: "'x machine \<Rightarrow> nat \<Rightarrow> pending option" where
  "in_client m i = (case m_tasks m i of Some (AwaitClient p) \<Rightarrow> Some p | _ \<Rightarrow> None)"

definition machine_chained :: "(u8 list \<Rightarrow> u64 option) \<Rightarrow> 'x machine \<Rightarrow> bool" where
  "machine_chained decode m \<longleftrightarrow>
     chained decode (count_at (cl_seq (m_client m))) (holder_at (cl_seq (m_client m)))
       (in_client m) (cl_wire (m_client m)) (m_escaped m)"

fun task_call :: "task \<Rightarrow> call" where
  "task_call (AwaitGate cl) = cl"
| "task_call (AwaitClient p) = p_call p"

definition client_ids_ok :: "client \<Rightarrow> bool" where
  "client_ids_ok c \<longleftrightarrow>
     is_usable_segment (ns_text (cl_namespace c)) \<and>
     (\<forall>en. edge_node c = Some en \<longrightarrow> edge_node_usable en)"

definition births_own :: "client \<Rightarrow> pending \<Rightarrow> bool" where
  "births_own c p \<longleftrightarrow>
     (p_stage p = FirstBirth \<longrightarrow>
        (\<exists>en. edge_node c = Some en \<and> p_key p = birth_key en) \<and>
        (\<exists>device at. p_call p = CallBirth device at))"

definition machine_inv :: "(u8 list \<Rightarrow> u64 option) \<Rightarrow> 'x machine \<Rightarrow> bool" where
  "machine_inv decode m \<longleftrightarrow>
     machine_chained decode m \<and> client_ids_ok (m_client m) \<and>
     (\<forall>i t. m_tasks m i = Some t \<longrightarrow> call_ok (task_call t)) \<and>
     (\<forall>i p. in_client m i = Some p \<longrightarrow> births_own (m_client m) p)"

text \<open>What a decoder of the payloads has to read.\<close>

definition reads_seq :: "(u8 list \<Rightarrow> u64 option) \<Rightarrow> (Payload \<Rightarrow> u8 list) \<Rightarrow> bool" where
  "reads_seq decode encode \<longleftrightarrow> (\<forall>p. decode (encode p) = payload_seq p)"

lemma edge_node_simps [simp]:
  "edge_node (c\<lparr>cl_seq := m\<rparr>) = edge_node c"
  "edge_node (c\<lparr>cl_delivery := st\<rparr>) = edge_node c"
  "edge_node (c\<lparr>cl_wire := w\<rparr>) = edge_node c"
  "edge_node (c\<lparr>cl_health := h\<rparr>) = edge_node c"
  by (simp_all add: edge_node_def)

lemma ids_ok_simps [simp]:
  "client_ids_ok (c\<lparr>cl_seq := m\<rparr>) = client_ids_ok c"
  "client_ids_ok (c\<lparr>cl_delivery := st\<rparr>) = client_ids_ok c"
  "client_ids_ok (c\<lparr>cl_wire := w\<rparr>) = client_ids_ok c"
  "client_ids_ok (c\<lparr>cl_health := h\<rparr>) = client_ids_ok c"
  by (simp_all add: client_ids_ok_def)

lemma second_message_simps [simp]:
  "second_message (c\<lparr>cl_seq := m\<rparr>) = second_message c"
  "second_message (c\<lparr>cl_delivery := st\<rparr>) = second_message c"
  "second_message (c\<lparr>cl_wire := w\<rparr>) = second_message c"
  "second_message (c\<lparr>cl_health := h\<rparr>) = second_message c"
  by (simp_all add: second_message_def fun_eq_iff split: stage.split call.split option.split)

lemma births_own_simps [simp]:
  "births_own (c\<lparr>cl_seq := m\<rparr>) = births_own c"
  "births_own (c\<lparr>cl_delivery := st\<rparr>) = births_own c"
  "births_own (c\<lparr>cl_wire := w\<rparr>) = births_own c"
  "births_own (c\<lparr>cl_health := h\<rparr>) = births_own c"
  by (simp_all add: births_own_def fun_eq_iff)

lemma in_client_simps [simp]:
  "in_client (m\<lparr>m_client := c\<rparr>) = in_client m"
  "in_client (m\<lparr>m_results := rs\<rparr>) = in_client m"
  "in_client (m\<lparr>m_escaped := es\<rparr>) = in_client m"
  by (simp_all add: in_client_def fun_eq_iff)

lemma in_client_gate:
  "m_tasks m i = Some (AwaitGate cl) \<Longrightarrow> in_client m i = None"
  "m_tasks m i = None \<Longrightarrow> in_client m i = None"
  by (simp_all add: in_client_def)

lemma in_client_update:
  "in_client (m\<lparr>m_client := c, m_tasks := (m_tasks m)(i \<mapsto> AwaitClient p)\<rparr>) = (in_client m)(i := Some p)"
  "in_client (m\<lparr>m_tasks := (m_tasks m)(i \<mapsto> AwaitGate cl)\<rparr>) = (in_client m)(i := None)"
  "in_client (m\<lparr>m_client := c, m_tasks := (m_tasks m)(i := None), m_results := rs\<rparr>) = (in_client m)(i := None)"
  by (auto simp: in_client_def fun_eq_iff)

lemma pending_update_None: "in_client m i = None \<Longrightarrow> (in_client m)(i := None) = in_client m"
  by (auto simp: fun_eq_iff)

lemma call_topic_ok:
  assumes "call_topic c cl = Inr topic" and "client_ids_ok c" and "call_ok cl"
  shows "well_formed topic"
  using assms
  by (cases cl)
     (auto simp: client_ids_ok_def edge_node_usable_def nbirth_def intro!: node_topic_well_formed
       split: option.splits)

lemma second_message_ok:
  assumes "second_message c p = Some (topic, payload)" and "client_ids_ok c" and "call_ok (p_call p)"
  obtains en where "edge_node c = Some en" "well_formed topic" "topic_message_type topic = DBIRTH"
    "topic_key topic = Some (birth_key en)" "p_stage p = FirstBirth" "payload_seq (payload s) = Some (ucast s)"
proof -
  obtain device at en where en: "p_stage p = FirstBirth" "p_call p = CallBirth device at" "edge_node c = Some en"
    and topic: "topic = dbirth (cl_namespace c) (en_group en) (en_edge_node_id en) device"
    and payload: "payload = create_device_birth_certificate at"
    using assms(1) by (auto simp: second_message_def split: stage.splits call.splits option.splits)
  have "well_formed topic"
    using assms(2,3) en topic
    by (auto simp: client_ids_ok_def edge_node_usable_def dbirth_def intro!: device_topic_well_formed)
  moreover have "topic_message_type topic = DBIRTH" "topic_key topic = Some (birth_key en)"
    by (simp_all add: topic dbirth_def birth_key_def)
  ultimately show thesis using that en payload by simp
qed


lemma machine_inv_call:
  "machine_inv decode m \<Longrightarrow> m_tasks m i = Some t \<Longrightarrow> call_ok (task_call t)"
  by (simp add: machine_inv_def)

lemma in_client_iff: "in_client m i = Some p \<longleftrightarrow> m_tasks m i = Some (AwaitClient p)"
  by (auto simp: in_client_def split: option.split task.split)

lemma machine_inv_own:
  "machine_inv decode m \<Longrightarrow> m_tasks m i = Some (AwaitClient p) \<Longrightarrow> births_own (m_client m) p"
  by (simp add: machine_inv_def in_client_iff)

text \<open>What a step of one task keeps, given that it keeps the chains.\<close>

lemma machine_invI:
  assumes "machine_inv decode m" and "machine_chained decode m'"
    and "client_ids_ok (m_client m')" and "births_own (m_client m') = births_own (m_client m)"
    and "\<And>j. j \<noteq> i \<Longrightarrow> m_tasks m' j = m_tasks m j"
    and "\<And>t. m_tasks m' i = Some t \<Longrightarrow> call_ok (task_call t)"
    and "\<And>p. m_tasks m' i = Some (AwaitClient p) \<Longrightarrow> births_own (m_client m) p"
  shows "machine_inv decode m'"
  unfolding machine_inv_def
proof (intro conjI allI impI)
  fix j t
  assume "m_tasks m' j = Some t"
  with assms(1,5,6) show "call_ok (task_call t)"
    by (cases "j = i") (auto dest: machine_inv_call)
next
  fix j p
  assume "in_client m' j = Some p"
  then have "m_tasks m' j = Some (AwaitClient p)" by (simp add: in_client_iff)
  with assms(1,5,7) have "births_own (m_client m) p"
    by (cases "j = i") (auto dest: machine_inv_own)
  then show "births_own (m_client m') p" by (simp add: assms(4))
qed (use assms(2,3) in simp_all)

lemma hand_over_simps:
  "m_tasks (hand_over encode i cl stg r topic payload c m) = (m_tasks m)(i \<mapsto> AwaitClient
     \<lparr>p_call = cl, p_stage = stg, p_res = r,
      p_guard = fst (count_publish (wire_options (role c) (topic_message_type topic)) (cl_delivery c)),
      p_request = message_request c topic (encode payload)\<rparr>)"
  "m_client (hand_over encode i cl stg r topic payload c m) =
     c\<lparr>cl_delivery := snd (count_publish (wire_options (role c) (topic_message_type topic)) (cl_delivery c))\<rparr>"
  "m_escaped (hand_over encode i cl stg r topic payload c m) = m_escaped m"
  "m_results (hand_over encode i cl stg r topic payload c m) = m_results m"
  by (simp_all add: hand_over_def split_beta Let_def)

lemma finish_simps [simp]:
  "m_tasks (finish i result c m) = (m_tasks m)(i := None)"
  "m_client (finish i result c m) = c"
  "m_escaped (finish i result c m) = m_escaped m"
  "m_results (finish i result c m) = m_results m @ [(i, result)]"
  by (simp_all add: finish_def)

lemma mark_escaped_simps [simp]:
  "m_tasks (mark_escaped b k m) = m_tasks m"
  "m_client (mark_escaped b k m) = m_client m"
  "m_results (mark_escaped b k m) = m_results m"
  "m_escaped (mark_escaped b k m) = (if b then insert k (m_escaped m) else m_escaped m)"
  by (simp_all add: mark_escaped_def)

lemma in_client_tasks:
  "m_tasks m' = (m_tasks m)(i \<mapsto> AwaitClient p) \<Longrightarrow> in_client m' = (in_client m)(i := Some p)"
  "m_tasks m' = (m_tasks m)(i \<mapsto> AwaitGate cl) \<Longrightarrow> in_client m' = (in_client m)(i := None)"
  "m_tasks m' = (m_tasks m)(i := None) \<Longrightarrow> in_client m' = (in_client m)(i := None)"
  by (auto simp: in_client_def fun_eq_iff)

lemma settle_eq:
  "settle p answer c =
     (answer_outcome answer, c\<lparr>cl_delivery := snd (settle_publish (p_guard p) answer (cl_delivery c))\<rparr>)"
  by (simp add: settle_def split_beta Let_def settle_publish_fst)

lemma is_taken_iff: "is_taken answer \<longleftrightarrow> answer = Taken"
  by (cases answer) simp_all

text \<open>Entering the client: a task passes its gate and hands its message over.\<close>

lemma enter_inv:
  fixes m m' :: "'x machine"
  assumes inv: "machine_inv decode m" and law: "reads_seq decode encode"
    and gate: "m_tasks m i = Some (AwaitGate cl)" and step: "enter encode i cl m = Some m'"
  shows "machine_inv decode m'"
proof -
  have ids: "client_ids_ok (m_client m)" and ch: "machine_chained decode m"
    using inv by (simp_all add: machine_inv_def)
  have cl_ok: "call_ok cl" using machine_inv_call [OF inv gate] by simp
  have absent: "in_client m i = None" by (simp add: in_client_gate gate)
  have unmoved: "machine_inv decode (finish i result (m_client m) m)" for result
  proof (rule machine_invI [OF inv, where i = i])
    show "machine_chained decode (finish i result (m_client m) m)"
      using ch absent unfolding machine_chained_def
      by (simp add: in_client_tasks(3) [of "finish i result (m_client m) m" m i] pending_update_None)
  qed (use ids in simp_all)
  show ?thesis
  proof (cases "call_topic (m_client m) cl :: 'x SparkplugError + SparkplugTopic")
    case (Inl e)
    with step have "m' = finish i (Some (Inl e)) (m_client m) m" by (simp add: enter_def)
    then show ?thesis by (simp only: unmoved)
  next
    case (Inr topic)
    have wf: "well_formed topic" by (rule call_topic_ok [OF Inr ids cl_ok])
    obtain x c1 where rs: "reserve_seq i topic (m_client m) = (x :: 'x SparkplugError + _, c1)"
      by (cases "reserve_seq i topic (m_client m) :: ('x SparkplugError + _) \<times> _")
    show ?thesis
    proof (cases x)
      case (Inl e)
      with rs have "c1 = m_client m"
        by (auto simp: reserve_seq_eq split: option.splits prod.splits)
      with step Inr rs Inl have "m' = finish i (Some (Inl e)) (m_client m) m"
        by (simp add: enter_def)
      then show ?thesis by (simp only: unmoved)
    next
      case x: (Inr o')
      with step Inr rs obtain r where r: "o' = Some r" by (cases o') (simp_all add: enter_def)
      obtain k m1 where key: "topic_key topic = Some k"
        and draw: "draw_key i k (seq_step (topic_message_type topic)) (cl_seq (m_client m)) = (Some r, m1)"
        and c1: "c1 = (m_client m)\<lparr>cl_seq := m1\<rparr>"
        and num: "deref r m1 = seq_step (topic_message_type topic) (count_at (cl_seq (m_client m)) k)"
        using rs x r by (auto elim: reserve_seq_Some)
      let ?p = "\<lparr>p_call = cl, p_stage = first_stage cl, p_res = r,
        p_guard = fst (count_publish (wire_options (role c1) (topic_message_type topic)) (cl_delivery c1)),
        p_request = message_request c1 topic (encode (first_payload cl (deref r m1)))\<rparr>"
      have m': "m' = hand_over encode i cl (first_stage cl) r topic (first_payload cl (deref r m1)) c1 m"
        using step Inr rs x r c1 by (simp add: enter_def)
      have inm': "in_client m' = (in_client m)(i := Some ?p)"
        by (rule in_client_tasks(1)) (simp add: m' hand_over_simps)
      have r_fields: "res_key r = k" "restore_to r = Some (count_at (cl_seq (m_client m)) k)"
        using draw by (auto simp: draw_key_def split: option.splits)
      have seq_of: "payload_seq (first_payload cl n) = Some (ucast n)" for n
        by (cases cl) simp_all
      have birth: "first_stage cl = FirstBirth \<Longrightarrow>
          (\<exists>en. edge_node (m_client m) = Some en \<and> k = birth_key en) \<and>
          (\<exists>device at. cl = CallBirth device at) \<and> topic_message_type topic = NBIRTH"
        using Inr key by (cases cl) (auto simp: nbirth_def birth_key_def node_topic_def topic_key_def
            group_id_def node_id_def split: option.splits)
      have not_second: "first_stage cl \<noteq> SecondBirth" by (cases cl) simp_all
      show ?thesis
      proof (rule machine_invI [OF inv, where i = i])
        have "chained decode
          ((count_at (cl_seq (m_client m)))(p_key ?p :=
             seq_step (topic_message_type topic) (count_at (cl_seq (m_client m)) (p_key ?p))))
          ((holder_at (cl_seq (m_client m)))(p_key ?p := Some i))
          ((in_client m)(i := Some ?p)) (cl_wire (m_client m)) (m_escaped m)"
          using ch sc.draw_Some(1) [OF draw] absent birth not_second r_fields law
          unfolding machine_chained_def
          by (intro chained_enter)
             (auto simp: wire_reading_message [OF wf key] num seq_of reads_seq_def)
        then show "machine_chained decode m'"
          unfolding machine_chained_def inm'
          using sc.draw_Some(5,6) [OF draw] r_fields
          by (simp add: m' hand_over_simps c1)
      qed (use ids cl_ok birth r_fields in \<open>auto simp: m' hand_over_simps c1 births_own_def\<close>)
    qed
  qed
qed


text \<open>The end of a pending call: what its reservation leaves in the counters.\<close>

lemma end_seq_counts:
  "count_at (cl_seq (end_reservation (answer_outcome answer) r c)) =
     (if is_taken answer \<or> restore_to r = None then count_at (cl_seq c)
      else (count_at (cl_seq c))(res_key r := saved_count r))"
  "holder_at (cl_seq (end_reservation (answer_outcome answer) r c)) =
     (holder_at (cl_seq c))(res_key r := None)"
  by (auto simp: end_reservation_eq commit_def drop_reservation_def saved_count_def is_taken_iff
        Let_def fun_eq_iff split: option.split client_answer.split)

lemma end_reservation_fields [simp]:
  "cl_wire (end_reservation result r c) = cl_wire c"
  "cl_namespace (end_reservation result r c) = cl_namespace c"
  "client_ids_ok (end_reservation result r c) = client_ids_ok c"
  "births_own (end_reservation result r c) = births_own c"
  by (simp_all add: end_reservation_def split: option.split sum.split)

lemma pending_fields:
  assumes "machine_chained decode m" and "m_tasks m i = Some (AwaitClient p)"
  shows "holder_at (cl_seq (m_client m)) (p_key p) = Some i" "restore_to (p_res p) \<noteq> None"
    "p_stage p = FirstBirth \<Longrightarrow> count_at (cl_seq (m_client m)) (p_key p) = 0"
proof -
  have "pending_ok decode (count_at (cl_seq (m_client m))) (holder_at (cl_seq (m_client m))) i p"
    using assms unfolding machine_chained_def by (auto simp: in_client_iff intro: chained_pending)
  then show "holder_at (cl_seq (m_client m)) (p_key p) = Some i" "restore_to (p_res p) \<noteq> None"
    "p_stage p = FirstBirth \<Longrightarrow> count_at (cl_seq (m_client m)) (p_key p) = 0"
    by (simp_all add: pending_ok_def)
qed

lemma ended_inv:
  fixes m :: "'x machine" and answer :: "'x client_answer"
  assumes inv: "machine_inv decode m" and p: "m_tasks m i = Some (AwaitClient p)"
    and m': "m' = mark_escaped esc (p_key p) (finish i (answer_outcome answer)
          (end_reservation (answer_outcome answer) (p_res p)
            ((if w then take_request p (m_client m) else m_client m)\<lparr>cl_delivery := st\<rparr>)) m)"
    and cond: "is_taken answer \<Longrightarrow> w" "\<not> is_taken answer \<Longrightarrow> w \<Longrightarrow> esc"
      "\<not> w \<Longrightarrow> p_stage p = SecondBirth \<Longrightarrow> esc"
  shows "machine_inv decode m'"
proof -
  let ?c = "m_client m" and ?k = "p_key p"
  have ch: "chained decode (count_at (cl_seq ?c)) (holder_at (cl_seq ?c)) (in_client m) (cl_wire ?c)
      (m_escaped m)" and mch: "machine_chained decode m"
    using inv by (simp_all add: machine_inv_def machine_chained_def)
  have inp: "in_client m i = Some p" by (simp add: in_client_iff p)
  have inm': "in_client m' = (in_client m)(i := None)"
    by (rule in_client_tasks(3)) (simp add: m')
  obtain n where restore: "restore_to (p_res p) = Some n"
    using pending_fields(2) [OF mch p] by blast
  show ?thesis
  proof (rule machine_invI [OF inv, where i = i])
    consider (commit) "is_taken answer" "w" "\<not> esc" | (steal) "w" "esc" | (drop) "\<not> w" "\<not> is_taken answer"
      using cond by blast
    then show "machine_chained decode m'"
    proof cases
      case commit
      then show ?thesis
        using chained_commit [OF ch inp] unfolding machine_chained_def inm'
        by (simp add: m' end_seq_counts take_request_def)
    next
      case steal
      then have "m_escaped m' = insert ?k (m_escaped m)" "cl_wire (m_client m') = cl_wire ?c @ [p_request p]"
        "holder_at (cl_seq (m_client m')) = (holder_at (cl_seq ?c))(?k := None)"
        "count_at (cl_seq (m_client m')) =
           (count_at (cl_seq ?c))(?k := count_at (cl_seq (m_client m')) ?k)"
        by (simp_all add: m' end_seq_counts take_request_def fun_eq_iff)
      then show ?thesis
        using chained_steal [OF ch inp, of "count_at (cl_seq (m_client m')) ?k"]
        unfolding machine_chained_def inm' by metis
    next
      case drop
      then have "m_escaped m' = (if esc then insert ?k (m_escaped m) else m_escaped m)"
        "cl_wire (m_client m') = cl_wire ?c"
        "holder_at (cl_seq (m_client m')) = (holder_at (cl_seq ?c))(?k := None)"
        "count_at (cl_seq (m_client m')) = (count_at (cl_seq ?c))(?k := saved_count (p_res p))"
        using restore by (simp_all add: m' end_seq_counts)
      note fields = this
      have "p_stage p = SecondBirth \<Longrightarrow> ?k \<in> m_escaped m'" "m_escaped m \<subseteq> m_escaped m'"
        using drop(1) cond(3) by (auto simp: fields(1))
      then show ?thesis
        using chained_drop [OF ch inp, of "m_escaped m'"]
        unfolding machine_chained_def inm' fields(2-4) by blast
    qed
  qed (use inv in \<open>auto simp: m' take_request_def machine_inv_def\<close>)
qed

lemma second_inv:
  fixes m m' :: "'x machine"
  assumes inv: "machine_inv decode m" and law: "reads_seq decode encode"
    and p: "m_tasks m i = Some (AwaitClient p)"
    and second: "second_message (m_client m) p = Some (topic, payload)"
    and next_s: "next_seq (p_res p) (cl_seq (m_client m)) = (s, seqs)"
    and m': "m' = hand_over encode i (p_call p) SecondBirth (p_res p) topic (payload s)
          ((take_request p (m_client m))\<lparr>cl_delivery := st, cl_seq := seqs\<rparr>) m"
  shows "machine_inv decode m'"
proof -
  let ?c = "m_client m" and ?k = "p_key p"
  let ?c' = "(take_request p ?c)\<lparr>cl_delivery := st, cl_seq := seqs\<rparr>"
  have ch: "chained decode (count_at (cl_seq ?c)) (holder_at (cl_seq ?c)) (in_client m) (cl_wire ?c)
      (m_escaped m)" and ids: "client_ids_ok ?c"
    using inv by (simp_all add: machine_inv_def machine_chained_def)
  have inp: "in_client m i = Some p" by (simp add: in_client_iff p)
  have cl_ok: "call_ok (p_call p)" using machine_inv_call [OF inv p] by simp
  obtain en where en: "edge_node ?c = Some en" and wf: "well_formed topic"
    and mt: "topic_message_type topic = DBIRTH" and key: "topic_key topic = Some (birth_key en)"
    and stg: "p_stage p = FirstBirth" and pay: "payload_seq (payload s) = Some (ucast s)"
    using second_message_ok [OF second ids cl_ok] by blast
  have k: "?k = birth_key en"
    using machine_inv_own [OF inv p] stg en by (auto simp: births_own_def)
  have adv: "s = count_at (cl_seq ?c) ?k + 1" "count_at seqs = (count_at (cl_seq ?c))(?k := s)"
    "holder_at seqs = holder_at (cl_seq ?c)"
    using sc.advance_adds [OF next_s] by auto
  let ?q = "\<lparr>p_call = p_call p, p_stage = SecondBirth, p_res = p_res p,
    p_guard = fst (count_publish (wire_options (role ?c') (topic_message_type topic)) (cl_delivery ?c')),
    p_request = message_request ?c' topic (encode (payload s))\<rparr>"
  have inm': "in_client m' = (in_client m)(i := Some ?q)"
    by (rule in_client_tasks(1)) (simp add: m' hand_over_simps)
  show ?thesis
  proof (rule machine_invI [OF inv, where i = i])
    have reading: "wire_reading decode (p_request ?q) =
        Some (?k, DBIRTH, Some (ucast (count_at (cl_seq ?c) ?k + 1)))"
      using wire_reading_message [OF wf key] law pay by (simp add: mt k reads_seq_def adv(1))
    have "chained decode ((count_at (cl_seq ?c))(?k := count_at (cl_seq ?c) ?k + 1))
        (holder_at (cl_seq ?c)) ((in_client m)(i := Some ?q)) (cl_wire ?c @ [p_request p]) (m_escaped m)"
      by (rule chained_second [OF ch inp stg]) (use reading in simp_all)
    then show "machine_chained decode m'"
      unfolding machine_chained_def inm'
      using adv by (simp add: m' hand_over_simps take_request_def)
  qed (use inv cl_ok in \<open>auto simp: m' hand_over_simps take_request_def machine_inv_def births_own_def\<close>)
qed

lemma second_message_take [simp]: "second_message (take_request p c) = second_message c"
  by (simp add: take_request_def)

text \<open>The answer that ends a call.\<close>

lemma answered_ends_eq:
  assumes "\<not> is_taken answer \<or> second_message (m_client m) p = None"
  shows "answered encode i p answer m =
      mark_escaped (p_stage p = SecondBirth \<and> \<not> is_taken answer) (p_key p)
        (finish i (answer_outcome answer) (end_reservation (answer_outcome answer) (p_res p)
          ((if is_taken answer then take_request p (m_client m) else m_client m)
             \<lparr>cl_delivery := snd (settle_publish (p_guard p) answer
                (cl_delivery (if is_taken answer then take_request p (m_client m) else m_client m)))\<rparr>)) m)"
  using assms by (cases answer) (auto simp: answered_def settle_eq Let_def split: option.split)

lemma answered_inv:
  fixes m :: "'x machine" and answer :: "'x client_answer"
  assumes inv: "machine_inv decode m" and law: "reads_seq decode encode"
    and p: "m_tasks m i = Some (AwaitClient p)"
  shows "machine_inv decode (answered encode i p answer m)"
proof (cases "is_taken answer \<and> second_message (m_client m) p \<noteq> None")
  case True
  then obtain topic payload where second: "second_message (m_client m) p = Some (topic, payload)"
    by auto
  obtain s seqs where next_s: "next_seq (p_res p) (cl_seq (m_client m)) = (s, seqs)"
    by (cases "next_seq (p_res p) (cl_seq (m_client m))")
  have "cl_seq (take_request p (m_client m)) = cl_seq (m_client m)" by (simp add: take_request_def)
  with True second next_s show ?thesis
    by (intro second_inv [OF inv law p second next_s])
       (simp add: answered_def settle_eq is_taken_iff Let_def)
next
  case False
  then have "\<not> is_taken answer \<or> second_message (m_client m) p = None" by blast
  from answered_ends_eq [OF this, of encode i] show ?thesis
    by (rule ended_inv [OF inv p]) auto
qed

lemma stolen_inv:
  assumes inv: "machine_inv decode m" and p: "m_tasks m i = Some (AwaitClient p)"
  shows "machine_inv decode (stolen i p m)"
proof (rule ended_inv [OF inv p, where answer = Cancelled and w = True and esc = True])
  show "stolen i p m = mark_escaped True (p_key p) (finish i (answer_outcome Cancelled)
          (end_reservation (answer_outcome (Cancelled :: 'a client_answer)) (p_res p)
            ((if True then take_request p (m_client m) else m_client m)
               \<lparr>cl_delivery := snd (settle_publish (p_guard p) (Cancelled :: 'a client_answer)
                  (cl_delivery (take_request p (m_client m))))\<rparr>)) m)"
    by (simp add: stolen_def settle_eq)
qed simp_all

lemma machine_step_inv:
  assumes inv: "machine_inv decode m" and law: "reads_seq decode encode"
    and step: "machine_step encode act m = Some m'"
  shows "machine_inv decode m'"
proof (cases act)
  case (Start i cl)
  with step have none: "m_tasks m i = None" and ok: "call_ok cl"
    and m': "m' = m\<lparr>m_tasks := (m_tasks m)(i \<mapsto> AwaitGate cl)\<rparr>" by (auto split: if_splits)
  have "in_client m' = in_client m"
    using none by (simp add: m' in_client_update(2) pending_update_None in_client_gate)
  then show ?thesis
    using inv ok by (intro machine_invI [OF inv, where i = i])
      (auto simp: m' machine_inv_def machine_chained_def)
next
  case (Enter i)
  with step inv law show ?thesis by (auto split: option.splits task.splits intro: enter_inv)
next
  case (Answer i answer)
  with step inv law show ?thesis by (auto split: option.splits task.splits intro: answered_inv)
next
  case (Steal i)
  with step inv show ?thesis by (auto split: option.splits task.splits intro: stolen_inv)
next
  case (Leave i)
  with step obtain cl where gate: "m_tasks m i = Some (AwaitGate cl)"
    and m': "m' = finish i None (m_client m) m" by (auto split: option.splits task.splits)
  have "in_client m' = in_client m"
    using in_client_tasks(3) [of m' m i] gate by (simp add: m' pending_update_None in_client_gate)
  then show ?thesis
    using inv by (intro machine_invI [OF inv, where i = i])
      (auto simp: m' machine_inv_def machine_chained_def)
next
  case (Poll e)
  with step have m': "m' = m\<lparr>m_client := poll e (m_client m)\<rparr>" by simp
  have same: "births_own (poll e (m_client m)) = births_own (m_client m)"
    "client_ids_ok (poll e (m_client m)) = client_ids_ok (m_client m)"
    by (simp_all add: poll_def)
  show ?thesis
    using inv by (simp add: m' machine_inv_def machine_chained_def same) (simp add: poll_def)
qed


interpretation publish_machine: machine_invariant "machine_step encode"
    "\<lambda>m. reads_seq decode encode \<longrightarrow> machine_inv decode m" for encode decode
  by unfold_locales (auto intro: machine_step_inv)

lemma machine_init_simps [simp]:
  "m_client (machine_init c) = c" "m_tasks (machine_init c) = Map.empty"
  "m_results (machine_init c) = []" "m_escaped (machine_init c) = {}"
  "in_client (machine_init c) = (\<lambda>_. None)"
  by (simp_all add: machine_init_def in_client_def fun_eq_iff)

lemma machine_inv_init:
  assumes "fresh_client c"
  shows "machine_inv decode (machine_init c)"
proof -
  have fresh: "cl_seq c = SeqCounters_new" "cl_wire c = []" "client_ids_ok c"
    using assms by (auto simp: fresh_client_def client_ids_ok_def split: option.splits)
  have "count_at (cl_seq c) = (\<lambda>_. 0)" "holder_at (cl_seq c) = (\<lambda>_. None)"
    unfolding fresh(1) by (simp_all add: fun_eq_iff [where g = "\<lambda>_. _"])
  then show ?thesis
    using chained_init fresh(2,3) by (simp add: machine_inv_def machine_chained_def)
qed

lemma machine_run_inv:
  assumes "fresh_client c" and "reads_seq decode encode"
    and "run (machine_step encode) acts (machine_init c) = Some m"
  shows "machine_inv decode m"
proof -
  have "reads_seq decode encode \<longrightarrow> machine_inv decode m"
    by (rule publish_machine.run_inv [OF _ assms(3)]) (simp add: machine_inv_init [OF assms(1)])
  with assms(2) show ?thesis by simp
qed

text \<open>The numbers on the wire, the gates, and the tasks that wait, in terms of the invariant.\<close>

lemma inv_follow:
  assumes "machine_inv decode m" and "k \<notin> m_escaped m"
  shows "follow 0 (seq_stream decode k (cl_wire (m_client m))) =
    Some (last_sent (count_at (cl_seq (m_client m))) (holder_at (cl_seq (m_client m))) (in_client m) k)"
  using assms(1) unfolding machine_inv_def machine_chained_def
  by (elim conjE) (rule chained_follow [OF _ assms(2)])

lemma inv_unique:
  assumes "machine_inv decode m" and "m_tasks m i = Some (AwaitClient p)"
    and "m_tasks m j = Some (AwaitClient q)" and "p_key p = p_key q"
  shows "i = j"
  using assms unfolding machine_inv_def machine_chained_def in_client_iff [symmetric]
  by (blast intro: chained_unique)

lemma inv_holder:
  assumes "machine_inv decode m"
  shows "holder_at (cl_seq (m_client m)) k = Some i \<longleftrightarrow>
    (\<exists>p. m_tasks m i = Some (AwaitClient p) \<and> p_key p = k)"
proof
  assume "holder_at (cl_seq (m_client m)) k = Some i"
  then have "\<exists>p. in_client m i = Some p \<and> p_key p = k"
    using assms by (auto simp: machine_inv_def machine_chained_def intro: chained_holder)
  then show "\<exists>p. m_tasks m i = Some (AwaitClient p) \<and> p_key p = k" by (simp add: in_client_iff)
next
  assume "\<exists>p. m_tasks m i = Some (AwaitClient p) \<and> p_key p = k"
  then show "holder_at (cl_seq (m_client m)) k = Some i"
    using assms by (auto simp: machine_inv_def dest: pending_fields(1))
qed

lemma enter_None:
  assumes "enter encode i cl (m :: 'x machine) = None"
  obtains topic k q where "call_topic (m_client m) cl = (Inr topic :: 'x SparkplugError + _)"
    "topic_key topic = Some k" "holder_at (cl_seq (m_client m)) k = Some q"
  using assms
  by (auto simp: enter_def Let_def reserve_seq_eq draw_key_def
      split: sum.splits option.splits prod.splits)

lemma enter_free:
  assumes "call_topic (m_client m) cl = (Inr topic :: 'x SparkplugError + _)"
    and "topic_key topic = Some k" and "holder_at (cl_seq (m_client m)) k = None"
  shows "enter encode i cl (m :: 'x machine) \<noteq> None"
  using assms by (auto simp: enter_def Let_def reserve_seq_eq draw_key_def)

text \<open>
  A step after which no number escaped: no call is cancelled in the instant the
  client takes its message, and no birth ends between its two messages.
\<close>

fun calm_action :: "('x, 'e) action \<Rightarrow> 'x machine \<Rightarrow> bool" where
  "calm_action (Steal _) m \<longleftrightarrow> False"
| "calm_action (Answer i answer) m \<longleftrightarrow>
     is_taken answer \<or>
     (case m_tasks m i of Some (AwaitClient p) \<Rightarrow> p_stage p \<noteq> SecondBirth | _ \<Rightarrow> True)"
| "calm_action _ m \<longleftrightarrow> True"

definition calm_step ::
    "(Payload \<Rightarrow> u8 list) \<Rightarrow> ('x, 'e) action \<Rightarrow> 'x machine \<Rightarrow> 'x machine option" where
  "calm_step encode act m = (if calm_action act m then machine_step encode act m else None)"

lemma second_message_publisher: "edge_node c = None \<Longrightarrow> second_message c p = None"
  by (simp add: second_message_def split: stage.split call.split)

lemma step_edge_node:
  assumes "machine_step encode act m = Some m'"
  shows "edge_node (m_client m') = edge_node (m_client m)"
  using assms
  by (cases act)
     (auto simp: enter_def answered_def stolen_def settle_eq hand_over_simps take_request_def poll_def
        end_reservation_def reserve_seq_eq Let_def
        split: if_splits option.splits task.splits sum.splits prod.splits)


lemma calm_step_escaped:
  assumes "calm_step encode act m = Some m'"
  shows "m_escaped m' = m_escaped m"
proof -
  have act: "calm_action act m" and step: "machine_step encode act m = Some m'"
    using assms by (simp_all add: calm_step_def split: if_splits)
  show ?thesis
  proof (cases act)
    case (Enter i)
    with step show ?thesis
      by (auto simp: enter_def Let_def hand_over_simps
          split: option.splits task.splits sum.splits prod.splits)
  next
    case (Answer i answer)
    with step obtain p where p: "m_tasks m i = Some (AwaitClient p)"
      and m': "m' = answered encode i p answer m" by (auto split: option.splits task.splits)
    have "\<not> (p_stage p = SecondBirth \<and> \<not> is_taken answer)" using act p by (auto simp: Answer)
    then show ?thesis
      by (auto simp: m' answered_def settle_eq Let_def hand_over_simps
          split: option.splits sum.splits prod.splits)
  qed (use step act in \<open>auto split: if_splits option.splits task.splits\<close>)
qed

lemma calm_run_machine:
  assumes "run (calm_step encode) acts m = Some m'"
  shows "run (machine_step encode) acts m = Some m' \<and> m_escaped m' = m_escaped m"
  using assms
proof (induction acts arbitrary: m)
  case Nil
  then show ?case by simp
next
  case (Cons act acts)
  from Cons.prems obtain n where step: "calm_step encode act m = Some n"
    and rest: "run (calm_step encode) acts n = Some m'" by (auto split: option.splits)
  moreover from step have "machine_step encode act m = Some n" by (simp add: calm_step_def split: if_splits)
  ultimately show ?case using Cons.IH [OF rest] calm_step_escaped [OF step] by simp
qed


section \<open>Waiting for a gate\<close>

text \<open>What an answer does to the gates and the other tasks.\<close>

lemma answered_ends:
  assumes "\<not> is_taken answer \<or> second_message (m_client m) p = None"
  shows "m_tasks (answered encode i p answer m) = (m_tasks m)(i := None)"
    "holder_at (cl_seq (m_client (answered encode i p answer m))) =
       (holder_at (cl_seq (m_client m)))(p_key p := None)"
    "cl_namespace (m_client (answered encode i p answer m)) = cl_namespace (m_client m)"
  unfolding answered_ends_eq [OF assms]
  by (simp_all add: end_seq_counts take_request_def)

lemma call_topic_cong:
  assumes "edge_node c = edge_node c'" and "cl_namespace c = cl_namespace c'"
  shows "call_topic c cl = call_topic c' cl"
  using assms by (cases cl) (simp_all split: option.split)

lemma answered_second:
  assumes "second_message (m_client m) p \<noteq> None"
  shows "\<exists>q. m_tasks (answered encode i p Taken m) i = Some (AwaitClient q) \<and> p_stage q = SecondBirth"
  using assms by (auto simp: answered_def settle_eq Let_def hand_over_simps split: prod.split)

lemma second_message_stage: "second_message c p \<noteq> None \<Longrightarrow> p_stage p = FirstBirth"
  by (auto simp: second_message_def split: stage.splits)

lemma births_own_second: "births_own c p \<Longrightarrow> p_stage p = FirstBirth \<Longrightarrow> second_message c p \<noteq> None"
  by (auto simp: births_own_def second_message_def)


section \<open>A codec for the witnesses\<close>

text \<open>A payload encoding that carries the number alone, and its reading.\<close>

definition unary_encode :: "Payload \<Rightarrow> u8 list" where
  "unary_encode p =
     (case payload_seq p of None \<Rightarrow> [] | Some s \<Rightarrow> replicate (Suc (unat s)) 0)"

definition unary_decode :: "u8 list \<Rightarrow> u64 option" where
  "unary_decode bs = (case bs of [] \<Rightarrow> None | b # rest \<Rightarrow> Some (word_of_nat (length rest)))"

lemma unary_reads: "reads_seq unary_decode unary_encode"
  by (auto simp: reads_seq_def unary_encode_def unary_decode_def split: option.split)


section \<open>Properties\<close>

text \<open>
  C1. The numbers on the wire: however publish calls, births, refusals,
  cancellations, the cancellation window and the events of the loop interleave
  on one client, for every edge node of which no number escaped, the messages
  the client took carry 0 on each NBIRTH and one more than the message before
  on every other, modulo 256, and the last of them is the number the counters
  go on from: the count itself while the gate is free, and what the pending
  message's reservation started from while it is held.
\<close>

theorem wire_numbers_follow:
  assumes "fresh_client c" and "reads_seq decode encode"
    and "run (machine_step encode) acts (machine_init c) = Some m" and "k \<notin> m_escaped m"
  shows "follow 0 (seq_stream decode k (cl_wire (m_client m))) =
    Some (last_sent (count_at (cl_seq (m_client m))) (holder_at (cl_seq (m_client m))) (in_client m) k)"
  by (rule inv_follow [OF machine_run_inv [OF assms(1-3)] assms(4)])

lemma idle_client_fresh:
  "fresh_client (idle_client ''spBv1.0'' IdentityPublisher)"
  "fresh_client (idle_client ''spBv1.0''
     (IdentityEdgeNode \<lparr>owned_group = ''g'', owned_edge_node_id = ''n''\<rparr>))"
  by (simp_all add: fresh_client_def idle_client_def edge_node_def is_usable_segment_iff
      edge_node_usable_def of_owned_def EdgeNode_new_def)

text \<open>A run for the witnesses: two tasks of one edge node, the second behind the first.\<close>

definition two_publishes :: "(unit, unit) action list" where
  "two_publishes =
     (let topic = ddata sparkplug_b (GroupId ''g'') (EdgeNodeId ''n'') (DeviceId ''d'')
      in [Start 0 (CallMetrics topic [] (Timestamp 0)), Start 1 (CallMetrics topic [] (Timestamp 0)),
          Enter 0, Answer 0 Taken, Enter 1])"

definition end_state :: "(unit, unit) action list \<Rightarrow> Identity \<Rightarrow> unit machine option" where
  "end_state acts identity =
     run (machine_step unary_encode) acts (machine_init (idle_client ''spBv1.0'' identity))"

theorem wire_numbers_follow_witness:
  "\<exists>m. end_state two_publishes IdentityPublisher = Some m \<and>
     follow 0 (seq_stream unary_decode ''g/n'' (cl_wire (m_client m))) = Some 1"
proof -
  have "case end_state two_publishes IdentityPublisher of None \<Rightarrow> False
    | Some m \<Rightarrow> ''g/n'' \<notin> m_escaped m \<and>
       last_sent (count_at (cl_seq (m_client m))) (holder_at (cl_seq (m_client m))) (in_client m) ''g/n'' = 1"
    by code_simp
  then obtain m where m: "end_state two_publishes IdentityPublisher = Some m" "''g/n'' \<notin> m_escaped m"
    and last: "last_sent (count_at (cl_seq (m_client m))) (holder_at (cl_seq (m_client m)))
      (in_client m) ''g/n'' = 1"
    by (auto split: option.splits)
  from wire_numbers_follow [OF idle_client_fresh(1) unary_reads m(1) [unfolded end_state_def] m(2)] m(1) last
  show ?thesis by simp
qed


text \<open>
  C2. A calm run shows no gap: where no call is cancelled in the instant the client
  takes its message, and every birth whose NBIRTH is taken has its DBIRTH taken
  too, the numbers on the wire follow each other without a gap for every edge
  node. Any other message may be refused and any other wait cancelled, the wait
  for a gate or for an NBIRTH included, in either role, whatever the loop polls.
\<close>

theorem calm_runs_show_no_gap:
  assumes "fresh_client c" and "reads_seq decode encode"
    and "run (calm_step encode) acts (machine_init c) = Some m"
  shows "\<exists>n. follow 0 (seq_stream decode k (cl_wire (m_client m))) = Some n"
proof -
  from calm_run_machine [OF assms(3)] have "run (machine_step encode) acts (machine_init c) = Some m"
    and "k \<notin> m_escaped m" by simp_all
  from inv_follow [OF machine_run_inv [OF assms(1,2) this(1)] this(2)] show ?thesis by blast
qed

text \<open>An edge node client whose NBIRTH is cancelled, whose data is refused, and whose birth then goes out.\<close>

definition calm_births :: "(unit, unit) action list" where
  "calm_births =
     (let data = CallMetrics (ddata sparkplug_b (GroupId ''g'') (EdgeNodeId ''n'') (DeviceId ''d'')) [] (Timestamp 0);
          birth = CallBirth (DeviceId ''d'') (Timestamp 0)
      in [Start 0 birth, Start 1 data, Enter 0, Answer 0 Cancelled, Enter 1, Answer 1 (RefusedBy ()),
          Start 0 birth, Enter 0, Answer 0 Taken, Answer 0 Taken, Start 1 data, Enter 1, Answer 1 Taken])"

theorem calm_runs_show_no_gap_witness:
  "\<exists>m. run (calm_step unary_encode) calm_births
       (machine_init (idle_client ''spBv1.0''
          (IdentityEdgeNode \<lparr>owned_group = ''g'', owned_edge_node_id = ''n''\<rparr>))) = Some m \<and>
     length (cl_wire (m_client m)) = 3 \<and>
     (\<exists>n. follow 0 (seq_stream unary_decode ''g/n'' (cl_wire (m_client m))) = Some n)"
proof -
  let ?c = "idle_client ''spBv1.0'' (IdentityEdgeNode \<lparr>owned_group = ''g'', owned_edge_node_id = ''n''\<rparr>)"
  have "case run (calm_step unary_encode) calm_births (machine_init ?c) of None \<Rightarrow> False
    | Some m \<Rightarrow> length (cl_wire (m_client m)) = 3"
    by code_simp
  then obtain m where m: "run (calm_step unary_encode) calm_births (machine_init ?c) = Some m"
    and len: "length (cl_wire (m_client m)) = 3"
    by (auto split: option.splits)
  from calm_runs_show_no_gap [OF idle_client_fresh(2) unary_reads m] m len show ?thesis by blast
qed

text \<open>
  C3. A gate is held by its message: in every reachable state, the gate of an
  edge node is held by a task exactly if this task has a message of the edge
  node at the client. So no two messages of one edge node are ever under way
  together, and no ended, refused or cancelled call leaves its gate behind.
\<close>

theorem gate_held_by_its_message:
  assumes "fresh_client c" and "reads_seq decode encode"
    and "run (machine_step encode) acts (machine_init c) = Some m"
  shows "holder_at (cl_seq (m_client m)) k = Some i \<longleftrightarrow>
    (\<exists>p. m_tasks m i = Some (AwaitClient p) \<and> p_key p = k)"
  by (rule inv_holder [OF machine_run_inv [OF assms]])

theorem gate_held_by_its_message_witness:
  "\<exists>m. end_state two_publishes IdentityPublisher = Some m \<and>
     holder_at (cl_seq (m_client m)) ''g/n'' = Some 1 \<and> holder_at (cl_seq (m_client m)) ''g/n'' \<noteq> Some 0"
proof -
  have "case end_state two_publishes IdentityPublisher of None \<Rightarrow> False
    | Some m \<Rightarrow> (case m_tasks m 1 of Some (AwaitClient p) \<Rightarrow> p_key p = ''g/n'' | _ \<Rightarrow> False)"
    by code_simp
  then obtain m p where m: "end_state two_publishes IdentityPublisher = Some m"
    and p: "m_tasks m 1 = Some (AwaitClient p)" "p_key p = ''g/n''"
    by (auto split: option.splits task.splits)
  from gate_held_by_its_message [OF idle_client_fresh(1) unary_reads m [unfolded end_state_def],
      of "''g/n''" 1] p have "holder_at (cl_seq (m_client m)) ''g/n'' = Some 1" by simp
  with m show ?thesis by simp
qed

text \<open>What an answer does for a call that waits for the gate of the answered message.\<close>

lemma answer_lets_in:
  fixes m :: "'x machine"
  assumes inv: "machine_inv decode m" and waits: "m_tasks m i = Some (AwaitGate cl)"
    and topic: "call_topic (m_client m) cl = (Inr topic :: 'x SparkplugError + SparkplugTopic)"
    and key: "topic_key topic = Some k"
    and p: "m_tasks m j = Some (AwaitClient p)" "p_key p = k"
  shows "m_tasks (answered encode j p answer m) i = Some (AwaitGate cl) \<and>
    (if p_stage p = FirstBirth \<and> is_taken answer
     then \<exists>q. m_tasks (answered encode j p answer m) j = Some (AwaitClient q) \<and> p_stage q = SecondBirth
     else machine_step encode (Enter i :: ('x, 'e) action) (answered encode j p answer m) \<noteq> None)"
proof -
  have ji: "j \<noteq> i" using waits p(1) by auto
  have second: "second_message (m_client m) p \<noteq> None \<longleftrightarrow> p_stage p = FirstBirth"
    using births_own_second [OF machine_inv_own [OF inv p(1)]] second_message_stage by blast
  show ?thesis
  proof (cases "p_stage p = FirstBirth \<and> is_taken answer")
    case True
    then have "second_message (m_client m) p \<noteq> None" "answer = Taken"
      using second by (simp_all add: is_taken_iff)
    moreover from this have "m_tasks (answered encode j p answer m) i = m_tasks m i"
      using ji by (auto simp: answered_def settle_eq Let_def hand_over_simps split: prod.split)
    ultimately show ?thesis using True waits answered_second [of m p encode j] by simp
  next
    case False
    then have "\<not> is_taken answer \<or> second_message (m_client m) p = None" using second by blast
    note ends = answered_ends [OF this, of encode j]
    let ?m1 = "answered encode j p answer m"
    have same: "edge_node (m_client ?m1) = edge_node (m_client m)"
      by (rule step_edge_node [where act = "Answer j answer" and encode = encode]) (simp add: p(1))
    have waits1: "m_tasks ?m1 i = Some (AwaitGate cl)" using ends(1) ji waits by simp
    have "call_topic (m_client ?m1) cl = (Inr topic :: 'x SparkplugError + _)"
      unfolding call_topic_cong [OF same ends(3)] by (rule topic)
    moreover have "holder_at (cl_seq (m_client ?m1)) k = None" using ends(2) p(2) by simp
    ultimately have "enter encode i cl ?m1 \<noteq> None" using key by (intro enter_free)
    with waits1 have "machine_step encode (Enter i :: ('x, 'e) action) ?m1 \<noteq> None" by simp
    with waits1 False show ?thesis by (simp only: if_not_P not_False_eq_True simp_thms)
  qed
qed

fun is_ok :: "'x outcome \<Rightarrow> bool" where
  "is_ok (Some (Inr _)) \<longleftrightarrow> True"
| "is_ok _ \<longleftrightarrow> False"

definition ok_results :: "'x machine \<Rightarrow> nat" where
  "ok_results m = length (filter (\<lambda>(_, r). is_ok r) (m_results m))"

fun is_steal :: "('x, 'e) action \<Rightarrow> bool" where
  "is_steal (Steal _) \<longleftrightarrow> True"
| "is_steal _ \<longleftrightarrow> False"

lemma step_ok_results:
  assumes step: "machine_step encode act m = Some m'"
    and publisher: "edge_node (m_client m) = None"
  shows "length (cl_wire (m_client m')) + ok_results m =
    length (cl_wire (m_client m)) + ok_results m' + of_bool (is_steal act)"
proof (cases act)
  case (Enter i)
  with step show ?thesis
    by (auto simp: ok_results_def enter_def Let_def hand_over_simps reserve_seq_eq
        split: option.splits task.splits sum.splits prod.splits)
next
  case (Answer i answer)
  with step obtain p where m': "m' = answered encode i p answer m"
    by (auto split: option.splits task.splits)
  have "\<not> is_taken answer \<or> second_message (m_client m) p = None"
    by (simp add: second_message_publisher publisher)
  from answered_ends_eq [OF this, of encode i] Answer show ?thesis
    by (cases answer) (simp_all add: m' ok_results_def take_request_def)
next
  case (Steal i)
  with step obtain p where "m' = stolen i p m" by (auto split: option.splits task.splits)
  with Steal show ?thesis by (simp add: stolen_def settle_eq ok_results_def take_request_def)
qed (use step in \<open>auto simp: ok_results_def poll_def split: if_splits option.splits task.splits\<close>)

lemma run_ok_results:
  assumes "run (machine_step encode) acts m = Some m'" and "edge_node (m_client m) = None"
  shows "length (cl_wire (m_client m')) + ok_results m =
    length (cl_wire (m_client m)) + ok_results m' + length (filter is_steal acts)"
  using assms
proof (induction acts arbitrary: m)
  case Nil
  then show ?case by simp
next
  case (Cons act acts)
  from Cons.prems(1) obtain m1 where step: "machine_step encode act m = Some m1"
    and rest: "run (machine_step encode) acts m1 = Some m'" by (auto split: option.splits)
  have "edge_node (m_client m1) = None" using Cons.prems(2) step_edge_node [OF step] by simp
  from Cons.IH [OF rest this] step_ok_results [OF step Cons.prems(2)] show ?case
    by (auto simp: of_bool_def split: if_splits)
qed

text \<open>
  C8. A call answers \<open>Ok\<close> exactly for what the client took, but for the
  cancellation window: on a publisher client, in every reachable state, the
  messages on the wire are as many as the calls that returned \<open>Ok\<close> and the calls
  that were cancelled in the instant the client took their message.
\<close>

theorem ok_results_match_wire:
  assumes "fresh_client c" and "edge_node c = None"
    and "run (machine_step encode) acts (machine_init c) = Some m"
  shows "length (cl_wire (m_client m)) = ok_results m + length (filter is_steal acts)"
  using run_ok_results [OF assms(3)] assms(1,2) by (simp add: fresh_client_def ok_results_def)

text \<open>One call of each end: taken, refused, cancelled before and cancelled as the client takes it.\<close>

definition four_ends :: "(unit, unit) action list" where
  "four_ends =
     (let data = CallMetrics (ddata sparkplug_b (GroupId ''g'') (EdgeNodeId ''n'') (DeviceId ''d'')) [] (Timestamp 0)
      in [Start 0 data, Start 1 data, Start 2 data, Start 3 data, Enter 0, Answer 0 Taken, Enter 1,
          Answer 1 (RefusedBy ()), Enter 2, Answer 2 Cancelled, Enter 3, Steal 3])"

theorem ok_results_match_wire_witness:
  "\<exists>m. end_state four_ends IdentityPublisher = Some m \<and> length (m_results m) = 4 \<and>
     length (cl_wire (m_client m)) = 2 \<and> ok_results m = 1"
proof -
  have "case end_state four_ends IdentityPublisher of None \<Rightarrow> False
    | Some m \<Rightarrow> length (m_results m) = 4 \<and> ok_results m = 1" by code_simp
  then obtain m where m: "end_state four_ends IdentityPublisher = Some m"
    and shown: "length (m_results m) = 4" "ok_results m = 1"
    by (auto split: option.splits)
  have "edge_node (idle_client ''spBv1.0'' IdentityPublisher) = None"
    by (simp add: edge_node_def idle_client_def)
  from ok_results_match_wire [OF idle_client_fresh(1) this m [unfolded end_state_def]] m shown
  show ?thesis by (simp add: four_ends_def Let_def)
qed

end
