(* ===== verification/Calls_End.thy ===== *)
theory Calls_End
  imports Publish_Machine "HOL-Library.Multiset"
begin

text \<open>
  Every publish call ends: the steps of the calls that have started cannot go on
  for ever, and where no call can make a step, none is left. The measure counts
  the waits a call still has before it; the multiset of the calls under way and
  the calls that returned stays the same, so each call returns exactly once.
\<close>

section \<open>Steps of the calls\<close>

text \<open>
  A step of a call that has started: it passes its gate, the client answers its
  message, or it is cancelled at one of its two waits.
\<close>

inductive call_step :: "(Payload \<Rightarrow> u8 list) \<Rightarrow> 'x machine \<Rightarrow> 'x machine \<Rightarrow> bool" for encode where
  Enters: "m_tasks m i = Some (AwaitGate cl) \<Longrightarrow> enter encode i cl m = Some m' \<Longrightarrow> call_step encode m m'"
| Answered: "m_tasks m i = Some (AwaitClient p) \<Longrightarrow> call_step encode m (answered encode i p answer m)"
| Stolen: "m_tasks m i = Some (AwaitClient p) \<Longrightarrow> call_step encode m (stolen i p m)"
| Leaves: "m_tasks m i = Some (AwaitGate cl) \<Longrightarrow> call_step encode m (finish i None (m_client m) m)"

inductive_cases call_stepE: "call_step encode m m'"

fun of_call :: "('x, 'e) action \<Rightarrow> bool" where
  "of_call (Start _ _) \<longleftrightarrow> False"
| "of_call (Poll _) \<longleftrightarrow> False"
| "of_call _ \<longleftrightarrow> True"

lemma call_step_of_action:
  assumes "of_call act" and "machine_step encode act m = Some m'"
  shows "call_step encode m m'"
  using assms by (cases act) (auto intro: call_step.intros split: option.splits task.splits)

text \<open>The waits a task has before it, the one it is in included.\<close>

fun waits_left :: "task \<Rightarrow> nat" where
  "waits_left (AwaitGate (CallMetrics _ _ _)) = 2"
| "waits_left (AwaitGate (CallBirth _ _)) = 3"
| "waits_left (AwaitClient p) = (if p_stage p = FirstBirth then 2 else 1)"

definition all_waits :: "'x machine \<Rightarrow> nat" where
  "all_waits m = (\<Sum>i\<in>dom (m_tasks m). waits_left (the (m_tasks m i)))"

text \<open>The calls under way, and the calls that returned.\<close>

definition calls_of :: "'x machine \<Rightarrow> nat multiset" where
  "calls_of m = mset_set (dom (m_tasks m)) + mset (map fst (m_results m))"

lemma waits_left_pos [simp]: "0 < waits_left t"
  by (cases t rule: waits_left.cases) simp_all

lemma waits_left_le: "waits_left t \<le> 3"
  by (cases t rule: waits_left.cases) simp_all

lemma waits_left_first: "waits_left (AwaitGate cl) = (if first_stage cl = FirstBirth then 3 else 2)"
  by (cases cl) simp_all

lemma answered_moves_on:
  assumes "second_message (m_client m) p \<noteq> None"
  shows "\<exists>q. m_tasks (answered encode i p Taken m) = (m_tasks m)(i \<mapsto> AwaitClient q) \<and>
    p_stage q = SecondBirth \<and> m_results (answered encode i p Taken m) = m_results m"
  using assms
  by (auto simp: answered_def settle_eq Let_def hand_over_simps split: prod.split)
     (rule exI, rule conjI, rule refl, simp)

text \<open>A step of a call moves one task on, or ends it.\<close>

lemma call_step_shape:
  fixes m m' :: "'x machine"
  assumes "call_step encode m m'"
  obtains i t where "m_tasks m i = Some t" and
    "(\<exists>result. m_tasks m' = (m_tasks m)(i := None) \<and> m_results m' = m_results m @ [(i, result)]) \<or>
     (\<exists>t'. m_tasks m' = (m_tasks m)(i \<mapsto> t') \<and> waits_left t' < waits_left t \<and> m_results m' = m_results m)"
  using assms
proof (cases rule: call_step.cases)
  case (Enters i cl)
  have "(\<exists>result. m_tasks m' = (m_tasks m)(i := None) \<and> m_results m' = m_results m @ [(i, result)]) \<or>
     (\<exists>t'. m_tasks m' = (m_tasks m)(i \<mapsto> t') \<and> waits_left t' < waits_left (AwaitGate cl) \<and>
       m_results m' = m_results m)"
    using Enters(2)
    by (auto simp: enter_def Let_def hand_over_simps waits_left_first
        split: sum.splits option.splits prod.splits)
  with Enters(1) that show thesis by blast
next
  case (Answered i p answer)
  have "(\<exists>result. m_tasks m' = (m_tasks m)(i := None) \<and> m_results m' = m_results m @ [(i, result)]) \<or>
     (\<exists>t'. m_tasks m' = (m_tasks m)(i \<mapsto> t') \<and> waits_left t' < waits_left (AwaitClient p) \<and>
       m_results m' = m_results m)"
  proof (cases "\<not> is_taken answer \<or> second_message (m_client m) p = None")
    case True
    note ends = answered_ends_eq [OF True, of encode i]
    show ?thesis unfolding Answered(1) ends by simp
  next
    case False
    then have "answer = Taken" and two: "second_message (m_client m) p \<noteq> None"
      by (simp_all add: is_taken_iff)
    moreover have "p_stage p = FirstBirth" using two by (rule second_message_stage)
    ultimately show ?thesis unfolding Answered(1)
      using answered_moves_on [OF two, of encode i] by force
  qed
  with Answered(2) that show thesis by blast
next
  case (Stolen i p)
  then show thesis by (intro that [of i "AwaitClient p"]) (auto simp: stolen_def settle_eq)
next
  case (Leaves i cl)
  then show thesis by (intro that [of i "AwaitGate cl"]) auto
qed


section \<open>No call goes on for ever\<close>

lemma all_waits_end:
  assumes "finite (dom (m_tasks m))" and "m_tasks m i = Some t" and "m_tasks m' = (m_tasks m)(i := None)"
  shows "all_waits m' + waits_left t = all_waits m"
proof -
  have "all_waits m' = (\<Sum>j\<in>dom (m_tasks m) - {i}. waits_left (the (m_tasks m j)))"
    unfolding all_waits_def assms(3) by (rule sum.cong) auto
  moreover have "i \<in> dom (m_tasks m)" using assms(2) by auto
  ultimately show ?thesis
    using sum.remove [OF assms(1), of i "\<lambda>j. waits_left (the (m_tasks m j))"] assms(2)
    by (simp add: all_waits_def [of m])
qed

lemma all_waits_move:
  assumes "finite (dom (m_tasks m))" and "m_tasks m i = Some t" and "m_tasks m' = (m_tasks m)(i \<mapsto> t')"
  shows "all_waits m' + waits_left t = all_waits m + waits_left t'"
proof -
  have dom: "dom (m_tasks m') = dom (m_tasks m)" using assms(2,3) by auto
  have i: "i \<in> dom (m_tasks m)" using assms(2) by auto
  have "(\<Sum>j\<in>dom (m_tasks m) - {i}. waits_left (the (m_tasks m' j))) =
      (\<Sum>j\<in>dom (m_tasks m) - {i}. waits_left (the (m_tasks m j)))"
    using assms(3) by (intro sum.cong) auto
  moreover have "m_tasks m' i = Some t'" by (simp add: assms(3))
  ultimately show ?thesis
    unfolding all_waits_def dom
    using sum.remove [OF assms(1) i, of "\<lambda>j. waits_left (the (m_tasks m j))"]
      sum.remove [OF assms(1) i, of "\<lambda>j. waits_left (the (m_tasks m' j))"] assms(2)
    by simp
qed

lemma call_step_falls:
  fixes m m' :: "'x machine"
  assumes "call_step encode m m'" and fin: "finite (dom (m_tasks m))"
  shows "finite (dom (m_tasks m')) \<and> all_waits m' < all_waits m \<and> calls_of m' = calls_of m"
  using assms(1)
proof (rule call_step_shape)
  fix i t
  assume i: "m_tasks m i = Some t" and
    "(\<exists>result. m_tasks m' = (m_tasks m)(i := None) \<and> m_results m' = m_results m @ [(i, result)]) \<or>
     (\<exists>t'. m_tasks m' = (m_tasks m)(i \<mapsto> t') \<and> waits_left t' < waits_left t \<and> m_results m' = m_results m)"
  from this(2) show ?thesis
  proof (elim disjE exE conjE)
    fix result
    assume m': "m_tasks m' = (m_tasks m)(i := None)" "m_results m' = m_results m @ [(i, result)]"
    have "mset_set (dom (m_tasks m)) = add_mset i (mset_set (dom (m_tasks m) - {i}))"
      using fin i by (intro mset_set.remove) auto
    then have "calls_of m' = calls_of m" by (simp add: calls_of_def m')
    moreover have "all_waits m' < all_waits m"
      using all_waits_end [OF fin i m'(1)] waits_left_pos [of t] by linarith
    ultimately show ?thesis using fin by (simp add: m'(1))
  next
    fix t'
    assume m': "m_tasks m' = (m_tasks m)(i \<mapsto> t')" "m_results m' = m_results m"
      and less: "waits_left t' < waits_left t"
    have "dom (m_tasks m') = dom (m_tasks m)" using i by (auto simp: m'(1))
    then have "calls_of m' = calls_of m" "finite (dom (m_tasks m'))"
      using fin by (simp_all add: calls_of_def m'(2))
    with all_waits_move [OF fin i m'(1)] less show ?thesis by simp
  qed
qed

text \<open>The steps of the calls of a machine with finitely many tasks are well-founded.\<close>

lemma call_steps_wf: "wf {(m', m). call_step encode m m' \<and> finite (dom (m_tasks m))}"
  by (rule wf_subset [OF wf_measure [of all_waits]]) (auto dest: call_step_falls)

lemma call_run_falls:
  fixes m m' :: "'x machine"
  assumes "run (machine_step encode) acts m = Some m'" and "list_all of_call acts"
    and "finite (dom (m_tasks m))"
  shows "finite (dom (m_tasks m')) \<and> length acts + all_waits m' \<le> all_waits m \<and> calls_of m' = calls_of m"
  using assms
proof (induction acts arbitrary: m)
  case Nil
  then show ?case by simp
next
  case (Cons act acts)
  from Cons.prems(1) obtain n where step: "machine_step encode act m = Some n"
    and rest: "run (machine_step encode) acts n = Some m'" by (auto split: option.splits)
  have "call_step encode m n" using Cons.prems(2) by (intro call_step_of_action [OF _ step]) simp
  from call_step_falls [OF this Cons.prems(3)] Cons.IH [OF rest] Cons.prems(2) show ?case by simp
qed

lemma all_waits_le: "all_waits m \<le> 3 * card (dom (m_tasks m))"
  using sum_bounded_above [of "dom (m_tasks m)" "\<lambda>i. waits_left (the (m_tasks m i))" 3]
  by (simp add: all_waits_def waits_left_le)


section \<open>No deadlock\<close>

text \<open>
  A step that ends no call early: it passes its gate or the client answers it.
  Where none is possible, no call is left.
\<close>

definition stuck :: "(Payload \<Rightarrow> u8 list) \<Rightarrow> 'x machine \<Rightarrow> bool" where
  "stuck encode m \<longleftrightarrow>
     (\<forall>i. machine_step encode (Enter i :: ('x, unit) action) m = None \<and>
        (\<forall>answer. machine_step encode (Answer i answer :: ('x, unit) action) m = None))"

lemma stuckD:
  fixes m :: "'x machine"
  assumes "stuck encode m"
  shows "machine_step encode (Enter i :: ('x, unit) action) m = None"
    "machine_step encode (Answer i answer :: ('x, unit) action) m = None"
  by (rule assms [unfolded stuck_def, THEN spec, THEN conjunct1])
     (rule assms [unfolded stuck_def, THEN spec, THEN conjunct2, THEN spec])

lemma no_deadlock:
  fixes m :: "'x machine"
  assumes inv: "machine_inv decode m" and "stuck encode m"
  shows "m_tasks m = Map.empty"
proof -
  have idle: "m_tasks m j \<noteq> Some (AwaitClient p)" for j p
  proof
    assume "m_tasks m j = Some (AwaitClient p)"
    then have "machine_step encode (Answer j Taken :: ('x, unit) action) m \<noteq> None" by simp
    with stuckD(2) [OF assms(2)] show False by (rule notE [rotated])
  qed
  have "m_tasks m i = None" for i
  proof (cases "m_tasks m i")
    case (Some t)
    then obtain cl where gate: "m_tasks m i = Some (AwaitGate cl)" using idle by (cases t) auto
    then have "enter encode i cl m = None" using stuckD(1) [OF assms(2), of i] by simp
    then show ?thesis
      by (rule enter_None) (use inv_holder [OF inv] idle in blast)
  qed
  then show ?thesis by (simp add: fun_eq_iff)
qed

lemma step_finite:
  "finite (dom (m_tasks m)) \<Longrightarrow> machine_step encode act m = Some m' \<Longrightarrow> finite (dom (m_tasks m'))"
proof (cases act)
  case (Start i cl)
  assume "finite (dom (m_tasks m))" "machine_step encode act m = Some m'"
  with Start show ?thesis by (auto split: if_splits)
next
  case (Poll e)
  assume "finite (dom (m_tasks m))" "machine_step encode act m = Some m'"
  with Poll show ?thesis by auto
qed (use call_step_falls call_step_of_action of_call.simps in metis)+

interpretation finite_tasks: machine_invariant "machine_step encode" "\<lambda>m. finite (dom (m_tasks m))"
    for encode
  by unfold_locales (rule step_finite)


section \<open>Properties\<close>

text \<open>
  C5. Every call ends: from any reachable state, the calls under way can make at
  most three steps each before all have ended, whatever order they take and
  whatever the client answers; they are never deadlocked, so where no call can go
  on none is left; and then each has returned exactly once.
\<close>

theorem calls_all_end:
  fixes m :: "'x machine" and acts more_acts :: "('x, 'e) action list"
  assumes "fresh_client c" and "reads_seq decode encode"
    and reached: "run (machine_step encode) acts (machine_init c) = Some m"
    and calls: "run (machine_step encode) more_acts m = Some m'" "list_all of_call more_acts"
  shows "length more_acts \<le> 3 * card (dom (m_tasks m)) \<and>
    (stuck encode m' \<longrightarrow>
       m_tasks m' = Map.empty \<and>
       mset (map fst (m_results m')) = mset (map fst (m_results m)) + mset_set (dom (m_tasks m)))"
proof -
  have fin: "finite (dom (m_tasks m))"
    by (rule finite_tasks.run_inv [OF _ reached]) simp
  note falls = call_run_falls [OF calls fin]
  have "run (machine_step encode) (acts @ more_acts) (machine_init c) = Some m'"
    using reached calls(1) by (simp add: run_append)
  then have inv: "machine_inv decode m'" by (rule machine_run_inv [OF assms(1,2)])
  have "m_tasks m' = Map.empty" "mset (map fst (m_results m')) = mset (map fst (m_results m)) + mset_set (dom (m_tasks m))"
    if "stuck encode m'"
    using no_deadlock [OF inv that] falls by (simp_all add: calls_of_def)
  then show ?thesis using falls all_waits_le [of m] by auto
qed

text \<open>Nothing is possible where no task is left.\<close>

lemma stuck_without_tasks: "m_tasks m = Map.empty \<Longrightarrow> stuck encode m"
  by (simp add: stuck_def)

theorem calls_all_end_witness:
  "\<exists>m m'. end_state two_publishes IdentityPublisher = Some m \<and>
     run (machine_step unary_encode) [Answer 1 Taken :: (unit, unit) action] m = Some m' \<and>
     mset (map fst (m_results m')) = {#0, 1#}"
proof -
  have "case end_state two_publishes IdentityPublisher of None \<Rightarrow> False
    | Some m \<Rightarrow>
        (case run (machine_step unary_encode) [Answer 1 Taken :: (unit, unit) action] m of
           None \<Rightarrow> False
         | Some m' \<Rightarrow> map fst (m_results m') = [0, 1])"
    by code_simp
  then obtain m m' where m: "end_state two_publishes IdentityPublisher = Some m"
    and m': "run (machine_step unary_encode) [Answer 1 Taken :: (unit, unit) action] m = Some m'"
    and results: "map fst (m_results m') = [0, 1]"
    by (auto split: option.splits)
  have "length [Answer 1 Taken :: (unit, unit) action] \<le> 3 * card (dom (m_tasks m))"
    using calls_all_end [OF idle_client_fresh(1) unary_reads m [unfolded end_state_def] m'] by simp
  with m m' results show ?thesis by auto
qed

end
