(* ===== verification/Gate_Queue.thy ===== *)
theory Gate_Queue
  imports Calls_End
begin

text \<open>
  The queue in front of a gate. A gate is a \<open>tokio::sync::Mutex\<close>, which lets the
  calls that wait for it in by the order in which they came. The machine of
  \<open>Publish_Steps\<close> leaves that order open, so what holds of all its runs holds here;
  this theory adds the queue, and with it a bound on how long a call can wait.

  A call comes to its gate with the \<open>Start\<close> of its task. The queue holds all waiting
  tasks in the order of their starts; the tasks that wait for one gate stand in it in
  the order of the queue of that gate.
\<close>

section \<open>The queue\<close>

fun call_key :: "client \<Rightarrow> call \<Rightarrow> string option" where
  "call_key c (CallMetrics topic _ _) = topic_key topic"
| "call_key c (CallBirth _ _) = map_option birth_key (edge_node c)"

text \<open>The gate a task waits for.\<close>

definition gate_key :: "'x machine \<Rightarrow> nat \<Rightarrow> string option" where
  "gate_key m i = (case m_tasks m i of Some (AwaitGate cl) \<Rightarrow> call_key (m_client m) cl | _ \<Rightarrow> None)"

definition ahead :: "'x machine \<Rightarrow> nat list \<Rightarrow> string \<Rightarrow> nat \<Rightarrow> nat list" where
  "ahead m q k i = filter (\<lambda>j. gate_key m j = Some k) (takeWhile (\<lambda>j. j \<noteq> i) q)"

definition its_turn :: "'x machine \<Rightarrow> nat list \<Rightarrow> nat \<Rightarrow> bool" where
  "its_turn m q i = (case gate_key m i of Some k \<Rightarrow> ahead m q k i = [] | None \<Rightarrow> True)"

fun queue_after :: "('x, 'e) action \<Rightarrow> nat list \<Rightarrow> nat list" where
  "queue_after (Start i _) q = q @ [i]"
| "queue_after (Enter i) q = removeAll i q"
| "queue_after (Leave i) q = removeAll i q"
| "queue_after _ q = q"

definition queue_step ::
    "(Payload \<Rightarrow> u8 list) \<Rightarrow> ('x, 'e) action \<Rightarrow> 'x machine \<times> nat list \<Rightarrow>
     ('x machine \<times> nat list) option" where
  "queue_step encode act s =
     (if (case act of Enter i \<Rightarrow> its_turn (fst s) (snd s) i | _ \<Rightarrow> True)
      then map_option (\<lambda>m'. (m', queue_after act (snd s))) (machine_step encode act (fst s))
      else None)"

lemma queue_stepE:
  assumes "queue_step encode act (m, q) = Some (m', q')"
  obtains "machine_step encode act m = Some m'" "q' = queue_after act q"
    "\<And>i. act = Enter i \<Longrightarrow> its_turn m q i"
  using assms by (cases act) (auto simp: queue_step_def split: if_splits)

text \<open>What a call topic says about its gate.\<close>

lemma call_key_topic:
  "call_topic c cl = (Inr topic :: 'x SparkplugError + SparkplugTopic) \<Longrightarrow> call_key c cl = topic_key topic"
  by (cases cl) (auto simp: nbirth_def birth_key_def split: option.splits)

lemma call_key_error:
  "call_topic c cl = (Inl e :: 'x SparkplugError + SparkplugTopic) \<Longrightarrow> call_key c cl = None"
  by (cases cl) (auto split: option.splits)

lemma call_key_cong: "edge_node c = edge_node c' \<Longrightarrow> call_key c cl = call_key c' cl"
  by (cases cl) simp_all

lemma gate_key_cong:
  "m_tasks m' j = m_tasks m j \<Longrightarrow> edge_node (m_client m') = edge_node (m_client m) \<Longrightarrow>
     gate_key m' j = gate_key m j"
  by (simp add: gate_key_def call_key_cong [of "m_client m'" "m_client m"] split: option.split task.split)

lemma gate_key_wait: "gate_key m i = Some k \<Longrightarrow> \<exists>cl. m_tasks m i = Some (AwaitGate cl)"
  by (auto simp: gate_key_def split: option.splits task.splits)


section \<open>What the queue holds\<close>

definition queue_inv :: "'x machine \<times> nat list \<Rightarrow> bool" where
  "queue_inv s \<longleftrightarrow> distinct (snd s) \<and> set (snd s) = {i. \<exists>cl. m_tasks (fst s) i = Some (AwaitGate cl)}"

lemma queue_after_tasks:
  fixes m m' :: "'x machine"
  assumes "machine_step encode act m = Some m'"
  shows "\<exists>i. (\<forall>j. j \<noteq> i \<longrightarrow> m_tasks m' j = m_tasks m j) \<and>
    (case act of
       Start j _ \<Rightarrow> i = j \<and> m_tasks m i = None \<and> (\<exists>cl. m_tasks m' i = Some (AwaitGate cl))
     | Enter j \<Rightarrow> i = j \<and> (\<exists>cl. m_tasks m i = Some (AwaitGate cl)) \<and> (\<nexists>cl. m_tasks m' i = Some (AwaitGate cl))
     | Answer j _ \<Rightarrow> i = j \<and> (\<exists>p. m_tasks m i = Some (AwaitClient p)) \<and> (\<nexists>cl. m_tasks m' i = Some (AwaitGate cl))
     | Steal j \<Rightarrow> i = j \<and> (\<exists>p. m_tasks m i = Some (AwaitClient p)) \<and> m_tasks m' i = None
     | Leave j \<Rightarrow> i = j \<and> (\<exists>cl. m_tasks m i = Some (AwaitGate cl)) \<and> m_tasks m' i = None
     | Poll _ \<Rightarrow> m_tasks m' i = m_tasks m i)"
proof (cases act)
  case (Start i cl)
  with assms show ?thesis by (intro exI [of _ i]) (auto split: if_splits)
next
  case (Enter i)
  with assms show ?thesis
    by (intro exI [of _ i])
       (auto simp: enter_def Let_def hand_over_simps split: option.splits task.splits sum.splits prod.splits)
next
  case (Answer i answer)
  with assms show ?thesis
    by (intro exI [of _ i])
       (auto simp: answered_def settle_eq Let_def hand_over_simps
          split: option.splits task.splits sum.splits prod.splits)
next
  case (Steal i)
  with assms show ?thesis
    by (intro exI [of _ i]) (auto simp: stolen_def settle_eq split: option.splits task.splits)
next
  case (Leave i)
  with assms show ?thesis by (intro exI [of _ i]) (auto split: option.splits task.splits)
next
  case (Poll e)
  with assms show ?thesis by auto
qed

lemma queue_step_inv:
  fixes s t :: "'x machine \<times> nat list"
  assumes "queue_inv s" and "queue_step encode act s = Some t"
  shows "queue_inv t"
proof -
  obtain m q m' q' where s: "s = (m, q)" and t: "t = (m', q')" by (cases s, cases t)
  from assms(2) have step: "machine_step encode act m = Some m'" and q': "q' = queue_after act q"
    unfolding s t by (auto elim: queue_stepE)
  from queue_after_tasks [OF step] obtain i where other: "\<And>j. j \<noteq> i \<Longrightarrow> m_tasks m' j = m_tasks m j"
    and this_one: "case act of
       Start j _ \<Rightarrow> i = j \<and> m_tasks m i = None \<and> (\<exists>cl. m_tasks m' i = Some (AwaitGate cl))
     | Enter j \<Rightarrow> i = j \<and> (\<exists>cl. m_tasks m i = Some (AwaitGate cl)) \<and> (\<nexists>cl. m_tasks m' i = Some (AwaitGate cl))
     | Answer j _ \<Rightarrow> i = j \<and> (\<exists>p. m_tasks m i = Some (AwaitClient p)) \<and> (\<nexists>cl. m_tasks m' i = Some (AwaitGate cl))
     | Steal j \<Rightarrow> i = j \<and> (\<exists>p. m_tasks m i = Some (AwaitClient p)) \<and> m_tasks m' i = None
     | Leave j \<Rightarrow> i = j \<and> (\<exists>cl. m_tasks m i = Some (AwaitGate cl)) \<and> m_tasks m' i = None
     | Poll _ \<Rightarrow> m_tasks m' i = m_tasks m i" by blast
  have waiting: "j \<in> set q \<longleftrightarrow> (\<exists>cl. m_tasks m j = Some (AwaitGate cl))" for j
    using assms(1) by (simp add: queue_inv_def s)
  have "distinct q" using assms(1) by (simp add: queue_inv_def s)
  then have "distinct q'" using this_one waiting by (cases act) (auto simp: q' distinct_removeAll)
  moreover have "j \<in> set q' \<longleftrightarrow> (\<exists>cl. m_tasks m' j = Some (AwaitGate cl))" for j
  proof (cases "j = i")
    case True
    then show ?thesis using this_one waiting [of i] by (cases act) (auto simp: q')
  next
    case False
    then show ?thesis using this_one waiting [of j] other [OF False] by (cases act) (auto simp: q')
  qed
  ultimately show ?thesis by (auto simp: queue_inv_def t)
qed

interpretation gate_queue: machine_invariant "queue_step encode" queue_inv for encode
  by unfold_locales (rule queue_step_inv)

lemma queue_run_machine:
  "run (queue_step encode) acts s = Some t \<Longrightarrow> run (machine_step encode) acts (fst s) = Some (fst t)"
proof (induction acts arbitrary: s)
  case Nil
  then show ?case by simp
next
  case (Cons act acts)
  from Cons.prems obtain u where "queue_step encode act s = Some u" "run (queue_step encode) acts u = Some t"
    by (auto split: option.splits)
  moreover from this(1) have "machine_step encode act (fst s) = Some (fst u)"
    by (auto simp: queue_step_def split: if_splits)
  ultimately show ?case using Cons.IH [of u] by simp
qed


section \<open>What a waiting call has before it\<close>

text \<open>
  The calls ahead of it each make at most three moves on the gate: they enter,
  and the client answers one message or two. The call that holds the gate has
  its answers left.
\<close>

definition in_hand :: "'x machine \<Rightarrow> string \<Rightarrow> nat" where
  "in_hand m k =
     (case holder_at (cl_seq (m_client m)) k of
        None \<Rightarrow> 0
      | Some j \<Rightarrow> (case m_tasks m j of Some t \<Rightarrow> waits_left t | None \<Rightarrow> 0))"

definition turns_left :: "'x machine \<Rightarrow> nat list \<Rightarrow> string \<Rightarrow> nat \<Rightarrow> nat" where
  "turns_left m q k i = 3 * length (ahead m q k i) + in_hand m k"

text \<open>A move on the gate \<open>k\<close>: a call enters it, or the client answers the message behind it.\<close>

fun moves :: "string \<Rightarrow> 'x machine \<Rightarrow> ('x, 'e) action \<Rightarrow> bool" where
  "moves k m (Enter j) \<longleftrightarrow> gate_key m j = Some k"
| "moves k m (Answer j _) \<longleftrightarrow> (case m_tasks m j of Some (AwaitClient p) \<Rightarrow> p_key p = k | _ \<Rightarrow> False)"
| "moves k m (Steal j) \<longleftrightarrow> (case m_tasks m j of Some (AwaitClient p) \<Rightarrow> p_key p = k | _ \<Rightarrow> False)"
| "moves k m _ \<longleftrightarrow> False"

fun moves_on ::
    "(Payload \<Rightarrow> u8 list) \<Rightarrow> string \<Rightarrow> ('x, 'e) action list \<Rightarrow> 'x machine \<times> nat list \<Rightarrow> nat" where
  "moves_on encode k [] s = 0"
| "moves_on encode k (act # acts) s =
     of_bool (moves k (fst s) act) +
     (case queue_step encode act s of None \<Rightarrow> 0 | Some t \<Rightarrow> moves_on encode k acts t)"

lemma takeWhile_removeAll:
  "j \<noteq> i \<Longrightarrow> takeWhile (\<lambda>l. l \<noteq> i) (removeAll j q) = removeAll j (takeWhile (\<lambda>l. l \<noteq> i) q)"
  by (induction q) auto

lemma takeWhile_present: "i \<in> set q \<Longrightarrow> takeWhile (\<lambda>l. l \<noteq> i) (q @ [j]) = takeWhile (\<lambda>l. l \<noteq> i) q"
  by (induction q) auto

lemma ahead_cong:
  assumes "\<And>j. j \<in> set q \<Longrightarrow> (gate_key m' j = Some k) = (gate_key m j = Some k)"
  shows "ahead m' q k i = ahead m q k i"
  unfolding ahead_def by (rule filter_cong [OF refl]) (use assms set_takeWhileD in metis)

lemma ahead_removeAll:
  assumes "j \<noteq> i" and "\<And>l. l \<noteq> j \<Longrightarrow> gate_key m' l = gate_key m l"
  shows "ahead m' (removeAll j q) k i = removeAll j (ahead m q k i)"
proof -
  have "filter (\<lambda>l. gate_key m' l = Some k) (removeAll j xs) = removeAll j (filter (\<lambda>l. gate_key m l = Some k) xs)" for xs
    by (induction xs) (auto simp: assms(2) removeAll_id)
  then show ?thesis by (simp add: ahead_def takeWhile_removeAll [OF assms(1)])
qed

lemma length_removeAll_distinct:
  "distinct xs \<Longrightarrow> length (removeAll x xs) + of_bool (x \<in> set xs) = length xs"
  by (induction xs) (auto simp: removeAll_id)

lemma ahead_first: "ahead m q k i = j # rest \<Longrightarrow> ahead m q k j = []"
proof -
  have "filter P (takeWhile (\<lambda>l. l \<noteq> i) q) = j # rest \<Longrightarrow> filter P (takeWhile (\<lambda>l. l \<noteq> j) q) = []" for P
    by (induction q) (auto split: if_splits)
  then show "ahead m q k i = j # rest \<Longrightarrow> ahead m q k j = []" unfolding ahead_def .
qed

text \<open>Of two calls at one gate, one is ahead of the other.\<close>

lemma ahead_total:
  assumes "i \<in> set q" "j \<in> set q" "i \<noteq> j" "gate_key m i = Some k" "gate_key m j = Some k"
  shows "i \<in> set (ahead m q k j) \<or> j \<in> set (ahead m q k i)"
proof -
  have "i \<in> set (takeWhile (\<lambda>l. l \<noteq> j) q) \<or> j \<in> set (takeWhile (\<lambda>l. l \<noteq> i) q)"
    using assms(1-3) by (induction q) auto
  with assms(4,5) show ?thesis by (auto simp: ahead_def)
qed


section \<open>What a step does to the gates\<close>

lemma enter_gate:
  fixes m m' :: "'x machine"
  assumes "enter encode i cl m = Some m'"
  shows "(call_key (m_client m) cl = None \<and> m_tasks m' = (m_tasks m)(i := None)) \<or>
    (\<exists>p. call_key (m_client m) cl = Some (p_key p) \<and> holder_at (cl_seq (m_client m)) (p_key p) = None \<and>
       m_tasks m' = (m_tasks m)(i \<mapsto> AwaitClient p))"
proof (cases "call_topic (m_client m) cl :: 'x SparkplugError + SparkplugTopic")
  case (Inl e)
  with assms call_key_error [OF Inl] show ?thesis by (auto simp: enter_def Let_def)
next
  case (Inr topic)
  note key = call_key_topic [OF Inr]
  obtain x c1 where res: "reserve_seq i topic (m_client m) = (x :: 'x SparkplugError + _, c1)"
    by (cases "reserve_seq i topic (m_client m) :: ('x SparkplugError + _) \<times> _")
  show ?thesis
  proof (cases x)
    case (Inl e)
    with res have "topic_key topic = None" by (auto simp: reserve_seq_eq split: option.splits prod.splits)
    with assms Inr res Inl key show ?thesis by (auto simp: enter_def Let_def)
  next
    case x: (Inr o')
    with assms Inr res obtain r where r: "o' = Some r" by (cases o') (simp_all add: enter_def)
    obtain k m1 where "topic_key topic = Some k"
      "draw_key i k (seq_step (topic_message_type topic)) (cl_seq (m_client m)) = (Some r, m1)"
      using res x r by (auto elim: reserve_seq_Some)
    note draw = sc.draw_Some(1,2) [OF this(2)] and this(1)
    let ?p = "\<lparr>p_call = cl, p_stage = first_stage cl, p_res = r,
        p_guard = fst (count_publish (wire_options (role c1) (topic_message_type topic)) (cl_delivery c1)),
        p_request = message_request c1 topic (encode (first_payload cl (deref r (cl_seq c1))))\<rparr>"
    have "m_tasks m' = (m_tasks m)(i \<mapsto> AwaitClient ?p)"
      using assms Inr res x r by (auto simp: enter_def Let_def hand_over_simps)
    moreover have "call_key (m_client m) cl = Some (p_key ?p)" using \<open>topic_key topic = Some k\<close> key draw by simp
    moreover have "holder_at (cl_seq (m_client m)) (p_key ?p) = None" using draw by simp
    ultimately show ?thesis by blast
  qed
qed

lemma answered_gate:
  fixes m :: "'x machine"
  shows "m_tasks (answered encode j p answer m) = (m_tasks m)(j := None) \<or>
    (\<exists>q. p_stage p = FirstBirth \<and> p_stage q = SecondBirth \<and> p_key q = p_key p \<and>
       m_tasks (answered encode j p answer m) = (m_tasks m)(j \<mapsto> AwaitClient q))"
proof (cases "\<not> is_taken answer \<or> second_message (m_client m) p = None")
  case True
  from answered_ends(1) [OF this] show ?thesis by blast
next
  case False
  then have "answer = Taken" and two: "second_message (m_client m) p \<noteq> None"
    by (simp_all add: is_taken_iff)
  then have "\<exists>q. m_tasks (answered encode j p answer m) = (m_tasks m)(j \<mapsto> AwaitClient q) \<and>
      p_stage q = SecondBirth \<and> p_key q = p_key p"
    by (auto simp: answered_def settle_eq Let_def hand_over_simps split: prod.split)
       (rule exI, rule conjI, rule refl, simp)
  with second_message_stage [OF two] show ?thesis by blast
qed

text \<open>Under the invariant, what is in hand at a gate can be read off the tasks.\<close>

lemma in_hand_client:
  assumes "machine_inv decode m" and "m_tasks m j = Some (AwaitClient p)" and "p_key p = k"
  shows "in_hand m k = waits_left (AwaitClient p)"
proof -
  have "holder_at (cl_seq (m_client m)) k = Some j" using inv_holder [OF assms(1)] assms(2,3) by blast
  with assms(2) show ?thesis by (simp add: in_hand_def)
qed

lemma in_hand_none:
  assumes "machine_inv decode m" and "\<And>j p. m_tasks m j = Some (AwaitClient p) \<Longrightarrow> p_key p \<noteq> k"
  shows "in_hand m k = 0"
proof -
  have "holder_at (cl_seq (m_client m)) k = None"
    using inv_holder [OF assms(1)] assms(2) by (cases "holder_at (cl_seq (m_client m)) k") blast+
  then show ?thesis by (simp add: in_hand_def)
qed

lemma in_hand_le: "machine_inv decode m \<Longrightarrow> in_hand m k \<le> 2"
proof -
  assume inv: "machine_inv decode m"
  show "in_hand m k \<le> 2"
  proof (cases "\<exists>j p. m_tasks m j = Some (AwaitClient p) \<and> p_key p = k")
    case True
    then show ?thesis using in_hand_client [OF inv] by fastforce
  next
    case False
    then have "in_hand m k = 0" by (intro in_hand_none [OF inv]) blast
    then show ?thesis by simp
  qed
qed

lemma in_hand_same:
  assumes inv: "machine_inv decode m" "machine_inv decode m'"
    and same: "\<And>j p. p_key p = k \<Longrightarrow>
      (m_tasks m' j = Some (AwaitClient p)) = (m_tasks m j = Some (AwaitClient p))"
  shows "in_hand m' k = in_hand m k"
proof (cases "\<exists>j p. m_tasks m j = Some (AwaitClient p) \<and> p_key p = k")
  case True
  then obtain j p where p: "m_tasks m j = Some (AwaitClient p)" "p_key p = k" by blast
  with in_hand_client [OF inv(1) p] in_hand_client [OF inv(2) _ p(2), of j] same [OF p(2), of j]
  show ?thesis by simp
next
  case False
  then have "in_hand m k = 0" by (intro in_hand_none [OF inv(1)]) blast
  moreover have "in_hand m' k = 0" by (rule in_hand_none [OF inv(2)]) (use False same in blast)
  ultimately show ?thesis by simp
qed

lemma in_hand_answered:
  assumes inv: "machine_inv decode m" "machine_inv decode m'"
    and p: "m_tasks m j = Some (AwaitClient p)"
    and m': "m_tasks m' = (m_tasks m)(j := None) \<or>
      (\<exists>q. p_stage p = FirstBirth \<and> p_stage q = SecondBirth \<and> p_key q = p_key p \<and>
         m_tasks m' = (m_tasks m)(j \<mapsto> AwaitClient q))"
  shows "in_hand m' k + of_bool (p_key p = k) \<le> in_hand m k"
proof (cases "p_key p = k")
  case True
  have here: "in_hand m k = waits_left (AwaitClient p)" by (rule in_hand_client [OF inv(1) p True])
  from m' show ?thesis
  proof (elim disjE exE conjE)
    assume "m_tasks m' = (m_tasks m)(j := None)"
    then have "in_hand m' k = 0"
      by (intro in_hand_none [OF inv(2)])
         (use inv_unique [OF inv(1) p] True in \<open>auto split: if_splits\<close>)
    with here True show ?thesis by simp
  next
    fix q
    assume "p_stage p = FirstBirth" "p_stage q = SecondBirth" "p_key q = p_key p"
      "m_tasks m' = (m_tasks m)(j \<mapsto> AwaitClient q)"
    with in_hand_client [OF inv(2), of j q k] here True show ?thesis by simp
  qed
next
  case False
  have "in_hand m' k = in_hand m k"
    by (rule in_hand_same [OF inv]) (use m' p False in \<open>auto split: if_splits\<close>)
  with False show ?thesis by simp
qed


text \<open>No step but its own takes a call back in the queue, and every move at its gate takes it on.\<close>

lemma queue_step_turns:
  fixes m m' :: "'x machine" and act :: "('x, 'e) action"
  assumes inv: "machine_inv decode m" and law: "reads_seq decode encode" and queue: "queue_inv (m, q)"
    and step: "queue_step encode act (m, q) = Some (m', q')" and waits: "gate_key m i = Some k"
    and patient: "act \<noteq> Enter i" "act \<noteq> Leave i"
  shows "gate_key m' i = Some k \<and>
    of_bool (moves k m act) + turns_left m' q' k i \<le> turns_left m q k i"
proof -
  have ms: "machine_step encode act m = Some m'" and q': "q' = queue_after act q"
    and turn: "\<And>j. act = Enter j \<Longrightarrow> its_turn m q j"
    using step by (auto elim: queue_stepE)
  have inv': "machine_inv decode m'" by (rule machine_step_inv [OF inv law ms])
  note same_key = gate_key_cong [OF _ step_edge_node [OF ms]]
  obtain cli where i: "m_tasks m i = Some (AwaitGate cli)" using gate_key_wait [OF waits] by blast
  have dist: "distinct q" and mem: "\<And>j. j \<in> set q \<longleftrightarrow> (\<exists>cl. m_tasks m j = Some (AwaitGate cl))"
    using queue by (simp_all add: queue_inv_def)
  have iq: "i \<in> set q" using mem i by blast
  have leave: "length (ahead m' (removeAll j q) k i) + of_bool (j \<in> set (ahead m q k i)) = length (ahead m q k i)"
    if "j \<noteq> i" "\<And>l. l \<noteq> j \<Longrightarrow> m_tasks m' l = m_tasks m l" for j
  proof -
    have "distinct (ahead m q k i)" using dist by (simp add: ahead_def distinct_takeWhile)
    moreover have "ahead m' (removeAll j q) k i = removeAll j (ahead m q k i)"
      by (rule ahead_removeAll) (use that same_key in auto)
    ultimately show ?thesis by (simp only: length_removeAll_distinct)
  qed
  have stay: "ahead m' q k i = ahead m q k i"
    if "\<And>l. l \<in> set q \<Longrightarrow> m_tasks m' l = m_tasks m l"
    using that by (intro ahead_cong) (simp add: same_key)
  show ?thesis
  proof (cases act)
    case (Start j cl)
    then have j: "m_tasks m j = None" and m': "m_tasks m' = (m_tasks m)(j \<mapsto> AwaitGate cl)"
      using ms by (auto split: if_splits)
    have "ahead m' q' k i = ahead m' q k i" by (simp add: q' Start ahead_def takeWhile_present [OF iq])
    also have "\<dots> = ahead m q k i" using j mem by (intro stay) (auto simp: m')
    finally have "ahead m' q' k i = ahead m q k i" .
    moreover have "in_hand m' k = in_hand m k"
      by (rule in_hand_same [OF inv inv']) (use j m' in auto)
    moreover have "gate_key m' i = gate_key m i" using i j m' by (intro same_key) auto
    ultimately show ?thesis using waits by (simp add: turns_left_def Start)
  next
    case (Enter j)
    then obtain cl where j: "m_tasks m j = Some (AwaitGate cl)" and enter: "enter encode j cl m = Some m'"
      using ms by (auto split: option.splits task.splits)
    have key: "gate_key m j = call_key (m_client m) cl" by (simp add: gate_key_def j)
    have ji: "j \<noteq> i" using patient(1) Enter by auto
    note gate = enter_gate [OF enter]
    have others: "m_tasks m' l = m_tasks m l" if "l \<noteq> j" for l using gate that by auto
    note gone = leave [OF ji others]
    have "gate_key m' i = Some k" using waits ji others same_key by simp
    moreover have "of_bool (moves k m act) + turns_left m' q' k i \<le> turns_left m q k i"
    proof (cases "gate_key m j = Some k")
      case True
      with gate key have "in_hand m k = 0" by (auto simp: in_hand_def)
      moreover have "ahead m q k j = []" using turn [OF Enter] True by (simp add: its_turn_def)
      then have "j \<in> set (ahead m q k i)" using ahead_total [OF iq, of j m k] mem j ji waits True by auto
      ultimately show ?thesis using gone True in_hand_le [OF inv', of k]
        by (simp add: turns_left_def Enter q')
    next
      case False
      then have "in_hand m' k = in_hand m k"
        by (intro in_hand_same [OF inv inv']) (use gate key j in \<open>auto split: if_splits\<close>)
      then show ?thesis using gone False by (simp add: turns_left_def Enter q')
    qed
    ultimately show ?thesis by blast
  next
    case (Answer j answer)
    then obtain p where p: "m_tasks m j = Some (AwaitClient p)" and m': "m' = answered encode j p answer m"
      using ms by (auto split: option.splits task.splits)
    note shape = answered_gate [of encode j p answer m, folded m']
    have others: "m_tasks m' l = m_tasks m l" if "l \<noteq> j" for l using shape that by auto
    have "ahead m' q k i = ahead m q k i" using p mem by (intro stay others) auto
    moreover have "gate_key m' i = gate_key m i" using i p by (intro same_key others) auto
    ultimately show ?thesis using in_hand_answered [OF inv inv' p shape, of k] waits p
      by (simp add: turns_left_def Answer q')
  next
    case (Steal j)
    then obtain p where p: "m_tasks m j = Some (AwaitClient p)" and m': "m' = stolen j p m"
      using ms by (auto split: option.splits task.splits)
    have shape: "m_tasks m' = (m_tasks m)(j := None)" by (simp add: m' stolen_def settle_eq)
    have "ahead m' q k i = ahead m q k i" using p mem shape by (intro stay) auto
    moreover have "gate_key m' i = gate_key m i" using i p shape by (intro same_key) auto
    ultimately show ?thesis using in_hand_answered [OF inv inv' p disjI1 [OF shape], of k] waits p
      by (simp add: turns_left_def Steal q')
  next
    case (Leave j)
    then obtain cl where j: "m_tasks m j = Some (AwaitGate cl)" and m': "m_tasks m' = (m_tasks m)(j := None)"
      using ms by (auto split: option.splits task.splits)
    have ji: "j \<noteq> i" using patient(2) Leave by auto
    have "in_hand m' k = in_hand m k"
      by (rule in_hand_same [OF inv inv']) (use j m' in \<open>auto split: if_splits\<close>)
    moreover have "gate_key m' i = gate_key m i" using ji m' by (intro same_key) auto
    ultimately show ?thesis using leave [OF ji] m' waits by (simp add: turns_left_def Leave q')
  next
    case (Poll e)
    then have m': "m_tasks m' = m_tasks m" using ms by auto
    have "in_hand m' k = in_hand m k" by (rule in_hand_same [OF inv inv']) (simp add: m')
    moreover have "gate_key m' i = gate_key m i" by (intro same_key) (simp add: m')
    ultimately show ?thesis using stay m' waits by (simp add: turns_left_def Poll q')
  qed
qed

lemma queue_run_turns:
  fixes m m' :: "'x machine" and acts :: "('x, 'e) action list"
  assumes "machine_inv decode m" and law: "reads_seq decode encode" and "queue_inv (m, q)"
    and "run (queue_step encode) acts (m, q) = Some (m', q')" and "gate_key m i = Some k"
    and "Enter i \<notin> set acts" and "Leave i \<notin> set acts"
  shows "gate_key m' i = Some k \<and> machine_inv decode m' \<and> queue_inv (m', q') \<and>
    moves_on encode k acts (m, q) + turns_left m' q' k i \<le> turns_left m q k i"
  using assms(1,3-)
proof (induction acts arbitrary: m q)
  case Nil
  then show ?case by simp
next
  case (Cons act acts)
  from Cons.prems(3) obtain n r where step: "queue_step encode act (m, q) = Some (n, r)"
    and rest: "run (queue_step encode) acts (n, r) = Some (m', q')" by (auto split: option.splits)
  have ms: "machine_step encode act m = Some n" using step by (auto elim: queue_stepE)
  have inv: "machine_inv decode n" by (rule machine_step_inv [OF Cons.prems(1) law ms])
  have queue: "queue_inv (n, r)" by (rule queue_step_inv [OF Cons.prems(2) step])
  have mine: "act \<noteq> Enter i" "act \<noteq> Leave i" using Cons.prems(5,6) by auto
  note turns = queue_step_turns [OF Cons.prems(1) law Cons.prems(2) step Cons.prems(4) mine]
  from Cons.IH [OF inv queue rest] turns Cons.prems(5,6) step show ?case by simp
qed

text \<open>While a call waits, it can enter or there is a move to make at its gate.\<close>

lemma gate_moves:
  fixes m :: "'x machine"
  assumes inv: "machine_inv decode m" and queue: "queue_inv (m, q)" and waits: "gate_key m i = Some k"
  shows "queue_step encode (Enter i :: ('x, 'e) action) (m, q) \<noteq> None \<or>
    (\<exists>j p. j \<noteq> i \<and> m_tasks m j = Some (AwaitClient p) \<and> p_key p = k) \<or>
    (\<exists>j\<in>set (ahead m q k i). queue_step encode (Enter j :: ('x, 'e) action) (m, q) \<noteq> None)"
proof (cases "holder_at (cl_seq (m_client m)) k")
  case (Some j)
  then obtain p where p: "m_tasks m j = Some (AwaitClient p)" "p_key p = k" using inv_holder [OF inv] by blast
  moreover have "j \<noteq> i" using p gate_key_wait [OF waits] by auto
  ultimately show ?thesis by blast
next
  case None
  have enters: "queue_step encode (Enter l :: ('x, 'e) action) (m, q) \<noteq> None"
    if l: "gate_key m l = Some k" and first: "ahead m q k l = []" for l
  proof -
    obtain cl where task: "m_tasks m l = Some (AwaitGate cl)" using gate_key_wait [OF l] by blast
    with l have key: "call_key (m_client m) cl = Some k" by (simp add: gate_key_def)
    then obtain topic where topic: "call_topic (m_client m) cl = (Inr topic :: 'x SparkplugError + _)"
      using call_key_error by (cases "call_topic (m_client m) cl :: 'x SparkplugError + SparkplugTopic") fastforce+
    with key have "topic_key topic = Some k" using call_key_topic [OF topic] by simp
    from enter_free [OF topic this None, of encode l] task l first show ?thesis
      by (auto simp: queue_step_def its_turn_def)
  qed
  show ?thesis
  proof (cases "ahead m q k i")
    case Nil
    with enters waits show ?thesis by blast
  next
    case (Cons j rest)
    then have "gate_key m j = Some k" using Cons_eq_filterD [OF Cons [unfolded ahead_def, symmetric]] by blast
    with enters ahead_first [OF Cons] have "queue_step encode (Enter j :: ('x, 'e) action) (m, q) \<noteq> None" by blast
    with Cons show ?thesis by auto
  qed
qed


section \<open>Properties\<close>

text \<open>
  C4. A wait for a gate ends: where the gates are first come, first served, a call
  with \<open>n\<close> calls of its edge node ahead of it sees at most \<open>3 * n + 2\<close> moves at its
  gate before it enters or is cancelled, whatever else is started, answered or
  polled: each call ahead enters once and has one message or the two of a birth
  answered, and the call that holds the gate has its answers. And while it waits it
  can enter, or such a move can be made: a message of the edge node is at the client
  and any answer to it is a move, or a call ahead can enter.
\<close>

theorem gate_wait_ends:
  fixes m :: "'x machine" and acts' :: "('x, 'e) action list"
  assumes "fresh_client c" and "reads_seq decode encode"
    and "run (queue_step encode) acts (machine_init c, []) = Some (m, q)"
    and waits: "gate_key m i = Some k"
    and "run (queue_step encode) acts' (m, q) = Some (m', q')"
    and "Enter i \<notin> set acts'" and "Leave i \<notin> set acts'"
  shows "gate_key m' i = Some k \<and>
    moves_on encode k acts' (m, q) + 3 * length (ahead m' q' k i) \<le> 3 * length (ahead m q k i) + 2 \<and>
    (queue_step encode (Enter i :: ('x, 'e) action) (m', q') \<noteq> None \<or>
     (\<exists>j p. j \<noteq> i \<and> m_tasks m' j = Some (AwaitClient p) \<and> p_key p = k) \<or>
     (\<exists>j\<in>set (ahead m' q' k i). queue_step encode (Enter j :: ('x, 'e) action) (m', q') \<noteq> None))"
proof -
  have "run (machine_step encode) acts (machine_init c) = Some m"
    using queue_run_machine [OF assms(3)] by simp
  with assms(1,2) have inv: "machine_inv decode m" by (rule machine_run_inv)
  have "queue_inv (machine_init c :: 'x machine, [])" by (simp add: queue_inv_def)
  then have queue: "queue_inv (m, q)" by (rule gate_queue.run_inv [OF _ assms(3)])
  from queue_run_turns [OF inv assms(2) queue assms(5) waits assms(6,7)] in_hand_le [OF inv, of k]
  show ?thesis using gate_moves [of decode m' q' i k encode, where 'e = 'e] by (simp add: turns_left_def)
qed

text \<open>Three calls at one gate: while the third waits, the first is answered and the second enters.\<close>

definition three_calls :: "(unit, unit) action list" where
  "three_calls =
     (let data = CallMetrics (ddata sparkplug_b (GroupId ''g'') (EdgeNodeId ''n'') (DeviceId ''d'')) [] (Timestamp 0)
      in [Start 0 data, Start 1 data, Start 2 data, Enter 0])"

theorem gate_wait_ends_witness:
  "\<exists>m q m' q'. run (queue_step unary_encode) three_calls
       (machine_init (idle_client ''spBv1.0'' IdentityPublisher), []) = Some (m, q) \<and>
     ahead m q ''g/n'' 2 = [1] \<and>
     run (queue_step unary_encode) [Answer 0 Taken, Enter 1 :: (unit, unit) action] (m, q) = Some (m', q') \<and>
     gate_key m' 2 = Some ''g/n'' \<and>
     moves_on unary_encode ''g/n'' [Answer 0 Taken, Enter 1 :: (unit, unit) action] (m, q) = 2 \<and>
     moves_on unary_encode ''g/n'' [Answer 0 Taken, Enter 1 :: (unit, unit) action] (m, q) +
       3 * length (ahead m' q' ''g/n'' 2) \<le> 5"
proof -
  let ?c = "idle_client ''spBv1.0'' IdentityPublisher"
  let ?more = "[Answer 0 Taken, Enter 1] :: (unit, unit) action list"
  have "case run (queue_step unary_encode) three_calls (machine_init ?c, []) of None \<Rightarrow> False
    | Some s \<Rightarrow> gate_key (fst s) 2 = Some ''g/n'' \<and> ahead (fst s) (snd s) ''g/n'' 2 = [1] \<and>
        moves_on unary_encode ''g/n'' ?more s = 2 \<and>
        (case run (queue_step unary_encode) ?more s of None \<Rightarrow> False | Some _ \<Rightarrow> True)"
    by code_simp
  then obtain m q m' q' where start: "run (queue_step unary_encode) three_calls (machine_init ?c, []) = Some (m, q)"
    and waits: "gate_key m 2 = Some ''g/n''" and one: "ahead m q ''g/n'' 2 = [1]"
    and two: "moves_on unary_encode ''g/n'' ?more (m, q) = 2"
    and more: "run (queue_step unary_encode) ?more (m, q) = Some (m', q')"
    by (auto split: option.splits)
  from gate_wait_ends [OF idle_client_fresh(1) unary_reads start waits more] one two start more show ?thesis
    by (intro exI [of _ m] exI [of _ q] exI [of _ m'] exI [of _ q']) simp
qed

end
