(* ===== verification/Publish_Delivery.thy ===== *)
theory Publish_Delivery
  imports Publish_Machine
begin

text \<open>
  The publish paths, the event loop and the broker together: what the delivery
  tracker of a publisher client counts.

  The machine of the theory \<open>Publish_Machine\<close> runs beside a count \<open>out\<close> of the
  messages that the client took and that are still to be acknowledged. The
  broker acknowledges only messages it was sent, and none of an earlier link.
\<close>

section \<open>A client and its broker\<close>

text \<open>The tasks whose message is at the client.\<close>

definition at_client :: "'x machine \<Rightarrow> nat set" where
  "at_client m = {i. \<exists>p. m_tasks m i = Some (AwaitClient p)}"

text \<open>
  A run over links that end only while no message is at the client, and without
  the cancellation window. \<open>Enter\<close> stops short of the count that would wrap.
\<close>

fun out_after :: "('x, 'e) action \<Rightarrow> nat \<Rightarrow> nat" where
  "out_after (Answer i answer) out = (if is_taken answer then Suc out else out)"
| "out_after (Poll e) out =
     (if e = Inr (Incoming PubAck) then out - 1 else if loss_event e then 0 else out)"
| "out_after _ out = out"

fun fair :: "('x, 'e) action \<Rightarrow> 'x machine \<Rightarrow> nat \<Rightarrow> bool" where
  "fair (Steal i) m out \<longleftrightarrow> False"
| "fair (Enter i) m out \<longleftrightarrow> unacked (cl_delivery (m_client m)) \<noteq> u32_max"
| "fair (Poll e) m out \<longleftrightarrow>
     (e = Inr (Incoming PubAck) \<longrightarrow> 0 < out) \<and> (loss_event e \<longrightarrow> at_client m = {})"
| "fair _ m out \<longleftrightarrow> True"

definition linked_step ::
    "(Payload \<Rightarrow> u8 list) \<Rightarrow> ('x, 'e) action \<Rightarrow> 'x machine \<times> nat \<Rightarrow> ('x machine \<times> nat) option" where
  "linked_step encode act s =
     (if fair act (fst s) (snd s)
      then map_option (\<lambda>m'. (m', out_after act (snd s))) (machine_step encode act (fst s))
      else None)"

text \<open>
  The tracker counts the messages at the client and the ones out, and each
  message at the client holds a ticket of the present generation.
\<close>

definition balanced :: "'x machine \<times> nat \<Rightarrow> bool" where
  "balanced s \<longleftrightarrow>
     edge_node (m_client (fst s)) = None \<and> finite (at_client (fst s)) \<and>
     unat (unacked (cl_delivery (m_client (fst s)))) = snd s + card (at_client (fst s)) \<and>
     (\<forall>i p. m_tasks (fst s) i = Some (AwaitClient p) \<longrightarrow>
        p_guard p = Some (PublishInFlight (Some (PublishTicket
          (generation (cl_delivery (m_client (fst s))))))))"

lemma at_client_tasks:
  "m_tasks m' = (m_tasks m)(i \<mapsto> AwaitClient p) \<Longrightarrow> at_client m' = insert i (at_client m)"
  "m_tasks m' = (m_tasks m)(i \<mapsto> AwaitGate cl) \<Longrightarrow> at_client m' = at_client m - {i}"
  "m_tasks m' = (m_tasks m)(i := None) \<Longrightarrow> at_client m' = at_client m - {i}"
  "m_tasks m' = m_tasks m \<Longrightarrow> at_client m' = at_client m"
  by (auto simp: at_client_def)

lemma at_client_iff: "i \<in> at_client m \<longleftrightarrow> (\<exists>p. m_tasks m i = Some (AwaitClient p))"
  by (simp add: at_client_def)

lemma publisher_tracked: "edge_node c = None \<Longrightarrow> tracked (wire_options (role c) mt)"
  by (simp add: tracked_iff edge_node_role)

lemma balanced_keep:
  assumes "balanced (m, out)" and "at_client m' = at_client m"
    and "edge_node (m_client m') = edge_node (m_client m)"
    and "cl_delivery (m_client m') = cl_delivery (m_client m)"
    and "\<And>i p. m_tasks m' i = Some (AwaitClient p) \<Longrightarrow> m_tasks m i = Some (AwaitClient p)"
  shows "balanced (m', out)"
  using assms(1) unfolding balanced_def fst_conv snd_conv assms(2-4) by (blast dest: assms(5))

lemma enter_shape:
  assumes "enter encode i cl m = Some m'"
  shows "\<exists>c1. cl_delivery c1 = cl_delivery (m_client m) \<and> role c1 = role (m_client m) \<and>
    edge_node c1 = edge_node (m_client m) \<and>
    ((\<exists>result. m' = finish i result c1 m) \<or>
     (\<exists>stg r topic payload. m' = hand_over encode i cl stg r topic payload c1 m))"
proof (cases "call_topic (m_client m) cl :: 'a SparkplugError + SparkplugTopic")
  case (Inl e)
  with assms show ?thesis by (intro exI [of _ "m_client m"]) (auto simp: enter_def Let_def)
next
  case (Inr topic)
  obtain result c1 where res: "reserve_seq i topic (m_client m) =
      (result :: 'a SparkplugError + SeqReservation option, c1)"
    by (cases "reserve_seq i topic (m_client m) :: ('a SparkplugError + SeqReservation option) \<times> client")
  then have c1: "cl_delivery c1 = cl_delivery (m_client m) \<and> role c1 = role (m_client m) \<and>
      edge_node c1 = edge_node (m_client m)"
    by (auto simp: reserve_seq_eq split: option.splits prod.splits)
  have "(\<exists>result. m' = finish i result c1 m) \<or>
     (\<exists>stg r topic payload. m' = hand_over encode i cl stg r topic payload c1 m)"
    using assms by (auto simp: enter_def Let_def Inr res split: sum.splits option.splits) blast
  with c1 show ?thesis by blast
qed

lemma enter_balanced:
  fixes m m' :: "'x machine"
  assumes inv: "balanced (m, out)" and gate: "m_tasks m i = Some (AwaitGate cl)"
    and room: "unacked (cl_delivery (m_client m)) \<noteq> u32_max"
    and step: "enter encode i cl m = Some m'"
  shows "balanced (m', out)"
proof -
  have idle: "i \<notin> at_client m" using gate by (simp add: at_client_iff)
  have publisher: "edge_node (m_client m) = None" using inv by (simp add: balanced_def)
  have next_count: "unat (unacked (cl_delivery (m_client m)) + 1) = Suc (unat (unacked (cl_delivery (m_client m))))"
  proof -
    have "unacked (cl_delivery (m_client m)) + 1 \<noteq> 0" using room by (metis add_eq_0_iff add.commute)
    then show ?thesis by (metis add.commute unatSuc)
  qed
  let ?st = "cl_delivery (m_client m)"
  have counted: "count_publish (wire_options (role (m_client m)) mt) ?st =
      (Some (PublishInFlight (Some (PublishTicket (generation ?st)))), ?st\<lparr>unacked := unacked ?st + 1\<rparr>)" for mt
    by (simp add: count_publish_def publisher_tracked [OF publisher] publish_in_flight_def
        record_publish_def Let_def)
  from step consider
      (over) "m_tasks m' = (m_tasks m)(i := None)"
        "edge_node (m_client m') = edge_node (m_client m)" "cl_delivery (m_client m') = ?st"
    | (handed) p where "m_tasks m' = (m_tasks m)(i \<mapsto> AwaitClient p)"
        "p_guard p = Some (PublishInFlight (Some (PublishTicket (generation ?st))))"
        "edge_node (m_client m') = edge_node (m_client m)"
        "cl_delivery (m_client m') = ?st\<lparr>unacked := unacked ?st + 1\<rparr>"
    using enter_shape [OF step] by (auto simp: hand_over_simps counted)
  then show ?thesis
  proof cases
    case over
    have "at_client m' = at_client m" unfolding at_client_tasks(3) [OF over(1)] using idle by simp
    with inv over show ?thesis by (intro balanced_keep [OF inv]) (auto split: if_splits)
  next
    case handed
    have "at_client m' = insert i (at_client m)" using handed(1) by (rule at_client_tasks)
    moreover from this have "card (at_client m') = Suc (card (at_client m))"
      using inv idle by (simp add: balanced_def)
    moreover have "p_guard q = Some (PublishInFlight (Some (PublishTicket (generation ?st))))"
      if "m_tasks m' j = Some (AwaitClient q)" for j q
    proof (cases "j = i")
      case True
      with that handed(1,2) show ?thesis by simp
    next
      case False
      with that handed(1) have "m_tasks m j = Some (AwaitClient q)" by simp
      with inv show ?thesis by (simp add: balanced_def)
    qed
    ultimately show ?thesis using inv next_count
      by (simp add: balanced_def handed(3,4))
  qed
qed

lemma answered_balanced:
  fixes m :: "'x machine"
  assumes inv: "balanced (m, out)" and p: "m_tasks m i = Some (AwaitClient p)"
  shows "balanced (answered encode i p answer m, if is_taken answer then Suc out else out)"
proof -
  let ?st = "cl_delivery (m_client m)" and ?m' = "answered encode i p answer m"
  have publisher: "edge_node (m_client m) = None" using inv by (simp add: balanced_def)
  note ends = answered_ends_eq [OF disjI2 [OF second_message_publisher [OF publisher]], of encode i p answer]
  have tasks: "m_tasks ?m' = (m_tasks m)(i := None)" by (simp add: ends)
  have here: "i \<in> at_client m" using p by (auto simp: at_client_iff)
  have fin: "finite (at_client m)" using inv by (simp add: balanced_def)
  have rest: "at_client ?m' = at_client m - {i}" using tasks by (rule at_client_tasks)
  have size: "card (at_client m) = Suc (card (at_client ?m'))"
    unfolding rest using card_Suc_Diff1 [OF fin here] by simp
  have guard: "p_guard p = Some (PublishInFlight (Some (PublishTicket (generation ?st))))"
    using inv p by (simp add: balanced_def)
  have st: "cl_delivery (m_client ?m') =
      (if is_taken answer then ?st else ?st\<lparr>unacked := saturating_dec (unacked ?st)\<rparr>)"
    unfolding ends
    by (cases answer)
       (simp_all add: settle_publish_def guard drop_in_flight_def record_publish_failed_def
          end_reservation_def take_request_def)
  have "edge_node (m_client ?m') = None"
    using step_edge_node [where act = "Answer i answer" and encode = encode and m = m] p publisher by simp
  with inv fin size st tasks rest show ?thesis by (auto simp: balanced_def)
qed

lemma poll_balanced:
  assumes inv: "balanced (m, out)" and fair: "fair (Poll e) m out"
  shows "balanced (m\<lparr>m_client := poll e (m_client m)\<rparr>, out_after (Poll e) out)"
proof -
  let ?m' = "m\<lparr>m_client := poll e (m_client m)\<rparr>"
  have same: "at_client ?m' = at_client m" by (simp add: at_client_def)
  show ?thesis
  proof (cases "loss_event e")
    case True
    then have "at_client m = {}" using fair by simp
    moreover have "e \<noteq> Inr (Incoming PubAck)" using True by (auto simp: loss_event_def)
    ultimately show ?thesis using inv True same
      by (auto simp: balanced_def poll_def apply_event_loss record_disconnect_def at_client_def)
  next
    case False
    with inv fair same show ?thesis
      by (auto simp: balanced_def poll_def apply_event_no_loss record_ack_def release_one_def)
  qed
qed

lemma linked_step_balanced:
  fixes s t :: "'x machine \<times> nat"
  assumes inv: "balanced s" and step: "linked_step encode act s = Some t"
  shows "balanced t"
proof -
  obtain m out where s: "s = (m, out)" by (cases s)
  obtain m' where fair: "fair act m out" and m': "machine_step encode act m = Some m'"
    and t: "t = (m', out_after act out)"
    using step by (auto simp: linked_step_def s split: if_splits)
  show ?thesis
  proof (cases act)
    case (Start i cl)
    then have "m_tasks m i = None" "m' = m\<lparr>m_tasks := (m_tasks m)(i \<mapsto> AwaitGate cl)\<rparr>"
      using m' by (simp_all split: if_splits)
    then show ?thesis using inv unfolding t s
      by (simp add: Start) (rule balanced_keep, auto simp: at_client_def split: if_splits)
  next
    case (Enter i)
    then obtain cl where "m_tasks m i = Some (AwaitGate cl)" "enter encode i cl m = Some m'"
      using m' by (auto split: option.splits task.splits)
    then show ?thesis using inv fair enter_balanced unfolding t s by (simp add: Enter)
  next
    case (Answer i answer)
    then obtain p where "m_tasks m i = Some (AwaitClient p)" "m' = answered encode i p answer m"
      using m' by (auto split: option.splits task.splits)
    then show ?thesis using inv answered_balanced unfolding t s Answer out_after.simps by blast
  next
    case (Steal i)
    with fair show ?thesis by simp
  next
    case (Leave i)
    then have "at_client m' = at_client m" "m' = finish i None (m_client m) m"
      using m' by (auto simp: at_client_def split: option.splits task.splits if_splits)
    then show ?thesis using inv unfolding t s
      by (simp add: Leave) (rule balanced_keep, auto split: if_splits)
  next
    case (Poll e)
    then have "m' = m\<lparr>m_client := poll e (m_client m)\<rparr>" using m' by simp
    moreover have "fair (Poll e :: ('x, _) action) m out" using fair Poll by simp
    ultimately show ?thesis using inv poll_balanced unfolding t s Poll by blast
  qed
qed

interpretation linked: machine_invariant "linked_step encode" balanced for encode
  by unfold_locales (rule linked_step_balanced)


section \<open>What is on the wire\<close>

fun is_ack :: "('x, 'e) action \<Rightarrow> bool" where
  "is_ack (Poll (Inr (Incoming PubAck))) \<longleftrightarrow> True"
| "is_ack _ \<longleftrightarrow> False"

fun is_loss :: "('x, 'e) action \<Rightarrow> bool" where
  "is_loss (Poll e) \<longleftrightarrow> loss_event e"
| "is_loss _ \<longleftrightarrow> False"

text \<open>Messages taken are messages out and messages acknowledged.\<close>

lemma linked_step_wire:
  fixes m m' :: "'x machine"
  assumes step: "linked_step encode act (m, out) = Some (m', out')" and "\<not> is_loss act"
    and publisher: "edge_node (m_client m) = None"
  shows "length (cl_wire (m_client m')) + out = length (cl_wire (m_client m)) + out' + of_bool (is_ack act)"
proof -
  have fair: "fair act m out" and m': "machine_step encode act m = Some m'"
    and out': "out' = out_after act out"
    using step by (auto simp: linked_step_def split: if_splits)
  show ?thesis
  proof (cases act)
    case (Enter i)
    with m' out' show ?thesis
      by (auto simp: enter_def Let_def hand_over_simps reserve_seq_eq
          split: option.splits task.splits sum.splits prod.splits)
  next
    case (Answer i answer)
    with m' obtain p where "m' = answered encode i p answer m"
      by (auto split: option.splits task.splits)
    with Answer out' show ?thesis
      using answered_ends_eq [OF disjI2 [OF second_message_publisher [OF publisher]], of encode i p answer]
      by (cases answer) (simp_all add: take_request_def end_reservation_def)
  next
    case (Poll e)
    with m' out' fair assms(2) show ?thesis
      by (cases "act" rule: is_ack.cases) (auto simp: poll_def)
  qed (use m' out' fair in \<open>auto split: if_splits option.splits task.splits\<close>)
qed

lemma linked_run_wire:
  fixes m m' :: "'x machine"
  assumes "run (linked_step encode) acts (m, out) = Some (m', out')"
    and "list_all (\<lambda>act. \<not> is_loss act) acts" and "edge_node (m_client m) = None"
  shows "length (cl_wire (m_client m')) + out =
    length (cl_wire (m_client m)) + out' + length (filter is_ack acts)"
  using assms
proof (induction acts arbitrary: m out)
  case Nil
  then show ?case by simp
next
  case (Cons act acts)
  from Cons.prems(1) obtain m1 out1 where step: "linked_step encode act (m, out) = Some (m1, out1)"
    and rest: "run (linked_step encode) acts (m1, out1) = Some (m', out')"
    by (auto split: option.splits)
  have "edge_node (m_client m1) = None"
    using step step_edge_node [of encode act m m1] Cons.prems(3)
    by (auto simp: linked_step_def split: if_splits)
  with Cons.IH [OF rest] Cons.prems(2) linked_step_wire [OF step _ Cons.prems(3)]
  show ?case by (auto simp: of_bool_def split: if_splits)
qed


section \<open>Properties\<close>

text \<open>
  C9. Drained means answered, outside two windows: on a publisher client whose link
  ends only while no message is at the client, and of which no call is cancelled in
  the instant the client takes its message, the tracker counts the messages at the
  client and the messages that still wait for their acknowledgement, no more and no
  fewer, so a flush sees the count at zero exactly when there are none of either.
  Over one link, the messages on the wire are those that wait and those
  acknowledged. The broker acknowledges only what it was sent, and fewer than
  \<open>2 ^ 32 - 1\<close> publishes are outstanding when another enters.
\<close>

theorem drained_means_answered:
  assumes "edge_node c = None" and "cl_delivery c = DeliveryTracker_new" and "cl_wire c = []"
    and reached: "run (linked_step encode) acts (machine_init c, 0) = Some (m, out)"
  shows "unat (unacked (cl_delivery (m_client m))) = out + card (at_client m) \<and>
    (drained_now (cl_delivery (m_client m)) \<longleftrightarrow> out = 0 \<and> at_client m = {}) \<and>
    (list_all (\<lambda>act. \<not> is_loss act) acts \<longrightarrow>
       length (cl_wire (m_client m)) = out + length (filter is_ack acts))"
proof -
  have "balanced (machine_init c, 0)"
    using assms(1,2) by (simp add: balanced_def at_client_def DeliveryTracker_new_def)
  from linked.run_inv [OF this reached]
  have count: "unat (unacked (cl_delivery (m_client m))) = out + card (at_client m)"
    and fin: "finite (at_client m)"
    by (simp_all add: balanced_def)
  then have "drained_now (cl_delivery (m_client m)) \<longleftrightarrow> out = 0 \<and> at_client m = {}"
    by (auto simp: drained_now_def simp flip: unat_eq_0)
  moreover have "length (cl_wire (m_client m)) = out + length (filter is_ack acts)"
    if "list_all (\<lambda>act. \<not> is_loss act) acts"
    using linked_run_wire [OF reached that] assms(1,3) by simp
  ultimately show ?thesis using count by blast
qed

text \<open>One link, on which the fairness of a step can be computed.\<close>

definition one_link_step ::
    "(Payload \<Rightarrow> u8 list) \<Rightarrow> ('x, 'e) action \<Rightarrow> 'x machine \<times> nat \<Rightarrow> ('x machine \<times> nat) option" where
  "one_link_step encode act s =
     (if is_loss act \<or> is_ack act \<and> snd s = 0 \<or>
         (case act of
            Steal _ \<Rightarrow> True
          | Enter _ \<Rightarrow> unacked (cl_delivery (m_client (fst s))) = u32_max
          | _ \<Rightarrow> False)
      then None
      else map_option (\<lambda>m'. (m', out_after act (snd s))) (machine_step encode act (fst s)))"

lemma one_link_linked: "one_link_step encode act s = Some t \<Longrightarrow> linked_step encode act s = Some t"
  by (cases act) (auto simp: one_link_step_def linked_step_def split: if_splits)

lemma one_link_run: "run (one_link_step encode) acts s = Some t \<Longrightarrow> run (linked_step encode) acts s = Some t"
  by (induction acts arbitrary: s) (auto split: option.splits dest: one_link_linked)

definition acked_publish :: "(unit, unit) action list" where
  "acked_publish = two_publishes @ [Poll (Inr (Incoming PubAck)), Answer 1 Taken]"

theorem drained_means_answered_witness:
  "\<exists>m out. run (linked_step unary_encode) acked_publish
       (machine_init (idle_client ''spBv1.0'' IdentityPublisher), 0) = Some (m, out) \<and>
     out = 1 \<and> unat (unacked (cl_delivery (m_client m))) = out + card (at_client m) \<and>
     length (cl_wire (m_client m)) = 2"
proof -
  let ?c = "idle_client ''spBv1.0'' IdentityPublisher"
  have "case run (one_link_step unary_encode) acked_publish (machine_init ?c, 0) of
      None \<Rightarrow> False | Some s \<Rightarrow> snd s = 1"
    by code_simp
  then obtain m out where "run (one_link_step unary_encode) acked_publish (machine_init ?c, 0) = Some (m, out)"
    and out: "out = 1"
    by (auto split: option.splits)
  then have reached: "run (linked_step unary_encode) acked_publish (machine_init ?c, 0) = Some (m, out)"
    by (intro one_link_run)
  have client: "edge_node ?c = None" "cl_delivery ?c = DeliveryTracker_new" "cl_wire ?c = []"
    by (simp_all add: idle_client_def edge_node_def)
  from drained_means_answered [OF client reached] reached out show ?thesis
    by (simp add: acked_publish_def two_publishes_def Let_def loss_event_def)
qed


section \<open>Acknowledgements that clear another publish\<close>

text \<open>
  Outside these conditions the count can fall below the messages that wait. A
  message that the client takes in the instant its call is cancelled is no
  longer counted, but the broker acknowledges it all the same, and that
  acknowledgement clears the publish of another call: two messages are on the
  wire, one is acknowledged, and a flush answers \<open>Ok\<close>.
\<close>

definition confirms_early :: "client \<Rightarrow> bool" where
  "confirms_early c \<longleftrightarrow>
     drained_now (cl_delivery c) \<and>
     fst (client_flush 0 id (Inr ()) c) = (Inr () :: unit SparkplugError + unit)"

lemma confirms_earlyI:
  "unacked (cl_delivery c) = 0 \<Longrightarrow> lost (cl_delivery c) = 0 \<Longrightarrow> confirms_early c"
  by (simp add: confirms_early_def drained_now_def client_flush_def flush_def flush_open_def
      flush_close_def to_u32_saturating_def Let_def split_beta)

definition flushed :: "client \<Rightarrow> client" where
  "flushed c = c\<lparr>cl_delivery := (cl_delivery c)\<lparr>lost := 0, reported := reported (cl_delivery c) + 1\<rparr>\<rparr>"

lemma flush_reports_one:
  "lost (cl_delivery c) = 1 \<Longrightarrow>
     client_flush t id (Inr ()) c = (Inl (PublishLost 1) :: 'x SparkplugError + unit, flushed c)"
  by (simp add: client_flush_def flush_def flush_open_def flush_close_def to_u32_saturating_def
      flushed_def Let_def split_beta)

definition stolen_ack :: "(unit, unit) action list" where
  "stolen_ack =
     (let topic = ddata sparkplug_b (GroupId ''g'') (EdgeNodeId ''n'') (DeviceId ''d'')
      in [Start 0 (CallMetrics topic [] (Timestamp 0)), Start 1 (CallMetrics topic [] (Timestamp 0)),
          Enter 0, Steal 0, Enter 1, Answer 1 Taken, Poll (Inr (Incoming PubAck))])"

lemma stolen_ack_confirms_early:
  "case end_state stolen_ack IdentityPublisher of
     None \<Rightarrow> False
   | Some m \<Rightarrow> length (cl_wire (m_client m)) = 2 \<and> length (filter is_ack stolen_ack) = 1 \<and>
       confirms_early (m_client m)"
proof -
  have "case end_state stolen_ack IdentityPublisher of
      None \<Rightarrow> False
    | Some m \<Rightarrow> length (cl_wire (m_client m)) = 2 \<and> length (filter is_ack stolen_ack) = 1 \<and>
        unacked (cl_delivery (m_client m)) = 0 \<and> lost (cl_delivery (m_client m)) = 0"
    by code_simp
  then show ?thesis by (auto intro: confirms_earlyI split: option.splits)
qed

text \<open>
  The same happens without any cancellation. A message that waits for the client
  while a disconnect is recorded is reported as lost, by the flush in between;
  the client takes it afterwards, and its acknowledgement clears the publish of
  another call.
\<close>

definition waits_at_loss :: "(unit, unit) action list" where
  "waits_at_loss =
     (let topic = ddata sparkplug_b (GroupId ''g'') (EdgeNodeId ''n'') (DeviceId ''d'')
      in [Start 0 (CallMetrics topic [] (Timestamp 0)), Enter 0, Poll (Inl ())])"

definition taken_after_loss :: "(unit, unit) action list" where
  "taken_after_loss =
     (let topic = ddata sparkplug_b (GroupId ''g'') (EdgeNodeId ''n'') (DeviceId ''d'')
      in [Answer 0 Taken, Start 1 (CallMetrics topic [] (Timestamp 0)), Enter 1, Answer 1 Taken,
          Poll (Inr (Incoming PubAck))])"

lemma late_ack_confirms_early:
  "case end_state waits_at_loss IdentityPublisher of
     None \<Rightarrow> False
   | Some m \<Rightarrow>
       (let (answer, c) = client_flush 0 id (Inr ()) (m_client m)
        in answer = (Inl (PublishLost 1) :: unit SparkplugError + unit) \<and>
           (case run (machine_step unary_encode) taken_after_loss (m\<lparr>m_client := c\<rparr>) of
              None \<Rightarrow> False
            | Some m' \<Rightarrow> length (cl_wire (m_client m')) = 2 \<and>
                length (filter is_ack taken_after_loss) = 1 \<and> confirms_early (m_client m')))"
proof -
  have "case end_state waits_at_loss IdentityPublisher of
      None \<Rightarrow> False
    | Some m \<Rightarrow> lost (cl_delivery (m_client m)) = 1 \<and>
        (case run (machine_step unary_encode) taken_after_loss (m\<lparr>m_client := flushed (m_client m)\<rparr>) of
           None \<Rightarrow> False
         | Some m' \<Rightarrow> length (cl_wire (m_client m')) = 2 \<and>
             length (filter is_ack taken_after_loss) = 1 \<and>
             unacked (cl_delivery (m_client m')) = 0 \<and> lost (cl_delivery (m_client m')) = 0)"
    by code_simp
  then show ?thesis by (auto simp: flush_reports_one intro: confirms_earlyI split: option.splits)
qed


end
