(* ===== verification/Delivery_Windows.thy ===== *)
theory Delivery_Windows
  imports Publish_Delivery
begin

text \<open>
  What the tracker misses. The theory \<open>Publish_Delivery\<close> shows that the count of a
  publisher client is exact while no call is cancelled in the instant the client
  takes its message and no link ends while a message is at the client. Here both may
  happen, at any time. A message that the client takes then is not counted, and its
  acknowledgement clears the count of another; this theory bounds what that hides.
\<close>

section \<open>A client, its broker and what is not counted\<close>

text \<open>
  Beside the machine: the messages taken over the present link that wait for their
  acknowledgement, how many messages were taken over it without being counted, and
  the links that ended.
\<close>

record link_view =
  waiting :: nat
  uncounted :: nat
  links_ended :: nat

definition view_init :: link_view where
  "view_init = \<lparr>waiting = 0, uncounted = 0, links_ended = 0\<rparr>"

text \<open>A message at the client is counted while its ticket is one of the present generation.\<close>

definition counts_for :: "State \<Rightarrow> pending \<Rightarrow> bool" where
  "counts_for st p \<longleftrightarrow> p_guard p = Some (PublishInFlight (Some (PublishTicket (generation st))))"

definition takes :: "bool \<Rightarrow> link_view \<Rightarrow> link_view" where
  "takes counted v = v\<lparr>waiting := Suc (waiting v),
     uncounted := (if counted then uncounted v else Suc (uncounted v))\<rparr>"

fun view_after :: "('x, 'e) action \<Rightarrow> 'x machine \<Rightarrow> link_view \<Rightarrow> link_view" where
  "view_after (Answer i answer) m v =
     (case m_tasks m i of
        Some (AwaitClient p) \<Rightarrow>
          (if is_taken answer then takes (counts_for (cl_delivery (m_client m)) p) v else v)
      | _ \<Rightarrow> v)"
| "view_after (Steal i) m v = takes False v"
| "view_after (Poll e) m v =
     (if e = Inr (Incoming PubAck) then v\<lparr>waiting := waiting v - 1\<rparr>
      else if loss_event e then \<lparr>waiting = 0, uncounted = 0, links_ended = Suc (links_ended v)\<rparr>
      else v)"
| "view_after _ m v = v"

text \<open>
  The broker acknowledges only what it was sent over this link. \<open>Enter\<close> stops short
  of the count that would wrap, and a loss short of the generation that would.
\<close>

fun honest :: "('x, 'e) action \<Rightarrow> 'x machine \<Rightarrow> link_view \<Rightarrow> bool" where
  "honest (Enter i) m v \<longleftrightarrow> unacked (cl_delivery (m_client m)) \<noteq> u32_max"
| "honest (Poll e) m v \<longleftrightarrow>
     (e = Inr (Incoming PubAck) \<longrightarrow> 0 < waiting v) \<and>
     (loss_event e \<longrightarrow> generation (cl_delivery (m_client m)) + 1 \<noteq> 0)"
| "honest _ m v \<longleftrightarrow> True"

definition window_step ::
    "(Payload \<Rightarrow> u8 list) \<Rightarrow> ('x, 'e) action \<Rightarrow> 'x machine \<times> link_view \<Rightarrow>
     ('x machine \<times> link_view) option" where
  "window_step encode act s =
     (if honest act (fst s) (snd s)
      then map_option (\<lambda>m'. (m', view_after act (fst s) (snd s))) (machine_step encode act (fst s))
      else None)"

text \<open>The tasks whose message at the client is counted.\<close>

definition counted_at_client :: "'x machine \<Rightarrow> nat set" where
  "counted_at_client m =
     {i. \<exists>p. m_tasks m i = Some (AwaitClient p) \<and> counts_for (cl_delivery (m_client m)) p}"

text \<open>
  The count lies between what waits and what waits less the uncounted. Every message
  at the client holds a ticket of this or an earlier generation.
\<close>

definition nearly_balanced :: "'x machine \<times> link_view \<Rightarrow> bool" where
  "nearly_balanced s \<longleftrightarrow>
     (let m = fst s; v = snd s; st = cl_delivery (m_client m) in
      edge_node (m_client m) = None \<and> finite (at_client m) \<and>
      links_ended v < 2 ^ 64 \<and> generation st = word_of_nat (links_ended v) \<and>
      (\<forall>i p. m_tasks m i = Some (AwaitClient p) \<longrightarrow>
         (\<exists>g\<le>links_ended v. p_guard p = Some (PublishInFlight (Some (PublishTicket (word_of_nat g)))))) \<and>
      unat (unacked st) \<le> waiting v + card (counted_at_client m) \<and>
      waiting v + card (counted_at_client m) \<le> unat (unacked st) + uncounted v)"

lemma nearly_balancedI:
  assumes "edge_node (m_client m) = None" "finite (at_client m)" "links_ended v < 2 ^ 64"
    "generation (cl_delivery (m_client m)) = word_of_nat (links_ended v)"
    "\<And>i p. m_tasks m i = Some (AwaitClient p) \<Longrightarrow>
       \<exists>g\<le>links_ended v. p_guard p = Some (PublishInFlight (Some (PublishTicket (word_of_nat g))))"
    "unat (unacked (cl_delivery (m_client m))) \<le> waiting v + card (counted_at_client m)"
    "waiting v + card (counted_at_client m) \<le> unat (unacked (cl_delivery (m_client m))) + uncounted v"
  shows "nearly_balanced (m, v)"
  using assms by (simp add: nearly_balanced_def Let_def)

lemma nearly_balancedD:
  assumes "nearly_balanced (m, v)"
  shows "edge_node (m_client m) = None" "finite (at_client m)" "links_ended v < 2 ^ 64"
    "generation (cl_delivery (m_client m)) = word_of_nat (links_ended v)"
    "m_tasks m i = Some (AwaitClient p) \<Longrightarrow>
       \<exists>g\<le>links_ended v. p_guard p = Some (PublishInFlight (Some (PublishTicket (word_of_nat g))))"
    "unat (unacked (cl_delivery (m_client m))) \<le> waiting v + card (counted_at_client m)"
    "waiting v + card (counted_at_client m) \<le> unat (unacked (cl_delivery (m_client m))) + uncounted v"
  using assms by (simp_all add: nearly_balanced_def Let_def)

lemma counted_finite: "finite (at_client m) \<Longrightarrow> finite (counted_at_client m)"
  by (rule finite_subset [of _ "at_client m"]) (auto simp: counted_at_client_def at_client_def)

lemma counted_cong:
  assumes "\<And>i p. (m_tasks m' i = Some (AwaitClient p)) = (m_tasks m i = Some (AwaitClient p))"
    and "generation (cl_delivery (m_client m')) = generation (cl_delivery (m_client m))"
  shows "counted_at_client m' = counted_at_client m"
  using assms by (simp add: counted_at_client_def counts_for_def)

text \<open>One message leaves the client.\<close>

lemma counted_leaves:
  assumes "finite (at_client m)" and p: "m_tasks m i = Some (AwaitClient p)"
    and "m_tasks m' = (m_tasks m)(i := None)"
    and "generation (cl_delivery (m_client m')) = generation (cl_delivery (m_client m))"
  shows "card (counted_at_client m') + of_bool (counts_for (cl_delivery (m_client m)) p) =
    card (counted_at_client m)"
proof -
  have less: "counted_at_client m' = counted_at_client m - {i}"
    using assms(3,4) by (auto simp: counted_at_client_def counts_for_def split: if_splits)
  have "i \<in> counted_at_client m \<longleftrightarrow> counts_for (cl_delivery (m_client m)) p"
    using p by (simp add: counted_at_client_def)
  with card_Suc_Diff1 [OF counted_finite [OF assms(1)], of i] show ?thesis by (auto simp: less)
qed


section \<open>Every step keeps the bounds\<close>

lemma nearly_balanced_keep:
  assumes inv: "nearly_balanced (m, v)" and "edge_node (m_client m') = edge_node (m_client m)"
    and "cl_delivery (m_client m') = cl_delivery (m_client m)"
    and same: "\<And>i p. (m_tasks m' i = Some (AwaitClient p)) = (m_tasks m i = Some (AwaitClient p))"
  shows "nearly_balanced (m', v)"
proof -
  have "at_client m' = at_client m" by (simp add: at_client_def same)
  moreover have "counted_at_client m' = counted_at_client m"
    by (rule counted_cong) (simp_all add: same assms(3))
  ultimately show ?thesis
    using inv by (simp add: nearly_balanced_def Let_def same assms(2,3))
qed

lemma enter_nearly:
  fixes m m' :: "'x machine"
  assumes inv: "nearly_balanced (m, v)" and gate: "m_tasks m i = Some (AwaitGate cl)"
    and room: "unacked (cl_delivery (m_client m)) \<noteq> u32_max"
    and step: "enter encode i cl m = Some m'"
  shows "nearly_balanced (m', v)"
proof -
  let ?st = "cl_delivery (m_client m)"
  note parts = nearly_balancedD [OF inv]
  have "unacked ?st + 1 \<noteq> 0" using room by (metis add_eq_0_iff add.commute)
  then have more: "unat (unacked ?st + 1) = Suc (unat (unacked ?st))" by (metis add.commute unatSuc)
  let ?guard = "Some (PublishInFlight (Some (PublishTicket (generation ?st))))"
  have counted: "count_publish (wire_options (role (m_client m)) mt) ?st =
      (?guard, ?st\<lparr>unacked := unacked ?st + 1\<rparr>)" for mt
    by (simp add: count_publish_def publisher_tracked [OF parts(1)] publish_in_flight_def
        record_publish_def Let_def)
  from enter_shape [OF step] consider
      (over) "m_tasks m' = (m_tasks m)(i := None)"
        "edge_node (m_client m') = edge_node (m_client m)" "cl_delivery (m_client m') = ?st"
    | (handed) p where "m_tasks m' = (m_tasks m)(i \<mapsto> AwaitClient p)" "p_guard p = ?guard"
        "edge_node (m_client m') = edge_node (m_client m)"
        "cl_delivery (m_client m') = ?st\<lparr>unacked := unacked ?st + 1\<rparr>"
    by (auto simp: hand_over_simps counted)
  then show ?thesis
  proof cases
    case over
    then show ?thesis by (intro nearly_balanced_keep [OF inv]) (use gate in auto)
  next
    case handed
    have "counted_at_client m' = insert i (counted_at_client m)"
      using handed(1,2) gate by (auto simp: counted_at_client_def counts_for_def handed(4) split: if_splits)
    moreover have "i \<notin> counted_at_client m" using gate by (simp add: counted_at_client_def)
    ultimately have size: "card (counted_at_client m') = Suc (card (counted_at_client m))"
      using counted_finite [OF parts(2)] by simp
    have count: "unat (unacked (cl_delivery (m_client m'))) = Suc (unat (unacked ?st))"
      by (simp add: handed(4) more)
    show ?thesis
    proof (rule nearly_balancedI)
      fix j q
      assume q: "m_tasks m' j = Some (AwaitClient q)"
      show "\<exists>g\<le>links_ended v. p_guard q = Some (PublishInFlight (Some (PublishTicket (word_of_nat g))))"
      proof (cases "j = i")
        case True
        with q handed(1,2) parts(4) show ?thesis by auto
      next
        case False
        with q handed(1) parts(5) show ?thesis by simp
      qed
    next
      show "finite (at_client m')" using parts(2) at_client_tasks(1) [OF handed(1)] by simp
    next
      show "unat (unacked (cl_delivery (m_client m'))) \<le> waiting v + card (counted_at_client m')"
        "waiting v + card (counted_at_client m') \<le> unat (unacked (cl_delivery (m_client m'))) + uncounted v"
        using parts(6,7) unfolding size count by simp_all
    qed (use parts handed in simp_all)
  qed
qed

text \<open>A message leaves the client: its call ends, and the count goes back if it was counted and not taken.\<close>

lemma leave_nearly:
  fixes m m' :: "'x machine"
  assumes inv: "nearly_balanced (m, v)" and p: "m_tasks m i = Some (AwaitClient p)"
    and tasks: "m_tasks m' = (m_tasks m)(i := None)"
    and node: "edge_node (m_client m') = edge_node (m_client m)"
    and st: "cl_delivery (m_client m') = (if kept then cl_delivery (m_client m)
      else snd (settle_publish (p_guard p) (Cancelled :: 'x client_answer) (cl_delivery (m_client m))))"
    and v': "v' = (if kept then takes (counts_for (cl_delivery (m_client m)) p) v
      else if unseen then takes False v else v)"
  shows "nearly_balanced (m', v')"
proof -
  let ?st = "cl_delivery (m_client m)" and ?counted = "counts_for (cl_delivery (m_client m)) p"
  note parts = nearly_balancedD [OF inv]
  obtain g where guard: "p_guard p = Some (PublishInFlight (Some (PublishTicket (word_of_nat g))))"
    using parts(5) [OF p] by blast
  have st': "cl_delivery (m_client m') =
      (if \<not> kept \<and> ?counted then ?st\<lparr>unacked := saturating_dec (unacked ?st)\<rparr> else ?st)"
    by (auto simp: st settle_publish_def guard counts_for_def drop_in_flight_def record_publish_failed_def)
  have size: "card (counted_at_client m') + of_bool ?counted = card (counted_at_client m)"
    by (rule counted_leaves [OF parts(2) p tasks]) (simp add: st')
  have links: "links_ended v' = links_ended v" by (simp add: v' takes_def)
  show ?thesis
  proof (rule nearly_balancedI)
    show "finite (at_client m')" using parts(2) at_client_tasks(3) [OF tasks] by simp
    show "\<exists>g\<le>links_ended v'. p_guard q = Some (PublishInFlight (Some (PublishTicket (word_of_nat g))))"
      if "m_tasks m' j = Some (AwaitClient q)" for j q
      using that parts(5) [of j q] by (auto simp: tasks links split: if_splits)
    show "unat (unacked (cl_delivery (m_client m'))) \<le> waiting v' + card (counted_at_client m')"
      "waiting v' + card (counted_at_client m') \<le> unat (unacked (cl_delivery (m_client m'))) + uncounted v'"
      using parts(6,7) size by (auto simp: st' v' takes_def of_bool_def split: if_splits)
  qed (use parts in \<open>simp_all add: node links st'\<close>)
qed

lemma poll_nearly:
  fixes m :: "'x machine"
  assumes inv: "nearly_balanced (m, v)" and honest: "honest (Poll e) m v"
  shows "nearly_balanced (m\<lparr>m_client := poll e (m_client m)\<rparr>, view_after (Poll e) m v)"
proof -
  let ?m' = "m\<lparr>m_client := poll e (m_client m)\<rparr>" and ?st = "cl_delivery (m_client m)"
  note parts = nearly_balancedD [OF inv]
  have here: "at_client ?m' = at_client m" by (simp add: at_client_def)
  show ?thesis
  proof (cases "loss_event e")
    case True
    then have "e \<noteq> Inr (Incoming PubAck)" by (auto simp: loss_event_def)
    then have v': "view_after (Poll e) m v = \<lparr>waiting = 0, uncounted = 0, links_ended = Suc (links_ended v)\<rparr>"
      using True by simp
    have st': "cl_delivery (m_client ?m') = record_disconnect ?st"
      using True by (simp add: poll_def apply_event_loss)
    have room: "Suc (links_ended v) < 2 ^ 64"
    proof (rule ccontr)
      assume "\<not> Suc (links_ended v) < 2 ^ 64"
      then have "Suc (links_ended v) = 2 ^ 64" using parts(3) by simp
      then have "(word_of_nat (Suc (links_ended v)) :: u64) = word_of_nat (2 ^ 64)" by (simp only:)
      then have "generation ?st + 1 = 0" using parts(4) by simp
      with honest True show False by simp
    qed
    have later: "(word_of_nat g :: u64) \<noteq> word_of_nat (Suc (links_ended v))" if "g \<le> links_ended v" for g
    proof
      assume "(word_of_nat g :: u64) = word_of_nat (Suc (links_ended v))"
      then have "unat (word_of_nat g :: u64) = unat (word_of_nat (Suc (links_ended v)) :: u64)" by simp
      then have "g = Suc (links_ended v)" using room that by (simp only: unat_of_nat) simp
      with that show False by simp
    qed
    have gen: "generation (record_disconnect ?st) = word_of_nat (Suc (links_ended v))"
      using parts(4) by (simp add: record_disconnect_def)
    have "\<not> counts_for (record_disconnect ?st) p" if p: "m_tasks m i = Some (AwaitClient p)" for i p
    proof -
      obtain g where "g \<le> links_ended v"
        and guard: "p_guard p = Some (PublishInFlight (Some (PublishTicket (word_of_nat g))))"
        using parts(5) [OF p] by blast
      from later [OF this(1)] show ?thesis unfolding counts_for_def gen guard by blast
    qed
    then have none: "counted_at_client ?m' = {}"
      unfolding counted_at_client_def st' by auto
    show ?thesis unfolding v'
    proof (rule nearly_balancedI)
      fix j q
      assume "m_tasks ?m' j = Some (AwaitClient q)"
      then show "\<exists>g\<le>links_ended \<lparr>waiting = 0, uncounted = 0, links_ended = Suc (links_ended v)\<rparr>.
          p_guard q = Some (PublishInFlight (Some (PublishTicket (word_of_nat g))))"
        using parts(5) [of j q] by (auto intro: le_SucI)
    qed (use parts(1,2) room gen here none st' in \<open>simp_all add: poll_def record_disconnect_def\<close>)
  next
    case False
    then have st': "cl_delivery (m_client ?m') =
        (if e = Inr (Incoming PubAck) then ?st\<lparr>unacked := saturating_dec (unacked ?st)\<rparr> else ?st)"
      by (simp add: poll_def apply_event_no_loss record_ack_def release_one_def)
    define n where "n = ?m'"
    have n: "m_tasks n = m_tasks m" "edge_node (m_client n) = edge_node (m_client m)"
      "cl_delivery (m_client n) =
         (if e = Inr (Incoming PubAck) then ?st\<lparr>unacked := saturating_dec (unacked ?st)\<rparr> else ?st)"
      using st' by (simp_all add: n_def poll_def)
    have same: "counted_at_client n = counted_at_client m" "at_client n = at_client m"
      by (rule counted_cong) (simp_all add: n at_client_def)
    have ack: "waiting v \<noteq> 0" if "e = Inr (Incoming PubAck)" using honest that by simp
    have "nearly_balanced (n, view_after (Poll e) m v)"
      by (rule nearly_balancedI)
         (use parts False ack in \<open>auto simp: n same\<close>)
    then show ?thesis unfolding n_def .
  qed
qed

lemma window_step_nearly:
  fixes s t :: "'x machine \<times> link_view"
  assumes inv: "nearly_balanced s" and step: "window_step encode act s = Some t"
  shows "nearly_balanced t"
proof -
  obtain m v where s: "s = (m, v)" by (cases s)
  obtain m' where honest: "honest act m v" and m': "machine_step encode act m = Some m'"
    and t: "t = (m', view_after act m v)"
    using step by (auto simp: window_step_def s split: if_splits)
  have inv: "nearly_balanced (m, v)" using inv by (simp add: s)
  have node: "edge_node (m_client m') = edge_node (m_client m)" by (rule step_edge_node [OF m'])
  have publisher: "edge_node (m_client m) = None" using nearly_balancedD(1) [OF inv] .
  show ?thesis
  proof (cases act)
    case (Start i cl)
    with m' have "m_tasks m i = None" "m' = m\<lparr>m_tasks := (m_tasks m)(i \<mapsto> AwaitGate cl)\<rparr>"
      by (simp_all split: if_splits)
    then show ?thesis unfolding t Start view_after.simps
      by (intro nearly_balanced_keep [OF inv]) auto
  next
    case (Enter i)
    with m' obtain cl where "m_tasks m i = Some (AwaitGate cl)" "enter encode i cl m = Some m'"
      by (auto split: option.splits task.splits)
    with honest enter_nearly [OF inv] show ?thesis unfolding t Enter view_after.simps by simp
  next
    case (Answer i answer)
    with m' obtain p where p: "m_tasks m i = Some (AwaitClient p)" and eq: "m' = answered encode i p answer m"
      by (auto split: option.splits task.splits)
    note ends = answered_ends_eq [OF disjI2 [OF second_message_publisher [OF publisher]], of encode i p answer,
        folded eq]
    show ?thesis unfolding t
    proof (rule leave_nearly [OF inv p, where kept = "is_taken answer" and unseen = False])
      show "m_tasks m' = (m_tasks m)(i := None)" by (simp add: ends)
      show "cl_delivery (m_client m') = (if is_taken answer then cl_delivery (m_client m)
          else snd (settle_publish (p_guard p) (Cancelled :: 'x client_answer) (cl_delivery (m_client m))))"
        unfolding ends
        by (cases answer; cases "p_guard p")
           (simp_all add: settle_publish_def end_reservation_def take_request_def)
    qed (simp_all add: node Answer p)
  next
    case (Steal i)
    with m' obtain p where p: "m_tasks m i = Some (AwaitClient p)" and eq: "m' = stolen i p m"
      by (auto split: option.splits task.splits)
    show ?thesis unfolding t
    proof (rule leave_nearly [OF inv p, where kept = False and unseen = True])
      show "m_tasks m' = (m_tasks m)(i := None)" by (simp add: eq stolen_def settle_eq)
      show "cl_delivery (m_client m') = (if False then cl_delivery (m_client m)
          else snd (settle_publish (p_guard p) (Cancelled :: 'x client_answer) (cl_delivery (m_client m))))"
        by (simp add: eq stolen_def settle_eq end_reservation_def take_request_def)
    qed (simp_all add: node Steal)
  next
    case (Leave i)
    with m' obtain cl where "m_tasks m i = Some (AwaitGate cl)" "m' = finish i None (m_client m) m"
      by (auto split: option.splits task.splits)
    then show ?thesis unfolding t Leave view_after.simps
      by (intro nearly_balanced_keep [OF inv]) auto
  next
    case (Poll e)
    with m' have eq: "m' = m\<lparr>m_client := poll e (m_client m)\<rparr>" by simp
    show ?thesis unfolding t eq Poll
      by (rule poll_nearly [OF inv]) (use honest Poll in \<open>simp only:\<close>)
  qed
qed

interpretation windows: machine_invariant "window_step encode" nearly_balanced for encode
  by unfold_locales (rule window_step_nearly)


section \<open>Properties\<close>

text \<open>
  C39. A flush can miss only what was taken uncounted: on a publisher client whose
  broker acknowledges only what it was sent over the present link, whatever calls,
  cancellations, cancellations in the instant the client takes a message, polls and
  ends of links interleave, the tracker never counts more than the messages that wait
  for their acknowledgement and the counted ones at the client, and it counts at most
  as many fewer as messages were taken uncounted since the last link ended: those
  taken in the instant of their cancellation and those that waited at the client
  while a link ended. So where the count is zero at most that many are unanswered, and
  where no message was taken uncounted the count is exact. Bounds: fewer than
  \<open>2 ^ 32 - 1\<close> publishes outstanding when another enters, and a generation that does
  not wrap.
\<close>

theorem drained_misses_only_uncounted:
  assumes "edge_node c = None" and "cl_delivery c = DeliveryTracker_new"
    and reached: "run (window_step encode) acts (machine_init c, view_init) = Some (m, v)"
  shows "unat (unacked (cl_delivery (m_client m))) \<le> waiting v + card (counted_at_client m) \<and>
    waiting v + card (counted_at_client m) \<le> unat (unacked (cl_delivery (m_client m))) + uncounted v \<and>
    (drained_now (cl_delivery (m_client m)) \<longrightarrow> waiting v + card (counted_at_client m) \<le> uncounted v) \<and>
    (uncounted v = 0 \<longrightarrow>
       unat (unacked (cl_delivery (m_client m))) = waiting v + card (counted_at_client m) \<and>
       (drained_now (cl_delivery (m_client m)) \<longleftrightarrow> waiting v = 0 \<and> counted_at_client m = {}))"
proof -
  have "nearly_balanced (machine_init c, view_init)"
    by (rule nearly_balancedI)
       (simp_all add: assms(1,2) view_init_def at_client_def counted_at_client_def DeliveryTracker_new_def)
  then have inv: "nearly_balanced (m, v)" by (rule windows.run_inv [OF _ reached])
  have zero: "drained_now (cl_delivery (m_client m)) \<longleftrightarrow> unat (unacked (cl_delivery (m_client m))) = 0"
    by (simp add: drained_now_def unat_eq_zero)
  have "card (counted_at_client m) = 0 \<longleftrightarrow> counted_at_client m = {}"
    using counted_finite [OF nearly_balancedD(2) [OF inv]] by (rule card_0_eq)
  with nearly_balancedD(6,7) [OF inv] show ?thesis unfolding zero by linarith
qed

text \<open>
  The bound is reached: one message is taken as its call is cancelled, another is
  taken and counted, and one acknowledgement comes.
\<close>

theorem drained_misses_only_uncounted_witness:
  "\<exists>m v. run (window_step unary_encode) stolen_ack
       (machine_init (idle_client ''spBv1.0'' IdentityPublisher), view_init) = Some (m, v) \<and>
     drained_now (cl_delivery (m_client m)) \<and> waiting v = 1 \<and> waiting v \<le> uncounted v"
proof -
  let ?c = "idle_client ''spBv1.0'' IdentityPublisher"
  have "case run (window_step unary_encode) stolen_ack (machine_init ?c, view_init) of None \<Rightarrow> False
    | Some s \<Rightarrow> drained_now (cl_delivery (m_client (fst s))) \<and> waiting (snd s) = 1"
    by code_simp
  then obtain m v where reached: "run (window_step unary_encode) stolen_ack (machine_init ?c, view_init) = Some (m, v)"
    and shown: "drained_now (cl_delivery (m_client m))" "waiting v = 1"
    by (auto split: option.splits)
  have "edge_node ?c = None" "cl_delivery ?c = DeliveryTracker_new"
    by (simp_all add: idle_client_def edge_node_def)
  from drained_misses_only_uncounted [OF this reached] reached shown show ?thesis by auto
qed

end
