(* ===== verification/Clean_Shutdown.thy ===== *)
theory Clean_Shutdown
  imports Publish_Delivery
begin

text \<open>
  A client from its first publish to its shutdown. \<open>shutdown\<close> takes the client by
  value, and every publish call borrows it, so no call is under way when it
  starts: what runs beside it is the event loop alone.
\<close>

section \<open>What the loop does to the tracker\<close>

abbreviation acks :: "'e polled list \<Rightarrow> nat" where
  "acks es \<equiv> count_list es (Inr (Incoming PubAck))"

text \<open>Whatever the loop reads, a publish is outstanding, lost, or acknowledged.\<close>

lemma lost_or_acked:
  assumes "unat (unacked st) + unat (lost st) < 2 ^ 32"
  shows "unat (unacked (foldl apply_event st es)) + unat (lost (foldl apply_event st es)) \<le>
      unat (unacked st) + unat (lost st) \<and>
    unat (unacked st) + unat (lost st) \<le>
      unat (unacked (foldl apply_event st es)) + unat (lost (foldl apply_event st es)) + acks es \<and>
    reported (foldl apply_event st es) = reported st"
  using assms
proof (induction es arbitrary: st)
  case Nil
  then show ?case by simp
next
  case (Cons e es)
  show ?case
  proof (cases "loss_event e")
    case True
    then have e: "e \<noteq> Inr (Incoming PubAck)" by (auto simp: loss_event_def)
    have "unat (lost st + unacked st) = unat (lost st) + unat (unacked st)"
      using Cons.prems by (intro unat_add_no_wrap) simp
    then show ?thesis
      using Cons.IH [of "apply_event st e"] Cons.prems e
      by (simp add: apply_event_loss [OF True] record_disconnect_def)
  next
    case False
    let ?st = "apply_event st e"
    have now: "unat (unacked ?st) \<le> unat (unacked st) \<and>
        unat (unacked st) \<le> unat (unacked ?st) + (if e = Inr (Incoming PubAck) then 1 else 0) \<and>
        lost ?st = lost st \<and> reported ?st = reported st"
      by (auto simp: apply_event_no_loss [OF False] record_ack_def release_one_def unat_saturating_dec)
    then have "unat (unacked ?st) + unat (lost ?st) < 2 ^ 32" using Cons.prems by simp
    from Cons.IH [OF this] now show ?thesis
      by (auto simp del: apply_event.simps split: if_splits)
  qed
qed

lemma flush_ok_nothing_lost:
  assumes "fst (flush t meanwhile (Inr ()) st) = (Inr () :: 'x SparkplugError + unit)"
    and "reported (meanwhile st) = reported st"
  shows "lost (meanwhile st) = 0"
proof -
  have "ucast (lost (meanwhile st)) = (0 :: u64)"
    using assms by (simp add: flush_def flush_open_def flush_close_def Let_def to_u32_saturating_0
        split: if_splits)
  then have "unat (ucast (lost (meanwhile st)) :: u64) = 0" by simp
  then show ?thesis by (simp add: unat_eq_zero)
qed



section \<open>Runs without a loss\<close>

lemma drop_in_flight_lost [simp]: "lost (drop_in_flight guard st) = lost st"
  by (simp add: drop_in_flight_def record_publish_failed_def split: option.split)

lemma count_publish_lost: "count_publish opts st = (guard, st') \<Longrightarrow> lost st' = lost st"
  by (auto simp: count_publish_def publish_in_flight_def record_publish_def Let_def split: if_splits)

lemma linked_step_lost:
  fixes m m' :: "'x machine"
  assumes step: "linked_step encode act (m, out) = Some (m', out')" and "\<not> is_loss act"
    and publisher: "edge_node (m_client m) = None"
  shows "lost (cl_delivery (m_client m')) = lost (cl_delivery (m_client m))"
proof -
  have m': "machine_step encode act m = Some m'" and fair: "fair act m out"
    using step by (auto simp: linked_step_def split: if_splits)
  show ?thesis
  proof (cases act)
    case (Enter i)
    with m' obtain cl where "enter encode i cl m = Some m'" by (auto split: option.splits task.splits)
    from enter_shape [OF this] show ?thesis
      by (auto simp: hand_over_simps split_beta count_publish_lost [OF prod.collapse [symmetric]])
  next
    case (Answer i answer)
    with m' obtain p where "m' = answered encode i p answer m"
      by (auto split: option.splits task.splits)
    then show ?thesis
      using answered_ends_eq [OF disjI2 [OF second_message_publisher [OF publisher]], of encode i p answer]
      by (cases answer) (simp_all add: take_request_def end_reservation_def settle_publish_def
          split: option.split)
  next
    case (Poll e)
    with m' assms(2) show ?thesis
      by (auto simp: poll_def apply_event_no_loss record_ack_def release_one_def)
  qed (use m' fair in \<open>auto split: if_splits option.splits task.splits\<close>)
qed


lemma linked_run_lost:
  fixes m m' :: "'x machine"
  assumes "run (linked_step encode) acts (m, out) = Some (m', out')"
    and "list_all (\<lambda>act. \<not> is_loss act) acts" and "edge_node (m_client m) = None"
  shows "lost (cl_delivery (m_client m')) = lost (cl_delivery (m_client m))"
  using assms
proof (induction acts arbitrary: m out)
  case Nil
  then show ?case by simp
next
  case (Cons act acts)
  from Cons.prems(1) obtain m1 out1 where step: "linked_step encode act (m, out) = Some (m1, out1)"
    and rest: "run (linked_step encode) acts (m1, out1) = Some (m', out')"
    by (auto split: option.splits)
  have "edge_node (m_client m1) = None"
    using step step_edge_node [of encode act m m1] Cons.prems(3)
    by (auto simp: linked_step_def split: if_splits)
  with Cons.IH [OF rest] Cons.prems(2) linked_step_lost [OF step _ Cons.prems(3)] show ?case by simp
qed


section \<open>Properties\<close>

text \<open>
  C10. A clean shutdown confirms everything, outside the cancellation window: on a
  publisher client whose link has held, whose calls have ended, and of which none was
  cancelled in the instant the client took its message, whatever calls ran and
  however they interleaved, a shutdown that returns \<open>Ok\<close> means that every message
  the client ever took is acknowledged, none lost and none unanswered, that the
  client took the DISCONNECT and that the link was seen to end; the event loop is
  stopped. This holds also when the link ends while the shutdown runs. The broker
  acknowledges only what it was sent, and fewer than \<open>2 ^ 32 - 1\<close> publishes are
  outstanding when another enters.
\<close>

theorem clean_shutdown_confirms:
  fixes m :: "'x machine" and requested :: "unit + ('x + unit)"
  assumes "edge_node c = None" and "cl_delivery c = DeliveryTracker_new" and "cl_wire c = []"
    and reached: "run (linked_step encode) acts (machine_init c, 0) = Some (m, out)"
    and link: "list_all (\<lambda>act. \<not> is_loss act) acts" and over: "at_client m = {}"
    and broker: "count_list es (Inr (Incoming PubAck)) \<le> out"
    and drained: "drained = Inr () \<longrightarrow> drained_now (foldl apply_event (cl_delivery (m_client m)) es)"
    and sound: "wait_for_sound wait_for"
    and call: "shutdown t (\<lambda>st. foldl apply_event st es) drained requested wait_for (m_client m) = (Inr (), c')"
  shows "length (cl_wire c') = length (filter is_ack acts) + count_list es (Inr (Incoming PubAck)) \<and>
    requested = Inr (Inr ()) \<and>
    wait_for (\<lambda>h. h = Disconnected_link) = Inr (Inr Disconnected_link) \<and> cl_loop c' = Aborted"
proof -
  let ?st = "cl_delivery (m_client m)" and ?es = "\<lambda>st. foldl apply_event st es"
  have "balanced (machine_init c, 0)"
    using assms(1,2) by (simp add: balanced_def at_client_def DeliveryTracker_new_def)
  from linked.run_inv [OF this reached] have count: "unat (unacked ?st) = out"
    by (simp add: balanced_def over)
  have wire: "length (cl_wire (m_client m)) = out + length (filter is_ack acts)"
    using linked_run_wire [OF reached link] assms(1,3) by simp
  have "lost ?st = 0" using linked_run_lost [OF reached link] assms(1,2) by (simp add: DeliveryTracker_new_def)
  moreover have "unat (unacked ?st) < 2 ^ 32" using unsigned_less [of "unacked ?st"] by simp
  ultimately have kept: "unat (unacked ?st) \<le> unat (unacked (?es ?st)) + unat (lost (?es ?st)) + acks es"
    and still: "reported (?es ?st) = reported ?st"
    using lost_or_acked [of ?st es] by simp_all
  have parts: "fst (flush t ?es drained ?st) = (Inr () :: 'x SparkplugError + unit)"
      "disconnect_outcome requested wait_for = Written" "cl_wire c' = cl_wire (m_client m)"
      "cl_loop c' = Aborted"
    using call by (auto simp: shutdown_def shutdown_outcome_Inr client_flush_def drop_client_def
        split: prod.splits)
  then have "drained = Inr ()"
    by (cases drained) (simp_all add: flush_def flush_close_def Let_def)
  with parts(1) drained still flush_ok_nothing_lost [of t ?es ?st]
  have "lost (?es ?st) = 0" "unacked (?es ?st) = 0" by (simp_all add: drained_now_def)
  with kept have "out = acks es" using broker count by simp
  with wire parts show ?thesis
    using wait_for_disconnect_sound [OF sound]
    by (auto simp: disconnect_outcome_def split: sum.splits if_splits)
qed

text \<open>Two publishes, the first acknowledged during the run and the second by the shutdown.\<close>

theorem clean_shutdown_confirms_witness:
  "\<exists>m c'. run (linked_step unary_encode) acked_publish
       (machine_init (idle_client ''spBv1.0'' IdentityPublisher), 0) = Some (m, 1) \<and>
     shutdown 9 (\<lambda>st. foldl apply_event st [Inr (Incoming PubAck), Inl ()]) (Inr ()) (Inr (Inr ()))
       (\<lambda>accept. if accept Disconnected_link then Inr (Inr Disconnected_link) else Inl ())
       (m_client m) = (Inr () :: unit SparkplugError + unit, c') \<and> length (cl_wire c') = 2"
proof -
  let ?c = "idle_client ''spBv1.0'' IdentityPublisher" and ?es = "[Inr (Incoming PubAck), Inl ()]"
  let ?wait = "\<lambda>accept. if accept Disconnected_link then Inr (Inr Disconnected_link) else Inl () :: unit + (unit + Health)"
  have "case run (one_link_step unary_encode) acked_publish (machine_init ?c, 0) of
      None \<Rightarrow> False
    | Some s \<Rightarrow> snd s = 1 \<and> unacked (cl_delivery (m_client (fst s))) = 1 \<and>
        lost (cl_delivery (m_client (fst s))) = 0 \<and> m_tasks (fst s) 0 = None \<and> m_tasks (fst s) 1 = None"
    by code_simp
  then obtain m where "run (one_link_step unary_encode) acked_publish (machine_init ?c, 0) = Some (m, 1)"
    and now: "unacked (cl_delivery (m_client m)) = 1" "lost (cl_delivery (m_client m)) = 0"
    by (auto split: option.splits)
  then have reached: "run (linked_step unary_encode) acked_publish (machine_init ?c, 0) = Some (m, 1)"
    by (intro one_link_run)
  have client: "edge_node ?c = None" "cl_delivery ?c = DeliveryTracker_new" "cl_wire ?c = []"
    by (simp_all add: idle_client_def edge_node_def)
  have sound: "wait_for_sound ?wait" by (simp add: wait_for_sound_def)
  have "balanced (machine_init ?c, 0)"
    using client by (simp add: balanced_def at_client_def DeliveryTracker_new_def)
  from linked.run_inv [OF this reached] have over: "at_client m = {}"
    using now(1) by (auto simp: balanced_def)
  have link: "list_all (\<lambda>act. \<not> is_loss act) acked_publish"
    by (simp add: acked_publish_def two_publishes_def Let_def loss_event_def)
  have drained: "foldl apply_event (cl_delivery (m_client m)) ?es =
      record_disconnect (record_ack (cl_delivery (m_client m)))" by simp
  obtain result c' where call: "shutdown 9 (\<lambda>st. foldl apply_event st ?es) (Inr ())
      (Inr (Inr () :: unit + unit)) ?wait (m_client m) = (result, c')"
    by (cases "shutdown 9 (\<lambda>st. foldl apply_event st ?es) (Inr ())
      (Inr (Inr () :: unit + unit)) ?wait (m_client m)")
  have "result = Inr ()"
    using call now by (auto simp: shutdown_def shutdown_outcome_Inr client_flush_def flush_def flush_open_def
        flush_close_def record_disconnect_def record_ack_def release_one_def saturating_dec_def Let_def
        to_u32_saturating_0 disconnect_outcome_def wait_for_disconnect_def split: prod.splits)
  with call have call: "shutdown 9 (\<lambda>st. foldl apply_event st ?es) (Inr ())
      (Inr (Inr () :: unit + unit)) ?wait (m_client m) = (Inr (), c')" by simp
  have "drained_now (foldl apply_event (cl_delivery (m_client m)) ?es)"
    by (simp add: drained_now_def record_disconnect_def)
  then have "length (cl_wire c') = length (filter is_ack acked_publish) + 1"
    using clean_shutdown_confirms [OF client reached link over _ _ sound call] by simp
  moreover have "length (filter is_ack acked_publish) = 1"
    by (simp add: acked_publish_def two_publishes_def Let_def)
  ultimately show ?thesis using reached call by auto
qed

end
