(* ===== verification/Shutdown_Time.thy ===== *)
theory Shutdown_Time
  imports Client
begin

text \<open>
  The time a shutdown takes (\<open>shutdown\<close> of \<open>src/sparkplug/client.rs\<close> and
  \<open>client/shutdown.rs\<close>). The theory \<open>Client\<close> takes the result of each wait as an
  argument; here a wait is what tokio is handed, a future that is ready after some
  time or never, and \<open>tokio::time::timeout_at\<close> turns it into a result and the
  instant at which it is there. Instants and durations are nanoseconds.
\<close>

section \<open>Waits with a deadline\<close>

datatype 'a wait = Ready duration 'a | Forever

text \<open>
  \<open>timeout_at(deadline, future).await\<close> at the instant \<open>at\<close>. The future is polled
  before the deadline is looked at, so one that is ready at once gives its value
  even when the deadline has passed.
\<close>

definition timeout_at :: "nat \<Rightarrow> nat \<Rightarrow> 'a wait \<Rightarrow> (unit + 'a) \<times> nat" where
  "timeout_at at deadline future =
     (case future of
        Ready d a \<Rightarrow>
          (if at + d \<le> max at deadline then (Inr a, at + d) else (Inl (), max at deadline))
      | Forever \<Rightarrow> (Inl (), max at deadline))"

text \<open>\<open>timeout(duration, future).await\<close>.\<close>

definition timeout_after :: "nat \<Rightarrow> duration \<Rightarrow> 'a wait \<Rightarrow> (unit + 'a) \<times> nat" where
  "timeout_after at d future = timeout_at at (at + d) future"

lemma timeout_at_bound:
  "timeout_at at deadline future = (answer, ended) \<Longrightarrow> at \<le> deadline \<Longrightarrow> at \<le> ended \<and> ended \<le> deadline"
  by (auto simp: timeout_at_def split: wait.splits if_splits)

lemma timeout_at_Ready:
  "timeout_at at deadline (Ready d a) = (answer, ended) \<Longrightarrow> at + d \<le> deadline \<Longrightarrow>
     answer = Inr a \<and> ended = at + d"
  by (simp add: timeout_at_def)

lemma timeout_at_Inr:
  "timeout_at at deadline future = (Inr a, ended) \<Longrightarrow> at \<le> deadline \<Longrightarrow>
     \<exists>d. future = Ready d a \<and> ended = at + d \<and> at + d \<le> deadline"
  by (auto simp: timeout_at_def split: wait.splits if_splits)


section \<open>Shutdown against the clock\<close>

text \<open>
  The deadline is fixed first; the flush has the whole time, the request and the
  wait for the link what is left of it. The wait for the link starts only when
  the client took the request.
\<close>

definition timed_shutdown ::
    "nat \<Rightarrow> duration \<Rightarrow> (State \<Rightarrow> State) \<Rightarrow> unit wait \<Rightarrow> ('x + unit) wait \<Rightarrow>
     ((Health \<Rightarrow> bool) \<Rightarrow> (unit + Health) wait) \<Rightarrow> client \<Rightarrow>
     ('x SparkplugError + unit) \<times> client \<times> nat" where
  "timed_shutdown start timeout meanwhile drain request link c =
     (let deadline = start + timeout;
          (drained, t1) = timeout_after start timeout drain;
          (requested, t2) = timeout_at t1 deadline request;
          wait_for = (\<lambda>accept. fst (timeout_at t2 deadline (link accept)));
          (result, c') = shutdown timeout meanwhile drained requested wait_for c;
          ended = (case requested of
             Inr (Inr _) \<Rightarrow> snd (timeout_at t2 deadline (link (\<lambda>h. h = Disconnected_link)))
           | _ \<Rightarrow> t2)
      in (result, c', ended))"


lemma flush_without_drain: "fst (client_flush timeout meanwhile (Inl u) c) \<noteq> Inr ()"
  by (simp add: client_flush_def flush_def flush_close_def split_beta Let_def)

lemma disconnect_Written:
  "disconnect_outcome requested wait_for = Written \<longleftrightarrow>
     requested = Inr (Inr ()) \<and> (\<exists>h. wait_for (\<lambda>h. h = Disconnected_link) = Inr (Inr h))"
  by (auto simp: disconnect_outcome_def wait_for_disconnect_def split: sum.splits)

text \<open>The three waits, one after the other.\<close>

lemma three_waits:
  assumes "timeout_at start (start + timeout) drain = (drained, t1)"
    and "timeout_at t1 (start + timeout) request = (requested, t2)"
    and "timeout_at t2 (start + timeout) link = (found, t3)"
  shows "start \<le> t1 \<and> t1 \<le> t2 \<and> t2 \<le> t3 \<and> t3 \<le> start + timeout"
    and "drained = Inr a \<Longrightarrow> requested = Inr b \<Longrightarrow> found = Inr e \<Longrightarrow>
       \<exists>d1 d2 d3. drain = Ready d1 a \<and> request = Ready d2 b \<and> link = Ready d3 e \<and>
          d1 + d2 + d3 \<le> timeout \<and> t3 = start + d1 + d2 + d3"
    and "drain = Ready d1 a \<Longrightarrow> request = Ready d2 b \<Longrightarrow> link = Ready d3 e \<Longrightarrow>
       d1 + d2 + d3 \<le> timeout \<Longrightarrow> drained = Inr a \<and> requested = Inr b \<and> found = Inr e"
proof -
  have t1: "start \<le> t1 \<and> t1 \<le> start + timeout" using timeout_at_bound [OF assms(1)] by simp
  have t2: "t1 \<le> t2 \<and> t2 \<le> start + timeout" using timeout_at_bound [OF assms(2)] t1 by simp
  have t3: "t2 \<le> t3 \<and> t3 \<le> start + timeout" using timeout_at_bound [OF assms(3)] t2 by simp
  show "start \<le> t1 \<and> t1 \<le> t2 \<and> t2 \<le> t3 \<and> t3 \<le> start + timeout" using t1 t2 t3 by simp
  show "\<exists>d1 d2 d3. drain = Ready d1 a \<and> request = Ready d2 b \<and> link = Ready d3 e \<and>
      d1 + d2 + d3 \<le> timeout \<and> t3 = start + d1 + d2 + d3"
    if "drained = Inr a" "requested = Inr b" "found = Inr e"
    using timeout_at_Inr [OF assms(1) [unfolded that(1)]] timeout_at_Inr [OF assms(2) [unfolded that(2)]]
      timeout_at_Inr [OF assms(3) [unfolded that(3)]] t1 t2 by auto
  show "drained = Inr a \<and> requested = Inr b \<and> found = Inr e"
    if d: "drain = Ready d1 a" "request = Ready d2 b" "link = Ready d3 e" "d1 + d2 + d3 \<le> timeout"
  proof -
    have 1: "drained = Inr a \<and> t1 = start + d1"
      by (rule timeout_at_Ready [OF assms(1) [unfolded d(1)]]) (use d(4) in simp)
    then have 2: "requested = Inr b \<and> t2 = t1 + d2"
      by (intro timeout_at_Ready [OF assms(2) [unfolded d(2)]]) (use d(4) in simp)
    then have "found = Inr e \<and> t3 = t2 + d3"
      using 1 by (intro timeout_at_Ready [OF assms(3) [unfolded d(3)]]) (use d(4) in simp)
    with 1 2 show ?thesis by simp
  qed
qed

section \<open>Properties\<close>

text \<open>
  C30. A shutdown returns in time: it ends by its deadline whatever the broker, the
  client and the event loop do, and the event loop is stopped. It is \<open>Ok\<close> exactly
  when the flush has nothing to report and the three waits together, the last
  acknowledgement, the request and the word from the loop, fit in the timeout; it
  then takes just as long as they do.
\<close>

theorem shutdown_meets_deadline:
  fixes request :: "('x + unit) wait"
  assumes "timed_shutdown start timeout meanwhile drain request link c = (result, c', ended)"
  shows "start \<le> ended \<and> ended \<le> start + timeout \<and> cl_loop c' = Aborted \<and>
    (result = Inr () \<longleftrightarrow>
       fst (client_flush timeout meanwhile (Inr ()) c) = (Inr () :: 'x SparkplugError + unit) \<and>
       (\<exists>d1 d2 d3 h. drain = Ready d1 () \<and> request = Ready d2 (Inr ()) \<and>
          link (\<lambda>h. h = Disconnected_link) = Ready d3 (Inr h) \<and>
          d1 + d2 + d3 \<le> timeout \<and> ended = start + d1 + d2 + d3))"
proof -
  obtain drained t1 where w1: "timeout_at start (start + timeout) drain = (drained, t1)"
    by (cases "timeout_at start (start + timeout) drain")
  obtain requested t2 where w2: "timeout_at t1 (start + timeout) request = (requested, t2)"
    by (cases "timeout_at t1 (start + timeout) request")
  obtain found t3 where w3: "timeout_at t2 (start + timeout) (link (\<lambda>h. h = Disconnected_link)) = (found, t3)"
    by (cases "timeout_at t2 (start + timeout) (link (\<lambda>h. h = Disconnected_link))")
  have ended: "ended = (case requested of Inr (Inr _) \<Rightarrow> t3 | _ \<Rightarrow> t2)"
    and stopped: "cl_loop c' = Aborted"
    and result: "result = shutdown_outcome (fst (client_flush timeout meanwhile drained c))
      (disconnect_outcome requested
        (\<lambda>accept. fst (timeout_at t2 (start + timeout) (link accept)))) timeout"
    using assms
    by (auto simp: timed_shutdown_def timeout_after_def w1 w2 w3 shutdown_def drop_client_def
        split_beta Let_def split: sum.splits)
  have ok: "result = Inr () \<longleftrightarrow>
      fst (client_flush timeout meanwhile drained c) = (Inr () :: 'x SparkplugError + unit) \<and>
      requested = Inr (Inr ()) \<and> (\<exists>h. found = Inr (Inr h))"
    by (simp add: result shutdown_outcome_Inr disconnect_Written w3)
  have "start \<le> ended \<and> ended \<le> start + timeout"
    using three_waits(1) [OF w1 w2 w3] by (auto simp: ended split: sum.split)
  moreover have "result = Inr () \<longleftrightarrow>
      fst (client_flush timeout meanwhile (Inr ()) c) = (Inr () :: 'x SparkplugError + unit) \<and>
      (\<exists>d1 d2 d3 h. drain = Ready d1 () \<and> request = Ready d2 (Inr ()) \<and>
        link (\<lambda>h. h = Disconnected_link) = Ready d3 (Inr h) \<and>
        d1 + d2 + d3 \<le> timeout \<and> ended = start + d1 + d2 + d3)" (is "_ \<longleftrightarrow> ?flushed \<and> ?fits")
  proof
    assume "result = Inr ()"
    then obtain h where all: "requested = Inr (Inr ())" "found = Inr (Inr h)"
      and flush: "fst (client_flush timeout meanwhile drained c) = (Inr () :: 'x SparkplugError + unit)"
      using ok by blast
    then have drained: "drained = Inr ()"
      using flush_without_drain [of timeout meanwhile _ c] by (cases drained) auto
    have "ended = t3" using all(1) by (simp add: ended)
    with three_waits(2) [OF w1 w2 w3 drained all] flush drained show "?flushed \<and> ?fits" by blast
  next
    assume fits: "?flushed \<and> ?fits"
    then obtain h where "drained = Inr () \<and> requested = Inr (Inr ()) \<and> found = Inr (Inr h)"
      using three_waits(3) [OF w1 w2 w3] by blast
    with fits show "result = Inr ()" unfolding ok by blast
  qed
  ultimately show ?thesis using stopped by blast
qed

text \<open>A flush that takes 3 of 10, a request that takes 2 and a loop that answers after 4.\<close>

theorem shutdown_meets_deadline_witness:
  "\<exists>c'. timed_shutdown 100 10 id (Ready 3 ()) (Ready 2 (Inr ()) :: (unit + unit) wait)
       (\<lambda>_. Ready 4 (Inr Disconnected_link)) (idle_client ''spBv1.0'' IdentityPublisher) =
     (Inr (), c', 109)"
proof -
  let ?c = "idle_client ''spBv1.0'' IdentityPublisher"
  obtain result c' ended where call: "timed_shutdown 100 10 id (Ready 3 ())
      (Ready 2 (Inr ()) :: (unit + unit) wait) (\<lambda>_. Ready 4 (Inr Disconnected_link)) ?c = (result, c', ended)"
    by (cases "timed_shutdown 100 10 id (Ready 3 ())
      (Ready 2 (Inr ()) :: (unit + unit) wait) (\<lambda>_. Ready 4 (Inr Disconnected_link)) ?c")
  have "fst (client_flush 10 id (Inr ()) ?c) = (Inr () :: unit SparkplugError + unit)"
    by (simp add: client_flush_def flush_def flush_open_def flush_close_def idle_client_def
        DeliveryTracker_new_def to_u32_saturating_def Let_def split_beta)
  moreover have "ended = 109"
    using call by (auto simp: timed_shutdown_def timeout_after_def timeout_at_def shutdown_def Let_def
        split_beta split: prod.splits)
  ultimately show ?thesis using shutdown_meets_deadline [OF call] call by simp
qed

end
