(* ===== verification/Delivery_Ledger.thy ===== *)
theory Delivery_Ledger
  imports Delivery
begin

text \<open>
  What the delivery tracker promises, stated on the messages themselves, and
  the proof that the four counters keep the promise.

  The \<open>ledger\<close> knows every counted publish by a number: which are outstanding,
  acknowledged, refused, lost to a disconnect and reported as lost. A flush
  that drains reports exactly the messages that are lost and were not reported
  when it opened. The tracker keeps counts only; \<open>tracker_refines_ledger\<close>
  shows that, however publishes, acknowledgements, refusals, disconnects and
  flushes interleave, each flush gives the answer the ledger gives, as long as
  fewer than \<open>2 ^ 32\<close> publishes and \<open>2 ^ 64\<close> disconnects happen.
\<close>

section \<open>Operations\<close>

text \<open>
  \<open>OpKeep\<close> and \<open>OpRefuse\<close> are the two ends of a publish in flight; a cancelled
  publish ends like a refused one. \<open>OpFlushDrained\<close> is the moment at which
  \<open>wait_for_drain\<close> reads that nothing is outstanding, \<open>OpFlushExpire\<close> the end
  of a flush whose timeout came first.
\<close>

datatype tracker_op =
    OpPublish nat
  | OpKeep nat
  | OpRefuse nat
  | OpAck nat
  | OpDisconnect
  | OpFlushOpen nat
  | OpFlushDrained nat
  | OpFlushClose nat duration
  | OpFlushExpire nat duration

section \<open>The tracker and the calls in progress on it\<close>

record 'x tracker_calls =
  tracker :: State
  guards :: "nat \<rightharpoonup> PublishInFlight"
  flushes :: "nat \<rightharpoonup> u64 \<times> bool"
  answers :: "nat \<rightharpoonup> 'x SparkplugError + unit"

definition tracker_calls_new :: "'x tracker_calls" where
  "tracker_calls_new =
     \<lparr>tracker = DeliveryTracker_new, guards = Map.empty, flushes = Map.empty, answers = Map.empty\<rparr>"

definition end_flush ::
    "nat \<Rightarrow> duration \<Rightarrow> u64 \<Rightarrow> unit + unit \<Rightarrow> 'x tracker_calls \<Rightarrow> 'x tracker_calls" where
  "end_flush f timeout opened_at drained c =
     (let (answer, st) = flush_close timeout opened_at drained (tracker c)
      in c\<lparr>tracker := st, flushes := (flushes c)(f := None), answers := (answers c)(f \<mapsto> answer)\<rparr>)"

fun tracker_step :: "tracker_op \<Rightarrow> 'x tracker_calls \<Rightarrow> 'x tracker_calls option" where
  "tracker_step (OpPublish i) c =
     (if guards c i \<noteq> None then None
      else (let (guard, st) = publish_in_flight (tracker c)
            in Some (c\<lparr>tracker := st, guards := (guards c)(i \<mapsto> guard)\<rparr>)))"
| "tracker_step (OpKeep i) c =
     (case guards c i of
        None \<Rightarrow> None
      | Some guard \<Rightarrow>
          Some (c\<lparr>tracker := keep_in_flight guard (tracker c), guards := (guards c)(i := None)\<rparr>))"
| "tracker_step (OpRefuse i) c =
     (case guards c i of
        None \<Rightarrow> None
      | Some guard \<Rightarrow>
          Some (c\<lparr>tracker := drop_in_flight guard (tracker c), guards := (guards c)(i := None)\<rparr>))"
| "tracker_step (OpAck i) c = Some (c\<lparr>tracker := record_ack (tracker c)\<rparr>)"
| "tracker_step OpDisconnect c = Some (c\<lparr>tracker := record_disconnect (tracker c)\<rparr>)"
| "tracker_step (OpFlushOpen f) c =
     (if flushes c f \<noteq> None \<or> answers c f \<noteq> None then None
      else Some (c\<lparr>flushes := (flushes c)(f \<mapsto> (flush_open (tracker c), False))\<rparr>))"
| "tracker_step (OpFlushDrained f) c =
     (case flushes c f of
        Some (opened_at, False) \<Rightarrow>
          (if drained_now (tracker c)
           then Some (c\<lparr>flushes := (flushes c)(f \<mapsto> (opened_at, True))\<rparr>) else None)
      | _ \<Rightarrow> None)"
| "tracker_step (OpFlushClose f timeout) c =
     (case flushes c f of
        Some (opened_at, True) \<Rightarrow> Some (end_flush f timeout opened_at (Inr ()) c)
      | _ \<Rightarrow> None)"
| "tracker_step (OpFlushExpire f timeout) c =
     (case flushes c f of
        Some (opened_at, False) \<Rightarrow> Some (end_flush f timeout opened_at (Inl ()) c)
      | _ \<Rightarrow> None)"


section \<open>The ledger\<close>

datatype verdict = Clean | Lost nat | TimedOut duration nat

text \<open>
  A flush in progress remembers what was reported and what was published when
  it opened, and whether it has seen the ledger drained.
\<close>

record flush_view =
  reported_before :: "nat set"
  published_before :: "nat set"
  saw_drained :: bool

record ledger =
  flight :: "nat set"
  outstanding :: "nat set"
  acked :: "nat set"
  refused :: "nat set"
  lost_ids :: "nat set"
  reported_ids :: "nat set"
  disconnects :: nat
  opened :: "nat \<rightharpoonup> flush_view"
  verdicts :: "nat \<rightharpoonup> verdict"

definition ledger_new :: ledger where
  "ledger_new =
     \<lparr>flight = {}, outstanding = {}, acked = {}, refused = {}, lost_ids = {}, reported_ids = {},
      disconnects = 0, opened = Map.empty, verdicts = Map.empty\<rparr>"

definition published :: "ledger \<Rightarrow> nat set" where
  "published a = outstanding a \<union> acked a \<union> refused a \<union> lost_ids a"

fun ledger_step :: "tracker_op \<Rightarrow> ledger \<Rightarrow> ledger option" where
  "ledger_step (OpPublish i) a =
     (if i \<in> published a then None
      else Some (a\<lparr>flight := insert i (flight a), outstanding := insert i (outstanding a)\<rparr>))"
| "ledger_step (OpKeep i) a =
     (if i \<in> flight a then Some (a\<lparr>flight := flight a - {i}\<rparr>) else None)"
| "ledger_step (OpRefuse i) a =
     (if i \<notin> flight a then None
      else if i \<in> outstanding a
      then Some (a\<lparr>flight := flight a - {i}, outstanding := outstanding a - {i},
                   refused := insert i (refused a)\<rparr>)
      else Some (a\<lparr>flight := flight a - {i}\<rparr>))"
| "ledger_step (OpAck i) a =
     (if i \<in> outstanding a \<and> i \<notin> flight a
      then Some (a\<lparr>outstanding := outstanding a - {i}, acked := insert i (acked a)\<rparr>) else None)"
| "ledger_step OpDisconnect a =
     Some (a\<lparr>lost_ids := lost_ids a \<union> outstanding a, outstanding := {},
             disconnects := Suc (disconnects a)\<rparr>)"
| "ledger_step (OpFlushOpen f) a =
     (if opened a f \<noteq> None \<or> verdicts a f \<noteq> None then None
      else Some (a\<lparr>opened := (opened a)(f \<mapsto>
             \<lparr>reported_before = reported_ids a, published_before = published a,
              saw_drained = False\<rparr>)\<rparr>))"
| "ledger_step (OpFlushDrained f) a =
     (case opened a f of
        Some v \<Rightarrow>
          (if \<not> saw_drained v \<and> outstanding a = {}
           then Some (a\<lparr>opened := (opened a)(f \<mapsto> v\<lparr>saw_drained := True\<rparr>)\<rparr>) else None)
      | None \<Rightarrow> None)"
| "ledger_step (OpFlushClose f timeout) a =
     (case opened a f of
        Some v \<Rightarrow>
          (if saw_drained v
           then (let news = lost_ids a - reported_before v
                 in Some (a\<lparr>reported_ids := lost_ids a, opened := (opened a)(f := None),
                            verdicts := (verdicts a)(f \<mapsto>
                              (if news = {} then Clean else Lost (card news)))\<rparr>))
           else None)
      | None \<Rightarrow> None)"
| "ledger_step (OpFlushExpire f timeout) a =
     (case opened a f of
        Some v \<Rightarrow>
          (if saw_drained v then None
           else Some (a\<lparr>opened := (opened a)(f := None),
                        verdicts := (verdicts a)(f \<mapsto> TimedOut timeout (card (outstanding a)))\<rparr>))
      | None \<Rightarrow> None)"


section \<open>Invariant of the ledger\<close>

definition sets_ok :: "ledger \<Rightarrow> bool" where
  "sets_ok a \<longleftrightarrow>
     finite (published a) \<and>
     outstanding a \<inter> (acked a \<union> refused a \<union> lost_ids a) = {} \<and>
     flight a \<subseteq> outstanding a \<union> lost_ids a \<and>
     reported_ids a \<subseteq> lost_ids a"

definition view_ok :: "ledger \<Rightarrow> flush_view \<Rightarrow> bool" where
  "view_ok a v \<longleftrightarrow>
     reported_before v \<subseteq> reported_ids a \<and> published_before v \<subseteq> published a \<and>
     (saw_drained v \<longrightarrow> published_before v \<inter> outstanding a = {})"

definition ledger_inv :: "ledger \<Rightarrow> bool" where
  "ledger_inv a \<longleftrightarrow> sets_ok a \<and> (\<forall>f v. opened a f = Some v \<longrightarrow> view_ok a v)"

lemma ledger_inv_new: "ledger_inv ledger_new"
  by (simp add: ledger_inv_def sets_ok_def ledger_new_def published_def)

text \<open>What no step does: forget a publish or a report, or bring a message back.\<close>

lemma ledger_step_grows:
  assumes "sets_ok a" and "ledger_step l a = Some a'"
  shows "reported_ids a \<subseteq> reported_ids a'" "published a \<subseteq> published a'"
    "outstanding a' \<inter> published a \<subseteq> outstanding a"
  using assms
  by (cases l; auto simp: sets_ok_def published_def Let_def split: if_splits option.splits)+

lemma ledger_step_sets_ok:
  assumes "sets_ok a" and "ledger_step l a = Some a'"
  shows "sets_ok a'"
  using assms
  by (cases l; auto simp: sets_ok_def published_def Let_def split: if_splits option.splits)

lemma view_ok_grows:
  assumes "view_ok a v" and "sets_ok a" and "ledger_step l a = Some a'"
  shows "view_ok a' v"
  using assms(1) ledger_step_grows [OF assms(2,3)] unfolding view_ok_def by blast

text \<open>A view of the next state is an old one, a new one, or an old one that drained.\<close>

lemma ledger_step_opened:
  assumes "ledger_step l a = Some a'" and "opened a' f = Some v"
  shows "opened a f = Some v \<or>
         v = \<lparr>reported_before = reported_ids a, published_before = published a,
              saw_drained = False\<rparr> \<and> reported_ids a' = reported_ids a \<and> published a' = published a \<or>
         (\<exists>u. opened a f = Some u \<and> v = u\<lparr>saw_drained := True\<rparr> \<and> outstanding a' = {})"
  using assms
  by (cases l) (auto simp: Let_def published_def split: if_splits option.splits)

lemma ledger_step_inv:
  assumes "ledger_inv a" and "ledger_step l a = Some a'"
  shows "ledger_inv a'"
proof -
  have sets: "sets_ok a" and views: "\<And>f v. opened a f = Some v \<Longrightarrow> view_ok a v"
    using assms(1) by (auto simp: ledger_inv_def)
  have "view_ok a' v" if "opened a' f = Some v" for f v
    using ledger_step_opened [OF assms(2) that]
  proof (elim disjE exE conjE)
    assume "opened a f = Some v"
    then show ?thesis using views sets assms(2) by (blast intro: view_ok_grows)
  next
    fix u assume "opened a f = Some u" and v: "v = u\<lparr>saw_drained := True\<rparr>" "outstanding a' = {}"
    then have "view_ok a' u" using views sets assms(2) by (blast intro: view_ok_grows)
    with v show ?thesis by (simp add: view_ok_def)
  qed (simp add: view_ok_def)
  then show ?thesis
    using ledger_step_sets_ok [OF sets assms(2)] by (simp add: ledger_inv_def)
qed

interpretation ledger_machine: machine_invariant ledger_step ledger_inv
  by unfold_locales (rule ledger_step_inv)


section \<open>The tracker refines the ledger\<close>

fun answer_of :: "verdict \<Rightarrow> 'x SparkplugError + unit" where
  "answer_of Clean = Inr ()"
| "answer_of (Lost n) = Inl (PublishLost (word_of_nat n))"
| "answer_of (TimedOut timeout n) = Inl (FlushTimeout timeout (word_of_nat n))"

definition counts_related :: "State \<Rightarrow> ledger \<Rightarrow> bool" where
  "counts_related st a \<longleftrightarrow>
     unat (unacked st) = card (outstanding a) \<and>
     unat (lost st) = card (lost_ids a - reported_ids a) \<and>
     unat (reported st) = card (reported_ids a) \<and>
     unat (generation st) = disconnects a"

text \<open>
  A ticket is of the present generation exactly while its own publish is still
  counted: no disconnect came between.
\<close>

definition guard_related :: "State \<Rightarrow> ledger \<Rightarrow> nat \<Rightarrow> PublishInFlight option \<Rightarrow> bool" where
  "guard_related st a i guard \<longleftrightarrow>
     (if i \<in> flight a
      then \<exists>g. guard = Some (PublishInFlight (Some (PublishTicket g))) \<and>
               unat g \<le> unat (generation st) \<and> (g = generation st \<longleftrightarrow> i \<in> outstanding a)
      else guard = None)"

definition flush_related :: "(u64 \<times> bool) option \<Rightarrow> flush_view option \<Rightarrow> bool" where
  "flush_related x v \<longleftrightarrow>
     x = map_option (\<lambda>v. (word_of_nat (card (reported_before v)), saw_drained v)) v"

definition tracker_related :: "'x tracker_calls \<Rightarrow> ledger \<Rightarrow> bool" where
  "tracker_related c a \<longleftrightarrow>
     ledger_inv a \<and> counts_related (tracker c) a \<and>
     (\<forall>i. guard_related (tracker c) a i (guards c i)) \<and>
     (\<forall>f. flush_related (flushes c f) (opened a f)) \<and>
     answers c = map_option answer_of \<circ> verdicts a"

definition within_bounds :: "ledger \<Rightarrow> bool" where
  "within_bounds a \<longleftrightarrow>
     finite (published a) \<and> card (published a) < 2 ^ 32 \<and> disconnects a < 2 ^ 64"

lemma within_bounds_before:
  assumes "ledger_step l a = Some a'" and "within_bounds a'"
  shows "within_bounds a"
proof -
  have "published a \<subseteq> published a' \<and> disconnects a \<le> disconnects a'"
    using assms(1)
    by (cases l) (auto simp: published_def Let_def split: if_splits option.splits)
  then show ?thesis
    using assms(2) by (auto simp: within_bounds_def dest: finite_subset card_mono)
qed

lemma card_published_le:
  assumes "within_bounds a" and "A \<subseteq> published a"
  shows "finite A" "card A < 2 ^ 32"
proof -
  show "finite A" using assms by (auto simp: within_bounds_def dest: finite_subset)
  have "card A \<le> card (published a)"
    using assms by (auto simp: within_bounds_def intro: card_mono)
  then show "card A < 2 ^ 32" using assms(1) by (simp add: within_bounds_def)
qed

lemma tracker_related_new: "tracker_related tracker_calls_new ledger_new"
  by (simp add: tracker_related_def tracker_calls_new_def ledger_new_def ledger_inv_def sets_ok_def
      published_def counts_related_def DeliveryTracker_new_def guard_related_def flush_related_def)

lemma related_parts:
  assumes "tracker_related c a"
  shows "ledger_inv a" "sets_ok a" "counts_related (tracker c) a"
    "guard_related (tracker c) a i (guards c i)" "flush_related (flushes c f) (opened a f)"
    "answers c = map_option answer_of \<circ> verdicts a"
  using assms by (simp_all add: tracker_related_def ledger_inv_def)

lemma follow_publish:
  assumes rel: "tracker_related c a" and step: "ledger_step (OpPublish i) a = Some a'"
    and bound: "within_bounds a'"
  shows "\<exists>c'. tracker_step (OpPublish i) c = Some c' \<and> tracker_related c' a'"
proof -
  note parts = related_parts [OF rel]
  from step have i: "i \<notin> published a"
    and a': "a' = a\<lparr>flight := insert i (flight a), outstanding := insert i (outstanding a)\<rparr>"
    by (auto split: if_splits)
  have i_flight: "i \<notin> flight a" and i_out: "i \<notin> outstanding a"
    using i parts(2) by (auto simp: sets_ok_def published_def)
  have fin: "finite (outstanding a)" and "card (outstanding a') < 2 ^ 32"
    using card_published_le [OF bound, of "outstanding a'"] a' by (auto simp: published_def)
  then have count: "unat (unacked (tracker c) + 1) = Suc (card (outstanding a))"
    using parts(3) i_out a' by (subst unat_Suc_no_wrap) (auto simp: counts_related_def)
  have "guards c i = None" using parts(4) [of i] i_flight by (simp add: guard_related_def)
  moreover have "ledger_inv a'" using parts(1) step by (rule ledger_step_inv)
  moreover have "guard_related st' a' j (((guards c)(i \<mapsto> g)) j)"
    if "g = PublishInFlight (Some (PublishTicket (generation st')))"
      "st' = tracker c\<lparr>unacked := unacked (tracker c) + 1\<rparr>" for j st' g
    using parts(4) [of j] that a' by (auto simp: guard_related_def)
  ultimately show ?thesis
    using parts(3,5,6) a' count fin i_out
    by (auto simp: tracker_related_def counts_related_def publish_in_flight_def record_publish_def
        Let_def)
qed

lemma follow_keep:
  assumes rel: "tracker_related c a" and step: "ledger_step (OpKeep i) a = Some a'"
  shows "\<exists>c'. tracker_step (OpKeep i) c = Some c' \<and> tracker_related c' a'"
proof -
  note parts = related_parts [OF rel]
  from step have i: "i \<in> flight a" and a': "a' = a\<lparr>flight := flight a - {i}\<rparr>"
    by (auto split: if_splits)
  obtain guard where "guards c i = Some guard"
    using parts(4) [of i] i by (auto simp: guard_related_def)
  moreover have "ledger_inv a'" using parts(1) step by (rule ledger_step_inv)
  moreover have "guard_related (tracker c) a' j (((guards c)(i := None)) j)" for j
    using parts(4) [of j] a' by (auto simp: guard_related_def)
  ultimately show ?thesis
    using parts(3,5,6) a' by (auto simp: tracker_related_def counts_related_def)
qed

lemma follow_refuse:
  assumes rel: "tracker_related c a" and step: "ledger_step (OpRefuse i) a = Some a'"
  shows "\<exists>c'. tracker_step (OpRefuse i) c = Some c' \<and> tracker_related c' a'"
proof -
  note parts = related_parts [OF rel]
  from step have i: "i \<in> flight a" by (auto split: if_splits)
  obtain g where guard: "guards c i = Some (PublishInFlight (Some (PublishTicket g)))"
    and g: "g = generation (tracker c) \<longleftrightarrow> i \<in> outstanding a"
    using parts(4) [of i] i by (auto simp: guard_related_def)
  have inv: "ledger_inv a'" using parts(1) step by (rule ledger_step_inv)
  show ?thesis
  proof (cases "i \<in> outstanding a")
    case True
    with step i have a': "a' = a\<lparr>flight := flight a - {i}, outstanding := outstanding a - {i},
        refused := insert i (refused a)\<rparr>" by auto
    have "guard_related (tracker c\<lparr>unacked := x\<rparr>) a' j (((guards c)(i := None)) j)" for j x
      using parts(4) [of j] a' by (auto simp: guard_related_def)
    then show ?thesis
      using parts(3,5,6) a' True guard g inv
      by (auto simp: tracker_related_def counts_related_def drop_in_flight_def
          record_publish_failed_def)
  next
    case False
    with step i have a': "a' = a\<lparr>flight := flight a - {i}\<rparr>" by auto
    have "guard_related (tracker c) a' j (((guards c)(i := None)) j)" for j
      using parts(4) [of j] a' by (auto simp: guard_related_def)
    then show ?thesis
      using parts(3,5,6) a' False guard g inv
      by (auto simp: tracker_related_def counts_related_def drop_in_flight_def
          record_publish_failed_def)
  qed
qed

lemma follow_ack:
  assumes rel: "tracker_related c a" and step: "ledger_step (OpAck i) a = Some a'"
  shows "\<exists>c'. tracker_step (OpAck i) c = Some c' \<and> tracker_related c' a'"
proof -
  note parts = related_parts [OF rel]
  from step have i: "i \<in> outstanding a" "i \<notin> flight a"
    and a': "a' = a\<lparr>outstanding := outstanding a - {i}, acked := insert i (acked a)\<rparr>"
    by (auto split: if_splits)
  have "ledger_inv a'" using parts(1) step by (rule ledger_step_inv)
  moreover have "guard_related (tracker c\<lparr>unacked := x\<rparr>) a' j (guards c j)" for j x
    using parts(4) [of j] a' i by (auto simp: guard_related_def)
  ultimately show ?thesis
    using parts(3,5,6) a' i
    by (auto simp: tracker_related_def counts_related_def record_ack_def release_one_def)
qed

lemma follow_disconnect:
  assumes rel: "tracker_related c a" and step: "ledger_step OpDisconnect a = Some a'"
    and bound: "within_bounds a'"
  shows "\<exists>c'. tracker_step OpDisconnect c = Some c' \<and> tracker_related c' a'"
proof -
  note parts = related_parts [OF rel]
  from step have a': "a' = a\<lparr>lost_ids := lost_ids a \<union> outstanding a, outstanding := {},
      disconnects := Suc (disconnects a)\<rparr>" by simp
  have fin: "finite (lost_ids a)" "finite (outstanding a)"
    using parts(2) by (auto simp: sets_ok_def published_def)
  have split: "lost_ids a' - reported_ids a' = (lost_ids a - reported_ids a) \<union> outstanding a"
    and disj: "(lost_ids a - reported_ids a) \<inter> outstanding a = {}"
    using parts(2) a' by (auto simp: sets_ok_def)
  have "card (lost_ids a' - reported_ids a') < 2 ^ 32"
    using a' by (intro card_published_le(2) [OF bound]) (auto simp: published_def)
  then have "unat (lost (tracker c)) + unat (unacked (tracker c)) < 2 ^ 32"
    and sum: "card (lost_ids a' - reported_ids a') =
      unat (lost (tracker c)) + unat (unacked (tracker c))"
    using parts(3) split disj fin by (auto simp: counts_related_def card_Un_disjoint)
  then have lost: "unat (lost (tracker c) + unacked (tracker c)) =
      card (lost_ids a' - reported_ids a')"
    by (subst unat_add_no_wrap) auto
  have gen: "unat (generation (tracker c) + 1) = Suc (unat (generation (tracker c)))"
    using bound parts(3) a'
    by (intro unat_Suc_no_wrap) (auto simp: within_bounds_def counts_related_def)
  have guards: "guard_related (record_disconnect (tracker c)) a' j (guards c j)" for j
    using parts(4) [of j] a' gen by (auto simp: guard_related_def record_disconnect_def)
  have "counts_related (record_disconnect (tracker c)) a'"
    using parts(3) lost gen a' by (auto simp: counts_related_def record_disconnect_def)
  moreover have "ledger_inv a'" using parts(1) step by (rule ledger_step_inv)
  ultimately show ?thesis
    using guards parts(5,6) a' by (auto simp: tracker_related_def)
qed

lemma follow_flush_open:
  assumes rel: "tracker_related c a" and step: "ledger_step (OpFlushOpen f) a = Some a'"
  shows "\<exists>c'. tracker_step (OpFlushOpen f) c = Some c' \<and> tracker_related c' a'"
proof -
  note parts = related_parts [OF rel]
  from step have f: "opened a f = None" "verdicts a f = None"
    and a': "a' = a\<lparr>opened := (opened a)(f \<mapsto> \<lparr>reported_before = reported_ids a,
      published_before = published a, saw_drained = False\<rparr>)\<rparr>"
    by (auto split: if_splits)
  have "ledger_inv a'" using parts(1) step by (rule ledger_step_inv)
  moreover have "guard_related (tracker c) a' j (guards c j)" for j
    using parts(4) [of j] a' by (simp add: guard_related_def)
  moreover have "word_of_nat (card (reported_ids a)) = reported (tracker c)"
    using parts(3) by (intro word_of_nat_eqI) (simp add: counts_related_def)
  moreover have "flushes c f = None" "answers c f = None"
    using parts(5) [of f] parts(6) f by (simp_all add: flush_related_def)
  ultimately show ?thesis
    using parts(3,5,6) a'
    by (auto simp: tracker_related_def counts_related_def flush_related_def flush_open_def)
qed

lemma follow_flush_drained:
  assumes rel: "tracker_related c a" and step: "ledger_step (OpFlushDrained f) a = Some a'"
  shows "\<exists>c'. tracker_step (OpFlushDrained f) c = Some c' \<and> tracker_related c' a'"
proof -
  note parts = related_parts [OF rel]
  from step obtain v where v: "opened a f = Some v" "\<not> saw_drained v" "outstanding a = {}"
    and a': "a' = a\<lparr>opened := (opened a)(f \<mapsto> v\<lparr>saw_drained := True\<rparr>)\<rparr>"
    by (auto split: if_splits option.splits)
  have "ledger_inv a'" using parts(1) step by (rule ledger_step_inv)
  moreover have "guard_related (tracker c) a' j (guards c j)" for j
    using parts(4) [of j] a' by (simp add: guard_related_def)
  moreover have "drained_now (tracker c)"
    using parts(3) v by (simp add: drained_now_def counts_related_def unat_eq_0)
  moreover have "flushes c f = Some (word_of_nat (card (reported_before v)), False)"
    using parts(5) [of f] v by (simp add: flush_related_def)
  ultimately show ?thesis
    using parts(3,5,6) a'
    by (auto simp: tracker_related_def counts_related_def flush_related_def)
qed

text \<open>The arithmetic of a report: the counters give the number of news.\<close>

lemma flush_close_counts:
  assumes inv: "ledger_inv a" and rel: "counts_related st a" and within: "within_bounds a"
    and view: "opened a f = Some v"
  shows "flush_close timeout (word_of_nat (card (reported_before v))) (Inr ()) st =
    (answer_of (if lost_ids a - reported_before v = {} then Clean
                else Lost (card (lost_ids a - reported_before v))),
     st\<lparr>reported := word_of_nat (card (lost_ids a)), lost := 0\<rparr>)"
proof -
  let ?r = "reported_before v" and ?n = "card (lost_ids a - reported_before v)"
  have sub: "?r \<subseteq> reported_ids a" "reported_ids a \<subseteq> lost_ids a"
    using inv view by (auto simp: ledger_inv_def view_ok_def sets_ok_def)
  have fin: "finite (lost_ids a)" and small: "card (lost_ids a) < 2 ^ 32"
    using card_published_le [OF within, of "lost_ids a"] by (auto simp: published_def)
  have "card (lost_ids a) = card (reported_ids a) + card (lost_ids a - reported_ids a)"
    using sub(2) fin by (metis card_Diff_subset card_mono finite_subset le_add_diff_inverse)
  then have "unat (reported st) + unat (ucast (lost st) :: u64) = card (lost_ids a)"
    using rel by (simp add: counts_related_def)
  then have total: "reported st + ucast (lost st) = word_of_nat (card (lost_ids a))"
    using small by (intro word_of_nat_eqI [symmetric]) (subst unat_add_no_wrap; simp)
  have n: "card ?r + ?n = card (lost_ids a)"
    using sub fin by (metis card_Diff_subset card_mono finite_subset le_add_diff_inverse order_trans)
  have "(word_of_nat (card (lost_ids a)) :: u64) - word_of_nat (card ?r) = word_of_nat ?n"
    by (simp flip: n)
  moreover have "?n < 2 ^ 32" using n small by simp
  then have "to_u32_saturating (word_of_nat ?n) = word_of_nat ?n"
    and "(word_of_nat ?n :: u32) = 0 \<longleftrightarrow> ?n = 0"
    by (auto simp: to_u32_saturating_def unat_of_nat unsigned_of_nat take_bit_nat_eq_self
        word_of_nat_eq_0_iff dest: nat_dvd_not_less)
  ultimately show ?thesis
    using fin total by (auto simp: flush_close_def Let_def)
qed

lemma follow_flush_close:
  assumes rel: "tracker_related c a" and step: "ledger_step (OpFlushClose f t) a = Some a'"
    and bound: "within_bounds a'"
  shows "\<exists>c'. tracker_step (OpFlushClose f t) c = Some c' \<and> tracker_related c' a'"
proof -
  note parts = related_parts [OF rel]
  have within: "within_bounds a" using step bound by (rule within_bounds_before)
  from step obtain v where v: "opened a f = Some v" "saw_drained v"
    by (auto split: if_splits option.splits)
  define w where "w = (if lost_ids a - reported_before v = {} then Clean
    else Lost (card (lost_ids a - reported_before v)))"
  define st where "st = tracker c\<lparr>reported := word_of_nat (card (lost_ids a)), lost := 0\<rparr>"
  from step v have a': "a' = a\<lparr>reported_ids := lost_ids a, opened := (opened a)(f := None),
      verdicts := (verdicts a)(f \<mapsto> w)\<rparr>"
    by (simp add: w_def Let_def)
  have close: "flush_close t (word_of_nat (card (reported_before v))) (Inr ()) (tracker c) =
      (answer_of w, st)"
    unfolding w_def st_def by (rule flush_close_counts [OF parts(1) parts(3) within v(1)])
  have "card (lost_ids a) < 2 ^ 32"
    using within by (rule card_published_le) (auto simp: published_def)
  then have "unat (word_of_nat (card (lost_ids a)) :: u64) = card (lost_ids a)"
    by (simp add: unat_of_nat)
  then have "counts_related st a'"
    using parts(3) a' by (simp add: counts_related_def st_def)
  moreover have "ledger_inv a'" using parts(1) step by (rule ledger_step_inv)
  moreover have "guard_related st a' j (guards c j)" for j
    using parts(4) [of j] a' by (simp add: guard_related_def st_def)
  moreover have "flush_related (((flushes c)(f := None)) g) (opened a' g)" for g
    using parts(5) [of g] a' by (simp add: flush_related_def)
  moreover have "(answers c)(f \<mapsto> answer_of w) = map_option answer_of \<circ> verdicts a'"
    using parts(6) a' by (simp add: fun_eq_iff)
  ultimately have "tracker_related
      (c\<lparr>tracker := st, flushes := (flushes c)(f := None), answers := (answers c)(f \<mapsto> answer_of w)\<rparr>) a'"
    by (simp add: tracker_related_def)
  moreover have "flushes c f = Some (word_of_nat (card (reported_before v)), True)"
    using parts(5) [of f] v by (simp add: flush_related_def)
  ultimately show ?thesis by (simp add: end_flush_def close)
qed

lemma follow_flush_expire:
  assumes rel: "tracker_related c a" and step: "ledger_step (OpFlushExpire f t) a = Some a'"
  shows "\<exists>c'. tracker_step (OpFlushExpire f t) c = Some c' \<and> tracker_related c' a'"
proof -
  note parts = related_parts [OF rel]
  from step obtain v where v: "opened a f = Some v" "\<not> saw_drained v"
    and a': "a' = a\<lparr>opened := (opened a)(f := None),
      verdicts := (verdicts a)(f \<mapsto> TimedOut t (card (outstanding a)))\<rparr>"
    by (auto split: if_splits option.splits)
  have count: "word_of_nat (card (outstanding a)) = unacked (tracker c)"
    using parts(3) by (intro word_of_nat_eqI) (simp add: counts_related_def)
  have "ledger_inv a'" using parts(1) step by (rule ledger_step_inv)
  moreover have "guard_related (tracker c) a' j (guards c j)" for j
    using parts(4) [of j] a' by (simp add: guard_related_def)
  moreover have "counts_related (tracker c) a'"
    using parts(3) a' by (simp add: counts_related_def)
  moreover have "flush_related (((flushes c)(f := None)) g) (opened a' g)" for g
    using parts(5) [of g] a' by (simp add: flush_related_def)
  moreover have "(answers c)(f \<mapsto> Inl (FlushTimeout t (unacked (tracker c)))) =
      map_option answer_of \<circ> verdicts a'"
    using parts(6) a' count by (simp add: fun_eq_iff)
  ultimately have "tracker_related (c\<lparr>flushes := (flushes c)(f := None),
      answers := (answers c)(f \<mapsto> Inl (FlushTimeout t (unacked (tracker c))))\<rparr>) a'"
    by (simp add: tracker_related_def)
  moreover have "flushes c f = Some (word_of_nat (card (reported_before v)), False)"
    using parts(5) [of f] v by (simp add: flush_related_def)
  ultimately show ?thesis by (simp add: end_flush_def flush_close_def)
qed

lemmas follow_lemmas =
  follow_publish follow_keep follow_refuse follow_ack follow_disconnect follow_flush_open
  follow_flush_drained follow_flush_close follow_flush_expire

interpretation tracker_sim: simulation tracker_step ledger_step tracker_related within_bounds
proof
  fix c :: "'x tracker_calls" and a l a'
  assume "tracker_related c a" "ledger_step l a = Some a'" "within_bounds a'"
  then show "\<exists>c'. tracker_step l c = Some c' \<and> tracker_related c' a'"
    by (cases l) (simp_all only: follow_lemmas)
next
  fix l a a'
  assume "ledger_step l a = Some a'" "within_bounds a'"
  then show "within_bounds a" by (rule within_bounds_before)
qed


section \<open>What a flush confirms\<close>

text \<open>
  A flush in progress keeps what it remembered when it opened, and a flush that
  ended does not open again.
\<close>

definition same_opening :: "flush_view \<Rightarrow> flush_view \<Rightarrow> bool" where
  "same_opening v u \<longleftrightarrow>
     reported_before v = reported_before u \<and> published_before v = published_before u"

definition opening_kept :: "nat \<Rightarrow> flush_view \<Rightarrow> ledger \<Rightarrow> bool" where
  "opening_kept f v a \<longleftrightarrow>
     (case opened a f of Some u \<Rightarrow> same_opening u v | None \<Rightarrow> verdicts a f \<noteq> None)"

lemma ledger_step_opening:
  assumes "opening_kept f v a" and "ledger_step l a = Some a'"
  shows "opening_kept f v a'"
  using assms
  by (cases l)
     (auto simp: opening_kept_def same_opening_def Let_def split: if_splits option.splits)

interpretation opened_view: machine_invariant ledger_step "opening_kept f v" for f v
  by unfold_locales (rule ledger_step_opening)


section \<open>Properties\<close>

text \<open>
  C11. The tracker implements the ledger: for every sequence of publishes, ends
  of publishes, acknowledgements, disconnects and flush steps the ledger can
  make, the counters make it too, and every flush then has the answer the
  ledger gives it, which is stated on the messages and not on counts. The
  number of unacknowledged publishes is that of the outstanding messages.
\<close>

theorem tracker_refines_ledger:
  assumes "run ledger_step ls ledger_new = Some a" and "within_bounds a"
  shows "\<exists>c :: 'x tracker_calls. run tracker_step ls tracker_calls_new = Some c \<and>
    unat (unacked (tracker c)) = card (outstanding a) \<and>
    (\<forall>f. answers c f = map_option answer_of (verdicts a f))"
proof -
  obtain c :: "'x tracker_calls" where
    "run tracker_step ls tracker_calls_new = Some c" "tracker_related c a"
    using tracker_sim.run_follow [OF tracker_related_new assms] by blast
  then show ?thesis
    by (intro exI [of _ c]) (simp add: tracker_related_def counts_related_def)
qed

theorem tracker_refines_ledger_witness:
  "\<exists>c :: unit tracker_calls. run tracker_step
     [OpPublish 0, OpFlushOpen 5, OpPublish 1, OpKeep 0, OpDisconnect, OpRefuse 1, OpFlushDrained 5,
      OpFlushClose 5 0] tracker_calls_new = Some c \<and>
     answers c 5 = Some (Inl (PublishLost 2))"
proof -
  let ?ls = "[OpPublish 0, OpFlushOpen 5, OpPublish 1, OpKeep 0, OpDisconnect, OpRefuse 1,
    OpFlushDrained 5, OpFlushClose 5 0]"
  obtain a where a: "run ledger_step ?ls ledger_new = Some a"
    and "published a = {0, 1}" "disconnects a = 1" "verdicts a 5 = Some (Lost 2)"
    by (simp add: ledger_new_def published_def Let_def insert_commute)
  then show ?thesis
    using tracker_refines_ledger [where 'x = unit, OF a] by (auto simp: within_bounds_def)
qed

text \<open>
  C12. What an \<open>Ok\<close> flush accounts for: when a flush returns \<open>Ok\<close>, every message
  counted before it opened was acknowledged by the broker, was refused or
  cancelled on its way to the client, or was reported lost by a flush before it
  opened; none of them is outstanding and none is lost and unreported. Messages
  published while the flush waited do not blur that. This is for the runs of the
  ledger: an acknowledgement belongs to a counted message that the client has taken
  and that is outstanding, which leaves out the two windows of the theory
  \<open>Delivery_Windows\<close>, and the bounds on publishes and disconnects hold.
\<close>

theorem flush_ok_confirms:
  fixes c :: "'x tracker_calls"
  assumes before: "run ledger_step before ledger_new = Some a0"
    and during: "run ledger_step (before @ OpFlushOpen f # during) ledger_new = Some a1"
    and close: "ledger_step (OpFlushClose f t) a1 = Some a" and bound: "within_bounds a"
    and returned: "run tracker_step (before @ OpFlushOpen f # during @ [OpFlushClose f t]) tracker_calls_new = Some c"
      "answers c f = Some (Inr ())"
  shows "published a0 \<subseteq> acked a \<union> refused a \<union> reported_ids a0"
proof -
  have inv0: "ledger_inv a0" by (rule ledger_machine.run_inv [OF ledger_inv_new before])
  have inv1: "ledger_inv a1" by (rule ledger_machine.run_inv [OF ledger_inv_new during])
  obtain b where b: "ledger_step (OpFlushOpen f) a0 = Some b" "run ledger_step during b = Some a1"
    using during before by (auto simp: run_append bind_eq_Some_conv split: option.splits)
  let ?v = "\<lparr>reported_before = reported_ids a0, published_before = published a0, saw_drained = False\<rparr>"
  have "opening_kept f ?v b"
    using b(1) by (auto simp: opening_kept_def same_opening_def split: if_splits)
  then have kept: "opening_kept f ?v a1" by (rule opened_view.run_inv [OF _ b(2)])
  from close obtain u where u: "opened a1 f = Some u" "saw_drained u"
    and a: "a = a1\<lparr>reported_ids := lost_ids a1, opened := (opened a1)(f := None),
      verdicts := (verdicts a1)(f \<mapsto> (if lost_ids a1 - reported_before u = {} then Clean
        else Lost (card (lost_ids a1 - reported_before u))))\<rparr>"
    by (auto simp: Let_def split: option.splits if_splits)
  have same: "reported_before u = reported_ids a0" "published_before u = published a0"
    using kept u(1) by (simp_all add: opening_kept_def same_opening_def)
  have "run ledger_step (before @ OpFlushOpen f # during @ [OpFlushClose f t]) ledger_new = Some a"
    using during close run_append [of ledger_step "before @ OpFlushOpen f # during" "[OpFlushClose f t]" ledger_new]
    by simp
  then obtain c' :: "'x tracker_calls" where c':
    "run tracker_step (before @ OpFlushOpen f # during @ [OpFlushClose f t]) tracker_calls_new = Some c'"
    "tracker_related c' a"
    using tracker_sim.run_follow [OF tracker_related_new _ bound] by blast
  then have "c' = c" using returned(1) by simp
  then have "map_option answer_of (verdicts a f) = Some (Inr () :: 'x SparkplugError + unit)"
    using returned(2) related_parts(6) [OF c'(2)] by simp
  then have "lost_ids a1 \<subseteq> reported_ids a0"
    using same(1) by (auto simp: a split: if_splits)
  moreover have "view_ok a1 u" using inv1 u(1) by (simp add: ledger_inv_def)
  then have "published a0 \<inter> outstanding a1 = {}" "published a0 \<subseteq> published a1"
    using u(2) by (simp_all add: view_ok_def same)
  ultimately show ?thesis by (auto simp: a published_def)
qed

theorem flush_ok_confirms_witness:
  "published (the (run ledger_step [OpPublish 3, OpKeep 3] ledger_new)) \<subseteq>
   acked (the (run ledger_step [OpPublish 3, OpKeep 3, OpFlushOpen 0, OpAck 3, OpFlushDrained 0, OpFlushClose 0 9] ledger_new))"
proof -
  let ?b = "[OpPublish 3, OpKeep 3]" and ?d = "[OpAck 3, OpFlushDrained 0]"
  obtain a0 where a0: "run ledger_step ?b ledger_new = Some a0" "reported_ids a0 = {}"
    by (simp add: ledger_new_def published_def)
  obtain a1 where a1: "run ledger_step (?b @ OpFlushOpen 0 # ?d) ledger_new = Some a1"
    by (simp add: ledger_new_def published_def)
  obtain a where a: "ledger_step (OpFlushClose 0 9) a1 = Some a" "published a = {3}" "disconnects a = 0"
    "refused a = {}"
    using a1 by (auto simp: ledger_new_def published_def)
  then have bound: "within_bounds a" by (simp add: within_bounds_def)
  have run: "run ledger_step (?b @ OpFlushOpen 0 # ?d @ [OpFlushClose 0 9]) ledger_new = Some a"
    using a1 a(1) run_append [of ledger_step "?b @ OpFlushOpen 0 # ?d" "[OpFlushClose 0 9]" ledger_new]
    by simp
  obtain c :: "unit tracker_calls" where c:
    "run tracker_step (?b @ OpFlushOpen 0 # ?d @ [OpFlushClose 0 9]) tracker_calls_new = Some c"
    "answers c 0 = Some (Inr ())"
    by (simp add: tracker_calls_new_def tracker_defs drained_now_def end_flush_def Let_def
        saturating_dec_def to_u32_saturating_0)
  have "published a0 \<subseteq> acked a"
    using flush_ok_confirms [OF a0(1) a1 a(1) bound c] a0(2) a(4) by simp
  then show ?thesis using a0(1) run by simp
qed

end
