(* ===== verification/Delivery_Wakeup.thy ===== *)
theory Delivery_Wakeup
  imports Delivery
begin

text \<open>
  \<open>wait_for_drain\<close> of \<open>src/sparkplug/delivery.rs\<close> beside the operations that
  wake it.

  The waiting loop has three places where another task can come in between:
  after it registered for the notification, after it read the count, and while
  it awaits. The operations that lower the count drop the lock first and notify
  afterwards, so a notification can be owed while other tasks run.

  \<open>Notify\<close> is tokio's. The parameter \<open>notified\<close> is the value of
  \<open>Notify::notified()\<close>, \<open>notify_waiters\<close> the state after a call of it, and
  \<open>woken n w\<close> says that the future \<open>w\<close> is ready in the state \<open>n\<close>.
  \<open>notify_laws\<close> is what its documentation promises: a future that exists when
  \<open>notify_waiters\<close> is called gets the notification, polled or not, and keeps it.
\<close>

section \<open>The loop\<close>

text \<open>Where \<open>wait_for_drain\<close> stands.\<close>

datatype 'w drain_loop =
    Loop_Top
  | Registered 'w
  | Awaiting 'w
  | Returned

text \<open>
  \<open>let waiter = self.changed.notified()\<close>, then the look at the count, which
  returns or goes on to \<open>waiter.await\<close>, and the end of that.
\<close>

definition drain_register :: "('n \<Rightarrow> 'w) \<Rightarrow> 'n \<Rightarrow> 'w drain_loop \<Rightarrow> 'w drain_loop option" where
  "drain_register notified changed l =
     (case l of Loop_Top \<Rightarrow> Some (Registered (notified changed)) | _ \<Rightarrow> None)"

definition drain_check :: "State \<Rightarrow> 'w drain_loop \<Rightarrow> 'w drain_loop option" where
  "drain_check st l =
     (case l of
        Registered waiter \<Rightarrow> Some (if unacked st = 0 then Returned else Awaiting waiter)
      | _ \<Rightarrow> None)"

definition drain_wake :: "('n \<Rightarrow> 'w \<Rightarrow> bool) \<Rightarrow> 'n \<Rightarrow> 'w drain_loop \<Rightarrow> 'w drain_loop option" where
  "drain_wake woken changed l =
     (case l of
        Awaiting waiter \<Rightarrow> if woken changed waiter then Some Loop_Top else None
      | _ \<Rightarrow> None)"


section \<open>The tracker and its waiters\<close>

text \<open>Which of the critical sections of the tracker notify afterwards.\<close>

fun section_notifies :: "section_call \<Rightarrow> State \<Rightarrow> bool" where
  "section_notifies Call_Publish st \<longleftrightarrow> False"
| "section_notifies Call_Ack st \<longleftrightarrow> True"
| "section_notifies (Call_Failed t) st \<longleftrightarrow> ticket_generation t = generation st"
| "section_notifies Call_Disconnect st \<longleftrightarrow> True"
| "section_notifies (Call_Close timeout opened_at drained) st \<longleftrightarrow> False"

text \<open>
  \<open>owed\<close> counts the tasks between the end of their critical section and their
  \<open>notify_waiters\<close>.
\<close>

record ('n, 'w) drain_machine =
  tracker :: State
  changed :: 'n
  owed :: nat
  waiters :: "nat \<Rightarrow> 'w drain_loop option"

text \<open>
  One step: a critical section, an owed notification, and for the flush number
  \<open>i\<close> its start, the steps of its loop and its end, which its timeout can
  bring at any time. A publish past the largest count would wrap to zero in a
  release build; the machine stops there.
\<close>

datatype drain_action =
    Section section_call
  | Notify_Waiters
  | Begin nat
  | Register nat
  | Check nat
  | Wake nat
  | Stop nat

definition move_waiter ::
    "('w drain_loop \<Rightarrow> 'w drain_loop option) \<Rightarrow> nat \<Rightarrow> ('n, 'w) drain_machine \<Rightarrow>
     ('n, 'w) drain_machine option" where
  "move_waiter f i m =
     (case Option.bind (waiters m i) f of
        None \<Rightarrow> None
      | Some l \<Rightarrow> Some (m\<lparr>waiters := (waiters m)(i \<mapsto> l)\<rparr>))"

fun drain_step ::
    "('n \<Rightarrow> 'w) \<Rightarrow> ('n \<Rightarrow> 'n) \<Rightarrow> ('n \<Rightarrow> 'w \<Rightarrow> bool) \<Rightarrow> drain_action \<Rightarrow>
     ('n, 'w) drain_machine \<Rightarrow> ('n, 'w) drain_machine option" where
  "drain_step notified notify_waiters woken (Section c) m =
     (if c = Call_Publish \<and> unacked (tracker m) = u32_max then None
      else Some (m\<lparr>tracker := section_effect c (tracker m),
        owed := owed m + (if section_notifies c (tracker m) then 1 else 0)\<rparr>))"
| "drain_step notified notify_waiters woken Notify_Waiters m =
     (if owed m = 0 then None
      else Some (m\<lparr>changed := notify_waiters (changed m), owed := owed m - 1\<rparr>))"
| "drain_step notified notify_waiters woken (Begin i) m =
     (if waiters m i = None then Some (m\<lparr>waiters := (waiters m)(i \<mapsto> Loop_Top)\<rparr>) else None)"
| "drain_step notified notify_waiters woken (Register i) m =
     move_waiter (drain_register notified (changed m)) i m"
| "drain_step notified notify_waiters woken (Check i) m =
     move_waiter (drain_check (tracker m)) i m"
| "drain_step notified notify_waiters woken (Wake i) m =
     move_waiter (drain_wake woken (changed m)) i m"
| "drain_step notified notify_waiters woken (Stop i) m =
     (if waiters m i = None then None else Some (m\<lparr>waiters := (waiters m)(i := None)\<rparr>))"

definition drain_init :: "'n \<Rightarrow> ('n, 'w) drain_machine" where
  "drain_init n =
     \<lparr>tracker = DeliveryTracker_new, changed = n, owed = 0, waiters = Map.empty\<rparr>"

definition notify_laws :: "('n \<Rightarrow> 'w) \<Rightarrow> ('n \<Rightarrow> 'n) \<Rightarrow> ('n \<Rightarrow> 'w \<Rightarrow> bool) \<Rightarrow> bool" where
  "notify_laws notified notify_waiters woken \<longleftrightarrow>
     (\<forall>n. woken (notify_waiters n) (notified n)) \<and>
     (\<forall>n w. woken n w \<longrightarrow> woken (notify_waiters n) w)"


section \<open>No waiter is forgotten\<close>

text \<open>
  Every future a waiter holds is either the present one, which the next
  notification wakes, or woken already. A waiter that went past the look at the
  count is woken, or the count is not zero, or a notification is owed.
\<close>

definition waiter_ok ::
    "('n \<Rightarrow> 'w) \<Rightarrow> ('n \<Rightarrow> 'w \<Rightarrow> bool) \<Rightarrow> ('n, 'w) drain_machine \<Rightarrow> 'w drain_loop \<Rightarrow> bool" where
  "waiter_ok notified woken m l =
     (case l of
        Registered w \<Rightarrow> w = notified (changed m) \<or> woken (changed m) w
      | Awaiting w \<Rightarrow>
          (w = notified (changed m) \<or> woken (changed m) w) \<and>
          (woken (changed m) w \<or> unacked (tracker m) \<noteq> 0 \<or> owed m \<noteq> 0)
      | _ \<Rightarrow> True)"

definition drain_inv ::
    "('n \<Rightarrow> 'w) \<Rightarrow> ('n \<Rightarrow> 'w \<Rightarrow> bool) \<Rightarrow> ('n, 'w) drain_machine \<Rightarrow> bool" where
  "drain_inv notified woken m \<longleftrightarrow>
     (\<forall>i l. waiters m i = Some l \<longrightarrow> waiter_ok notified woken m l)"

lemma section_without_notice:
  assumes "\<not> section_notifies c st" and "unacked st \<noteq> 0"
    and "\<not> (c = Call_Publish \<and> unacked st = u32_max)"
  shows "unacked (section_effect c st) \<noteq> 0"
proof (cases c)
  case Call_Publish
  then have "unacked st \<noteq> u32_max" using assms(3) by simp
  then have "unacked st + 1 \<noteq> 0" by (metis add_eq_0_iff add.commute)
  with Call_Publish show ?thesis by (simp add: tracker_defs Let_def)
next
  case (Call_Close timeout opened_at drained)
  with assms(2) show ?thesis by (simp add: flush_close_def Let_def split: sum.split)
qed (use assms(1,2) in \<open>simp_all add: tracker_defs\<close>)

lemma section_keeps_waiter:
  assumes "waiter_ok notified woken m l"
    and "drain_step notified notify_waiters woken (Section c) m = Some m'"
  shows "waiter_ok notified woken m' l"
  using assms section_without_notice [of c "tracker m"]
  by (cases "section_notifies c (tracker m)")
     (auto simp: waiter_ok_def split: drain_loop.splits if_splits)

lemma notice_keeps_waiter:
  assumes "notify_laws notified notify_waiters woken" and "waiter_ok notified woken m l"
    and "drain_step notified notify_waiters woken Notify_Waiters m = Some m'"
  shows "waiter_ok notified woken m' l"
  using assms by (auto simp: waiter_ok_def notify_laws_def split: drain_loop.splits if_splits)

lemma waiter_ok_waiters [simp]:
  "waiter_ok notified woken (m\<lparr>waiters := ws\<rparr>) l \<longleftrightarrow> waiter_ok notified woken m l"
  by (simp add: waiter_ok_def split: drain_loop.split)

lemma drain_inv_put:
  assumes "drain_inv notified woken m" and "waiter_ok notified woken m l"
  shows "drain_inv notified woken (m\<lparr>waiters := (waiters m)(i \<mapsto> l)\<rparr>)"
  using assms by (simp add: drain_inv_def)

lemma move_waiter_inv:
  assumes "drain_inv notified woken m" and "move_waiter f i m = Some m'"
    and "\<And>l l'. waiter_ok notified woken m l \<Longrightarrow> f l = Some l' \<Longrightarrow> waiter_ok notified woken m l'"
  shows "drain_inv notified woken m'"
proof -
  obtain l l' where l: "waiters m i = Some l" "f l = Some l'"
    "m' = m\<lparr>waiters := (waiters m)(i \<mapsto> l')\<rparr>"
    using assms(2) by (auto simp: move_waiter_def bind_eq_Some_conv split: option.splits)
  have "waiter_ok notified woken m l" using assms(1) l(1) by (simp add: drain_inv_def)
  then have "waiter_ok notified woken m l'" using l(2) by (rule assms(3))
  with assms(1) show ?thesis unfolding l(3) by (rule drain_inv_put)
qed

lemma drain_step_inv:
  assumes laws: "notify_laws notified notify_waiters woken" and inv: "drain_inv notified woken m"
    and step: "drain_step notified notify_waiters woken a m = Some m'"
  shows "drain_inv notified woken m'"
proof (cases a)
  case (Section c)
  then have "waiters m' = waiters m" using step by (auto split: if_splits)
  with inv step Section show ?thesis
    unfolding drain_inv_def by (metis section_keeps_waiter)
next
  case Notify_Waiters
  then have "waiters m' = waiters m" using step by (auto split: if_splits)
  with inv step laws Notify_Waiters show ?thesis
    unfolding drain_inv_def by (metis notice_keeps_waiter)
next
  case (Begin i)
  then have "m' = m\<lparr>waiters := (waiters m)(i \<mapsto> Loop_Top)\<rparr>" using step by (auto split: if_splits)
  then show ?thesis using inv by (simp add: drain_inv_put waiter_ok_def)
next
  case (Register i)
  then show ?thesis using step
    by (intro move_waiter_inv [OF inv])
       (auto simp: waiter_ok_def drain_register_def split: drain_loop.splits)
next
  case (Check i)
  then show ?thesis using step
    by (intro move_waiter_inv [OF inv])
       (auto simp: waiter_ok_def drain_check_def split: drain_loop.splits if_splits)
next
  case (Wake i)
  then show ?thesis using step
    by (intro move_waiter_inv [OF inv])
       (auto simp: waiter_ok_def drain_wake_def split: drain_loop.splits if_splits)
next
  case (Stop i)
  then show ?thesis using step inv by (auto simp: drain_inv_def split: if_splits)
qed

interpretation drains: machine_invariant "drain_step notified notify_waiters woken"
    "\<lambda>m. notify_laws notified notify_waiters woken \<longrightarrow> drain_inv notified woken m"
    for notified notify_waiters woken
  by unfold_locales (auto intro: drain_step_inv)

lemma drain_init_inv [simp]: "drain_inv notified woken (drain_init n)"
  by (simp add: drain_inv_def drain_init_def)


section \<open>Progress\<close>

text \<open>The steps a waiter has left once the count is zero.\<close>

fun drain_steps :: "nat \<Rightarrow> 'w drain_loop \<Rightarrow> drain_action list" where
  "drain_steps i Loop_Top = [Register i, Check i]"
| "drain_steps i (Registered w) = [Check i]"
| "drain_steps i (Awaiting w) = [Wake i, Register i, Check i]"
| "drain_steps i Returned = []"

text \<open>The steps of the other waiters.\<close>

fun beside :: "nat \<Rightarrow> drain_action \<Rightarrow> bool" where
  "beside i (Begin j) \<longleftrightarrow> j \<noteq> i"
| "beside i (Register j) \<longleftrightarrow> j \<noteq> i"
| "beside i (Check j) \<longleftrightarrow> j \<noteq> i"
| "beside i (Wake j) \<longleftrightarrow> j \<noteq> i"
| "beside i (Stop j) \<longleftrightarrow> j \<noteq> i"
| "beside i _ \<longleftrightarrow> False"

text \<open>Nothing is outstanding and nobody owes a notification.\<close>

definition settled :: "('n, 'w) drain_machine \<Rightarrow> bool" where
  "settled m \<longleftrightarrow> unacked (tracker m) = 0 \<and> owed m = 0"

lemma settled_waiters [simp]: "settled (m\<lparr>waiters := ws\<rparr>) \<longleftrightarrow> settled m"
  by (simp add: settled_def)

lemma move_waiter_Some:
  "waiters m i = Some l \<Longrightarrow> f l = Some l' \<Longrightarrow>
     move_waiter f i m = Some (m\<lparr>waiters := (waiters m)(i \<mapsto> l')\<rparr>)"
  by (simp add: move_waiter_def)

lemma settled_woken:
  "drain_inv notified woken m \<Longrightarrow> settled m \<Longrightarrow> waiters m i = Some (Awaiting w) \<Longrightarrow>
     woken (changed m) w"
  by (fastforce simp: drain_inv_def settled_def waiter_ok_def)

lemma own_step:
  assumes "drain_inv notified woken m" and "settled m" and "waiters m i = Some l"
    and "drain_steps i l = a # as"
  shows "\<exists>l'. drain_step notified notify_waiters woken a m =
      Some (m\<lparr>waiters := (waiters m)(i \<mapsto> l')\<rparr>) \<and>
    drain_steps i l' = as \<and> waiter_ok notified woken m l'"
proof (cases l)
  case Loop_Top
  then show ?thesis using assms
    by (intro exI [of _ "Registered (notified (changed m))"])
       (auto simp: move_waiter_Some drain_register_def waiter_ok_def)
next
  case (Registered w)
  then show ?thesis using assms
    by (intro exI [of _ Returned])
       (auto simp: move_waiter_Some drain_check_def settled_def waiter_ok_def)
next
  case (Awaiting w)
  then have "woken (changed m) w" using settled_woken [OF assms(1,2)] assms(3) by simp
  then show ?thesis using assms Awaiting
    by (intro exI [of _ Loop_Top]) (auto simp: move_waiter_Some drain_wake_def waiter_ok_def)
qed (use assms(4) in simp)

lemma own_run:
  assumes "drain_inv notified woken m" and "settled m" and "waiters m i = Some l"
  shows "run (drain_step notified notify_waiters woken) (drain_steps i l) m =
    Some (m\<lparr>waiters := (waiters m)(i \<mapsto> Returned)\<rparr>)"
  using assms
proof (induction "drain_steps i l" arbitrary: l m)
  case Nil
  then have "l = Returned" by (cases l) simp_all
  moreover have "m\<lparr>waiters := (waiters m)(i \<mapsto> Returned)\<rparr> = m"
    using Nil(4) \<open>l = Returned\<close> by (simp add: fun_upd_idem)
  ultimately show ?case by (simp only: drain_steps.simps run.simps)
next
  case (Cons a as)
  obtain l' where l': "drain_step notified notify_waiters woken a m =
      Some (m\<lparr>waiters := (waiters m)(i \<mapsto> l')\<rparr>)"
    "as = drain_steps i l'" "waiter_ok notified woken m l'"
    using own_step [OF Cons(3-5) Cons(2) [symmetric]] by blast
  have "run (drain_step notified notify_waiters woken) (drain_steps i l')
      (m\<lparr>waiters := (waiters m)(i \<mapsto> l')\<rparr>) = Some (m\<lparr>waiters := (waiters m)(i \<mapsto> Returned)\<rparr>)"
    using Cons(1) [OF l'(2) drain_inv_put [OF Cons(3) l'(3)]] Cons(4) by simp
  then show ?case by (simp add: Cons(2) [symmetric] l'(1) l'(2) [symmetric])
qed

lemma beside_step:
  assumes "beside i a" and "drain_step notified notify_waiters woken a m = Some m'"
  shows "waiters m' i = waiters m i \<and> (settled m' \<longleftrightarrow> settled m)"
  using assms
  by (cases a) (auto simp: move_waiter_def settled_def split: option.splits if_splits)

lemma own_run_beside:
  assumes laws: "notify_laws notified notify_waiters woken"
  shows "drain_inv notified woken m \<Longrightarrow> settled m \<Longrightarrow> waiters m i = Some l \<Longrightarrow>
    run (drain_step notified notify_waiters woken) others m = Some m' \<Longrightarrow>
    filter (\<lambda>a. \<not> beside i a) others = drain_steps i l \<Longrightarrow> waiters m' i = Some Returned"
proof (induction others arbitrary: l m)
  case Nil
  then show ?case by (cases l) simp_all
next
  case (Cons a others)
  obtain mm where mm: "drain_step notified notify_waiters woken a m = Some mm"
    "run (drain_step notified notify_waiters woken) others mm = Some m'"
    using Cons.prems(4) by (auto split: option.splits)
  have inv: "drain_inv notified woken mm"
    using laws Cons.prems(1) mm(1) by (rule drain_step_inv)
  show ?case
  proof (cases "beside i a")
    case True
    then show ?thesis
      using Cons.IH [OF inv _ _ mm(2)] beside_step [OF True mm(1)] Cons.prems by simp
  next
    case False
    then have "drain_steps i l = a # filter (\<lambda>a. \<not> beside i a) others" using Cons.prems(5) by simp
    with own_step [OF Cons.prems(1-3) this, of notify_waiters] mm(1) Cons.prems(2)
    show ?thesis by (auto intro!: Cons.IH [OF inv _ _ mm(2)])
  qed
qed


section \<open>Properties\<close>

text \<open>
  C13. No lost wakeup: whenever the acknowledgements have brought the count to
  zero and every notification has gone out, each flush that still waits returns
  after at most three steps of its own, whatever the other flushes do in
  between; it never waits for a notification that came before it looked.
\<close>

theorem drained_flush_returns:
  assumes laws: "notify_laws notified notify_waiters woken"
    and reached: "run (drain_step notified notify_waiters woken) acts (drain_init n) = Some m"
    and drained: "unacked (tracker m) = 0" "owed m = 0"
    and waiting: "waiters m i = Some l"
  shows "run (drain_step notified notify_waiters woken) (drain_steps i l) m =
      Some (m\<lparr>waiters := (waiters m)(i \<mapsto> Returned)\<rparr>) \<and>
    length (drain_steps i l) \<le> 3 \<and>
    (\<forall>others m'. run (drain_step notified notify_waiters woken) others m = Some m' \<longrightarrow>
       filter (\<lambda>a. \<not> beside i a) others = drain_steps i l \<longrightarrow> waiters m' i = Some Returned)"
proof -
  have "notify_laws notified notify_waiters woken \<longrightarrow> drain_inv notified woken m"
    by (rule drains.run_inv [OF _ reached]) simp
  with laws have inv: "drain_inv notified woken m" by simp
  moreover have "settled m" using drained by (simp add: settled_def)
  moreover have "length (drain_steps i l) \<le> 3" by (cases l) simp_all
  ultimately show ?thesis
    using own_run own_run_beside [OF laws] waiting by blast
qed

text \<open>A counter of the calls of \<open>notify_waiters\<close> keeps the laws of \<open>Notify\<close>.\<close>

lemma counting_notify: "notify_laws id Suc (\<lambda>n w. w < n)"
  by (simp add: notify_laws_def)

theorem drained_flush_returns_witness:
  "case run (drain_step id Suc (\<lambda>n w. w < n))
      [Section Call_Publish, Begin 7, Register 7, Check 7, Section Call_Ack, Notify_Waiters]
      (drain_init 0) of
     None \<Rightarrow> False
   | Some m \<Rightarrow> waiters m 7 = Some (Awaiting 0) \<and>
       run (drain_step id Suc (\<lambda>n w. w < n)) [Wake 7, Register 7, Check 7] m =
         Some (m\<lparr>waiters := (waiters m)(7 \<mapsto> Returned)\<rparr>)"
proof -
  let ?acts = "[Section Call_Publish, Begin 7, Register 7, Check 7, Section Call_Ack, Notify_Waiters]"
  obtain m where m: "run (drain_step id Suc (\<lambda>n w. w < n)) ?acts (drain_init 0) = Some m"
    "unacked (tracker m) = 0" "owed m = 0" "waiters m 7 = Some (Awaiting 0)"
    by (auto simp: drain_init_def move_waiter_def drain_register_def drain_check_def
        tracker_defs Let_def saturating_dec_def)
  from drained_flush_returns [OF counting_notify m] m show ?thesis by simp
qed

end
