(* ===== verification/Float_Bits.thy ===== *)
theory Float_Bits
  imports Complex_Main Prelude
begin

text \<open>
  Floating-point numbers by their bits: the fields of an \<open>f64\<close> and an \<open>f32\<close>, and
  the number the fields stand for.
\<close>

section \<open>The numbers behind the bits\<close>

text \<open>A double of sign \<open>s\<close>, exponent field \<open>e\<close> and fraction field \<open>f\<close>.\<close>

definition f64_bits :: "nat \<Rightarrow> nat \<Rightarrow> nat \<Rightarrow> f64" where
  "f64_bits s e f = word_of_nat (s * 2 ^ 63 + e * 2 ^ 52 + f)"

definition f64_sign :: "f64 \<Rightarrow> nat" where
  "f64_sign w = unat w div 2 ^ 63"

definition f64_exponent :: "f64 \<Rightarrow> nat" where
  "f64_exponent w = unat w div 2 ^ 52 mod 2 ^ 11"

definition f64_fraction :: "f64 \<Rightarrow> nat" where
  "f64_fraction w = unat w mod 2 ^ 52"

definition f32_sign :: "f32 \<Rightarrow> nat" where
  "f32_sign w = unat w div 2 ^ 31"

definition f32_exponent :: "f32 \<Rightarrow> nat" where
  "f32_exponent w = unat w div 2 ^ 23 mod 2 ^ 8"

definition f32_fraction :: "f32 \<Rightarrow> nat" where
  "f32_fraction w = unat w mod 2 ^ 23"

definition f64_finite :: "f64 \<Rightarrow> bool" where
  "f64_finite w \<longleftrightarrow> f64_exponent w < 2047"

definition f32_finite :: "f32 \<Rightarrow> bool" where
  "f32_finite w \<longleftrightarrow> f32_exponent w < 255"

text \<open>
  The magnitude of a finite float, in units small enough to make it a natural
  number: \<open>2 ^ -1075\<close> for a double and \<open>2 ^ -150\<close> for a single.
\<close>

definition f64_units :: "f64 \<Rightarrow> nat" where
  "f64_units w =
     (if f64_exponent w = 0 then 2 * f64_fraction w
      else (2 ^ 52 + f64_fraction w) * 2 ^ f64_exponent w)"

definition f32_units :: "f32 \<Rightarrow> nat" where
  "f32_units w =
     (if f32_exponent w = 0 then 2 * f32_fraction w
      else (2 ^ 23 + f32_fraction w) * 2 ^ f32_exponent w)"

definition f64_value :: "f64 \<Rightarrow> real" where
  "f64_value w = (- 1) ^ f64_sign w * real (f64_units w) / 2 ^ 1075"

definition f32_value :: "f32 \<Rightarrow> real" where
  "f32_value w = (- 1) ^ f32_sign w * real (f32_units w) / 2 ^ 150"


section \<open>The fields of a double\<close>

lemma unat_of_nat_u64: "n < 2 ^ 64 \<Longrightarrow> unat (word_of_nat n :: u64) = n"
  by (simp add: unat_of_nat)

lemma unat_f64_bits:
  assumes "s < 2" and "e < 2 ^ 11" and "f < 2 ^ 52"
  shows "unat (f64_bits s e f) = s * 2 ^ 63 + e * 2 ^ 52 + f"
proof -
  have "s * 2 ^ 63 + e * 2 ^ 52 + f < 2 ^ 64" using assms by simp
  then show ?thesis unfolding f64_bits_def by (rule unat_of_nat_u64)
qed

lemma f64_fields:
  assumes "s < 2" and "e < 2 ^ 11" and "f < 2 ^ 52"
  shows "f64_sign (f64_bits s e f) = s" "f64_exponent (f64_bits s e f) = e"
    "f64_fraction (f64_bits s e f) = f"
proof -
  have u: "unat (f64_bits s e f) = (s * 2 ^ 11 + e) * 2 ^ 52 + f"
    by (subst unat_f64_bits [OF assms]) simp
  have q: "unat (f64_bits s e f) div 2 ^ 52 = s * 2 ^ 11 + e"
    using assms(3) unfolding u by simp
  show "f64_sign (f64_bits s e f) = s"
    using assms by (simp add: f64_sign_def unat_f64_bits)
  show "f64_exponent (f64_bits s e f) = e"
    unfolding f64_exponent_def q using assms(2) by simp
  show "f64_fraction (f64_bits s e f) = f"
    unfolding f64_fraction_def u using assms(3) by (simp only: mod_mult_self3 mod_less)
qed

lemma f64_sign_cases: "f64_sign w = 0 \<or> f64_sign w = 1"
proof -
  have "unat w < 2 ^ 64" by (rule order_less_le_trans [OF unsigned_less]) simp
  then have "f64_sign w < 2" unfolding f64_sign_def by (simp add: div_less_iff_less_mult)
  then show ?thesis by linarith
qed

lemma f32_sign_cases: "f32_sign w = 0 \<or> f32_sign w = 1"
proof -
  have "unat w < 2 ^ 32" by (rule order_less_le_trans [OF unsigned_less]) simp
  then have "f32_sign w < 2" unfolding f32_sign_def by (simp add: div_less_iff_less_mult)
  then show ?thesis by linarith
qed


text \<open>A word is its three fields.\<close>

lemma three_fields:
  fixes x :: nat
  shows "x = (x div 2 ^ (a + b) * 2 ^ b + x div 2 ^ a mod 2 ^ b) * 2 ^ a + x mod 2 ^ a"
proof -
  have "x div 2 ^ (a + b) = x div 2 ^ a div 2 ^ b" by (simp add: power_add div_mult2_eq)
  then show ?thesis by (simp only: div_mult_mod_eq)
qed

lemma f64_eqI:
  assumes "f64_sign w = f64_sign w'" "f64_exponent w = f64_exponent w'" "f64_fraction w = f64_fraction w'"
  shows "w = w'"
proof -
  have "unat w = unat w'"
    using assms three_fields [of "unat w" 52 11] three_fields [of "unat w'" 52 11]
    unfolding f64_sign_def f64_exponent_def f64_fraction_def by (simp only: arith_simps)
  then show ?thesis by (simp add: word_unat_eq_iff)
qed

lemma f32_eqI:
  assumes "f32_sign w = f32_sign w'" "f32_exponent w = f32_exponent w'" "f32_fraction w = f32_fraction w'"
  shows "w = w'"
proof -
  have "unat w = unat w'"
    using assms three_fields [of "unat w" 23 8] three_fields [of "unat w'" 23 8]
    unfolding f32_sign_def f32_exponent_def f32_fraction_def by (simp only: arith_simps)
  then show ?thesis by (simp add: word_unat_eq_iff)
qed

lemma f64_fraction_less: "f64_fraction w < 2 ^ 52"
  by (simp add: f64_fraction_def)

lemma f32_fraction_less: "f32_fraction w < 2 ^ 23"
  by (simp add: f32_fraction_def)

end
