(* ===== verification/Float_Text.thy ===== *)
theory Float_Text
  imports Float_Bits
begin

text \<open>
  What \<open>{}\<close> writes for an \<open>f32\<close> and an \<open>f64\<close>, as \<open>format_value\<close> of
  \<open>src/payload.rs\<close> uses it: \<open>Display\<close> of the standard library.

  A number goes out in plain decimal notation, with the fewest digits that a reader
  who rounds to the nearest float takes back to it: the last digit stands at the
  highest power of ten that has a multiple in the rounding interval of the float,
  and of two such multiples the nearer one is written. An infinity is \<open>inf\<close>, a NaN
  \<open>NaN\<close>, and a zero keeps its sign.
\<close>

section \<open>The rounding interval\<close>

text \<open>
  The magnitude of a finite float and the distances to the ends of its rounding
  interval, in half units of the last place of the smallest float: \<open>p\<close> bits of
  fraction, exponent field \<open>e\<close>, fraction field \<open>f\<close>. Below a power of two the
  floats lie twice as dense. The ends belong to the interval of the even fraction.
\<close>

record rounding =
  mant :: nat
  minus_by :: nat
  plus_by :: nat
  inclusive :: bool

definition float_units :: "nat \<Rightarrow> nat \<Rightarrow> nat \<Rightarrow> nat" where
  "float_units p e f = (if e = 0 then 2 * f else (2 ^ p + f) * 2 ^ e)"

definition rounding_of :: "nat \<Rightarrow> nat \<Rightarrow> nat \<Rightarrow> rounding" where
  "rounding_of p e f =
     (let gap = (if e = 0 then 2 else 2 ^ e)
      in \<lparr>mant = 2 * float_units p e f,
          minus_by = (if e \<noteq> 0 \<and> f = 0 then gap div 2 else gap),
          plus_by = gap,
          inclusive = even f\<rparr>)"

definition inside :: "bool \<Rightarrow> nat \<Rightarrow> nat \<Rightarrow> bool" where
  "inside incl r bound \<longleftrightarrow> (if incl then r \<le> bound else r < bound)"


section \<open>The shortest digits\<close>

text \<open>
  A position \<open>(a, b)\<close> is the power \<open>10 ^ a / 10 ^ b\<close>. At a position, the two
  candidates are the multiples on either side of the number, which is
  \<open>mant d / scale\<close>.
\<close>

definition shortest_at :: "rounding \<Rightarrow> nat \<Rightarrow> nat \<times> nat \<Rightarrow> nat option" where
  "shortest_at d scale pos =
     (let n = mant d * 10 ^ snd pos; S = scale * 10 ^ fst pos; D = n div S; R = n mod S;
          down = inside (inclusive d) R (minus_by d * 10 ^ snd pos);
          up = inside (inclusive d) (S - R) (plus_by d * 10 ^ snd pos)
      in if up \<and> (\<not> down \<or> S \<le> 2 * R) then Some (D + 1)
         else if down then Some D
         else None)"

text \<open>The positions from the highest power of ten down.\<close>

definition positions :: "nat \<Rightarrow> nat \<Rightarrow> (nat \<times> nat) list" where
  "positions tens places = map (\<lambda>a. (a, 0)) (rev [1..<Suc tens]) @ map (\<lambda>b. (0, b)) [0..<Suc places]"

fun shortest_from :: "rounding \<Rightarrow> nat \<Rightarrow> (nat \<times> nat) list \<Rightarrow> (nat \<times> nat \<times> nat) option" where
  "shortest_from d scale [] = None"
| "shortest_from d scale (pos # poss) =
     (case shortest_at d scale pos of
        Some D \<Rightarrow> Some (D, pos)
      | None \<Rightarrow> shortest_from d scale poss)"


section \<open>The text\<close>

text \<open>The last \<open>w\<close> digits of \<open>n\<close>, with leading zeros.\<close>

fun padded :: "nat \<Rightarrow> nat \<Rightarrow> string" where
  "padded 0 n = []"
| "padded (Suc w) n = padded w (n div 10) @ [decimal_digit (n mod 10)]"

definition plain_decimal :: "nat \<times> nat \<times> nat \<Rightarrow> string" where
  "plain_decimal digits =
     (case digits of (D, a, b) \<Rightarrow>
        if b = 0 then decimal (D * 10 ^ a)
        else decimal (D div 10 ^ b) @ ''.'' @ padded b (D mod 10 ^ b))"

definition display_float ::
    "nat \<Rightarrow> nat \<Rightarrow> nat \<Rightarrow> nat \<Rightarrow> nat \<Rightarrow> nat \<Rightarrow> nat \<Rightarrow> string" where
  "display_float p special tens places s e f =
     (if e = special \<and> f \<noteq> 0 then ''NaN''
      else (if s = 1 then ''-'' else []) @
        (if e = special then ''inf''
         else if e = 0 \<and> f = 0 then ''0''
         else case shortest_from (rounding_of p e f) (2 ^ places) (positions tens places) of
                Some digits \<Rightarrow> plain_decimal digits
              | None \<Rightarrow> []))"

definition display_f64 :: "f64 \<Rightarrow> string" where
  "display_f64 w = display_float 52 2047 309 1076 (f64_sign w) (f64_exponent w) (f64_fraction w)"

definition display_f32 :: "f32 \<Rightarrow> string" where
  "display_f32 w = display_float 23 255 39 151 (f32_sign w) (f32_exponent w) (f32_fraction w)"


section \<open>The digits lie in the rounding interval\<close>

text \<open>A multiple \<open>m\<close> of a position is one the float may be written as.\<close>

definition reaches :: "rounding \<Rightarrow> nat \<Rightarrow> nat \<times> nat \<Rightarrow> nat \<Rightarrow> bool" where
  "reaches d scale pos m \<longleftrightarrow>
     (let n = mant d * 10 ^ snd pos; M = m * (scale * 10 ^ fst pos)
      in M \<le> n \<and> inside (inclusive d) (n - M) (minus_by d * 10 ^ snd pos) \<or>
         n \<le> M \<and> inside (inclusive d) (M - n) (plus_by d * 10 ^ snd pos))"

lemma inside_mono: "inside incl r bound \<Longrightarrow> r' \<le> r \<Longrightarrow> inside incl r' bound"
  by (auto simp: inside_def split: if_splits)

lemma shortest_at_reaches:
  assumes "0 < scale" and "shortest_at d scale pos = Some D"
  shows "reaches d scale pos D"
proof -
  define n where "n = mant d * 10 ^ snd pos"
  define S where "S = scale * 10 ^ fst pos"
  have S: "0 < S" using assms(1) by (simp add: S_def)
  have n: "n = n div S * S + n mod S" by simp
  have r: "n mod S < S" using S by simp
  consider "D = n div S + 1" "inside (inclusive d) (S - n mod S) (plus_by d * 10 ^ snd pos)"
    | "D = n div S" "inside (inclusive d) (n mod S) (minus_by d * 10 ^ snd pos)"
    using assms(2) by (auto simp: shortest_at_def Let_def n_def S_def split: if_splits)
  then show ?thesis
  proof cases
    case 1
    then have M: "D * S = n div S * S + S" by simp
    then have "n \<le> D * S" "D * S - n = S - n mod S" using n r by linarith+
    with 1(2) show ?thesis by (simp add: reaches_def n_def S_def)
  next
    case 2
    then have "D * S \<le> n" "n - D * S = n mod S" using n by (simp_all add: minus_div_mult_eq_mod)
    with 2(2) show ?thesis by (simp add: reaches_def n_def S_def)
  qed
qed

lemma shortest_at_None:
  assumes "0 < scale" and "0 < minus_by d" and "shortest_at d scale pos = None"
  shows "\<not> reaches d scale pos m"
proof
  assume m: "reaches d scale pos m"
  define n where "n = mant d * 10 ^ snd pos"
  define S where "S = scale * 10 ^ fst pos"
  have S: "0 < S" using assms(1) by (simp add: S_def)
  have n: "n = n div S * S + n mod S" by simp
  have no: "\<not> inside (inclusive d) (n mod S) (minus_by d * 10 ^ snd pos)"
    "\<not> inside (inclusive d) (S - n mod S) (plus_by d * 10 ^ snd pos)"
    using assms(3) by (auto simp: shortest_at_def Let_def n_def S_def split: if_splits)
  show False
  proof (cases "m \<le> n div S")
    case True
    then have "m * S \<le> n div S * S" by simp
    then have low: "m * S \<le> n" "n mod S \<le> n - m * S" using n by linarith+
    show False
    proof (cases "m * S = n")
      case True
      then have "n mod S = 0" by auto
      with assms(2) no(1) show False by (simp add: inside_def split: if_splits)
    next
      case False
      with low(1) m have "inside (inclusive d) (n - m * S) (minus_by d * 10 ^ snd pos)"
        by (auto simp: reaches_def Let_def n_def S_def)
      with low(2) no(1) show False by (blast intro: inside_mono)
    qed
  next
    case False
    then have "(n div S + 1) * S \<le> m * S" by (intro mult_right_mono) simp_all
    then have "n div S * S + S \<le> m * S" by (simp only: add_mult_distrib mult_1)
    then have "n < m * S" "S - n mod S \<le> m * S - n" using n mod_less_divisor [OF S, of n] by linarith+
    moreover from this m have "inside (inclusive d) (m * S - n) (plus_by d * 10 ^ snd pos)"
      by (auto simp: reaches_def Let_def n_def S_def)
    ultimately show False using no(2) by (blast intro: inside_mono)
  qed
qed


lemma shortest_from_Some:
  assumes "shortest_from d scale poss = Some (D, pos)"
  shows "\<exists>before after. poss = before @ pos # after \<and> shortest_at d scale pos = Some D \<and>
    (\<forall>q\<in>set before. shortest_at d scale q = None)"
  using assms
proof (induction poss)
  case Nil
  then show ?case by simp
next
  case (Cons q poss)
  show ?case
  proof (cases "shortest_at d scale q")
    case None
    with Cons obtain before after where "poss = before @ pos # after"
      "shortest_at d scale pos = Some D" "\<forall>q\<in>set before. shortest_at d scale q = None"
      by auto
    with None show ?thesis by (intro exI [of _ "q # before"] exI [of _ after]) simp
  next
    case (Some D')
    with Cons.prems show ?thesis by (intro exI [of _ "[]"] exI [of _ poss]) simp
  qed
qed

lemma shortest_from_None:
  "shortest_from d scale poss = None \<longleftrightarrow> (\<forall>q\<in>set poss. shortest_at d scale q = None)"
  by (induction poss) (auto split: option.split)

text \<open>At the last position the number itself is a multiple, so the search finds one.\<close>

lemma shortest_exists:
  assumes "0 < minus_by d"
  obtains D pos where "shortest_from d (2 ^ places) (positions tens places) = Some (D, pos)"
proof -
  have "mant d * 10 ^ places mod (2 ^ places) = 0"
  proof -
    have "(10::nat) ^ places = 5 ^ places * 2 ^ places" by (simp flip: power_mult_distrib)
    then show ?thesis by simp
  qed
  then have "shortest_at d (2 ^ places) (0, places) \<noteq> None"
    using assms by (auto simp: shortest_at_def Let_def inside_def)
  moreover have "(0, places) \<in> set (positions tens places)"
    by (auto simp: positions_def)
  ultimately have "shortest_from d (2 ^ places) (positions tens places) \<noteq> None"
    by (auto simp: shortest_from_None)
  with that show thesis by (cases "shortest_from d (2 ^ places) (positions tens places)") auto
qed

lemma positions_shape: "(a, b) \<in> set (positions tens places) \<Longrightarrow> a = 0 \<or> b = 0"
  by (auto simp: positions_def)

text \<open>The number that digits at a position stand for, and how far it is from the float.\<close>

definition digits_value :: "nat \<times> nat \<times> nat \<Rightarrow> real" where
  "digits_value digits = (case digits of (D, a, b) \<Rightarrow> real D * 10 ^ a / 10 ^ b)"

lemma reaches_value:
  assumes "0 < scale" and "reaches d scale pos D"
  defines "t \<equiv> digits_value (D, pos)" and "v \<equiv> real (mant d) / real scale"
  shows "(t \<le> v \<and> v - t \<le> real (minus_by d) / real scale \<and>
      (v - t = real (minus_by d) / real scale \<longrightarrow> inclusive d)) \<or>
    (v \<le> t \<and> t - v \<le> real (plus_by d) / real scale \<and>
      (t - v = real (plus_by d) / real scale \<longrightarrow> inclusive d))"
proof -
  obtain a b where pos: "pos = (a, b)" by (cases pos)
  define K where "K = real scale * 10 ^ b"
  have K: "0 < K" using assms(1) by (simp add: K_def)
  have scaled: "real (D * (scale * 10 ^ a)) = t * K" "real (mant d * 10 ^ b) = v * K"
    and part: "real (x * 10 ^ b) = real x / real scale * K" for x
    using assms(1) by (simp_all add: t_def v_def K_def digits_value_def pos field_simps)
  have low: "D * (scale * 10 ^ a) \<le> mant d * 10 ^ b \<longleftrightarrow> t \<le> v"
    "mant d * 10 ^ b \<le> D * (scale * 10 ^ a) \<longleftrightarrow> v \<le> t"
    using K by (simp_all only: of_nat_le_iff [where 'a = real, symmetric] scaled mult_le_cancel_right_pos)
  have down: "inside i (mant d * 10 ^ b - D * (scale * 10 ^ a)) (x * 10 ^ b) \<longleftrightarrow>
      (if i then v - t \<le> real x / real scale else v - t < real x / real scale)" if "t \<le> v" for i x
  proof -
    have "real (mant d * 10 ^ b - D * (scale * 10 ^ a)) = (v - t) * K"
      using that low(1) by (subst of_nat_diff) (simp_all only: scaled left_diff_distrib)
    then show ?thesis
      unfolding inside_def of_nat_le_iff [where 'a = real, symmetric] of_nat_less_iff [where 'a = real, symmetric]
        part using K by (simp del: times_divide_eq_left)
  qed
  have up: "inside i (D * (scale * 10 ^ a) - mant d * 10 ^ b) (x * 10 ^ b) \<longleftrightarrow>
      (if i then t - v \<le> real x / real scale else t - v < real x / real scale)" if "v \<le> t" for i x
  proof -
    have "real (D * (scale * 10 ^ a) - mant d * 10 ^ b) = (t - v) * K"
      using that low(2) by (subst of_nat_diff) (simp_all only: scaled left_diff_distrib)
    then show ?thesis
      unfolding inside_def of_nat_le_iff [where 'a = real, symmetric] of_nat_less_iff [where 'a = real, symmetric]
        part using K by (simp del: times_divide_eq_left)
  qed
  show ?thesis
    using assms(2) down up low unfolding reaches_def Let_def pos fst_conv snd_conv
    by (auto split: if_splits)
qed


section \<open>The other floats lie outside\<close>

lemma float_units_grid:
  assumes "e \<le> e'"
  shows "\<exists>k. float_units p e' f' = k * (if e = 0 then 2 else 2 ^ e)"
proof (cases "e = 0")
  case True
  show ?thesis
  proof (cases "e' = 0")
    case True
    with \<open>e = 0\<close> show ?thesis by (intro exI [of _ f']) (simp add: float_units_def)
  next
    case False
    then obtain n where "e' = Suc n" by (cases e') auto
    with \<open>e = 0\<close> show ?thesis
      by (intro exI [of _ "(2 ^ p + f') * 2 ^ n"]) (simp add: float_units_def)
  qed
next
  case False
  then have "(2::nat) ^ e' = 2 ^ (e' - e) * 2 ^ e" using assms by (simp flip: power_add)
  with False assms show ?thesis
    by (intro exI [of _ "(2 ^ p + f') * 2 ^ (e' - e)"]) (simp add: float_units_def)
qed

text \<open>A float of a smaller exponent is below, by half the gap at least.\<close>

lemma float_units_smaller:
  assumes "e' < e" and "f' < 2 ^ p"
  shows "float_units p e' f' + 2 ^ (e - 1) \<le> 2 ^ p * 2 ^ e"
proof -
  obtain n where e: "e = Suc n" using assms(1) by (cases e) auto
  have "float_units p e' f' \<le> (2 * 2 ^ p - 1) * 2 ^ n"
  proof (cases "e' = 0")
    case True
    have "2 * f' \<le> (2 * 2 ^ p - 1) * 1" using assms(2) by simp
    also have "\<dots> \<le> (2 * 2 ^ p - 1) * 2 ^ n" by (intro mult_le_mono2) simp
    finally show ?thesis using True by (simp add: float_units_def)
  next
    case False
    have "2 ^ p + f' \<le> 2 * 2 ^ p - 1" using assms(2) by simp
    moreover have "(2::nat) ^ e' \<le> 2 ^ n" using assms(1) e by (intro power_increasing) simp_all
    ultimately show ?thesis using False by (simp add: float_units_def mult_le_mono)
  qed
  moreover have "(2 * 2 ^ p - 1) * 2 ^ n + (2::nat) ^ n = 2 ^ p * 2 ^ e"
  proof -
    have "(2 * 2 ^ p - 1) * 2 ^ n + (2::nat) ^ n = (2 * 2 ^ p - 1 + 1) * 2 ^ n"
      by (simp only: add_mult_distrib mult_1)
    also have "\<dots> = 2 ^ p * 2 ^ e" by (simp add: e)
    finally show ?thesis .
  qed
  ultimately show ?thesis by (simp add: e)
qed

lemma grid_gap:
  fixes g :: nat
  assumes "x = k * g" and "y = l * g" and "x < y"
  shows "x + g \<le> y"
proof -
  have "k < l" using assms by (metis mult_less_cancel2)
  then have "(k + 1) * g \<le> l * g" by (intro mult_right_mono) simp_all
  with assms(1,2) show ?thesis by (simp add: add_mult_distrib)
qed

lemma neighbours:
  assumes f: "f < 2 ^ p" and f': "f' < 2 ^ p"
  shows "float_units p e' f' = float_units p e f \<or>
    mant (rounding_of p e f) + 2 * plus_by (rounding_of p e f) \<le> 2 * float_units p e' f' \<or>
    2 * float_units p e' f' + 2 * minus_by (rounding_of p e f) \<le> mant (rounding_of p e f)"
proof -
  define g where "g = (if e = 0 then 2 else 2 ^ e :: nat)"
  let ?U = "float_units p e f" and ?V = "float_units p e' f'"
  obtain k where k: "?U = k * g" using float_units_grid [of e e p f] by (auto simp: g_def)
  have minus: "2 * minus_by (rounding_of p e f) \<le> 2 * g"
    "e \<noteq> 0 \<Longrightarrow> f = 0 \<Longrightarrow> 2 * minus_by (rounding_of p e f) \<le> g"
    and plus: "plus_by (rounding_of p e f) = g" and mant: "mant (rounding_of p e f) = 2 * ?U"
    by (simp_all add: rounding_of_def Let_def g_def)
  show ?thesis
  proof (cases "e \<le> e'")
    case True
    then obtain l where l: "?V = l * g" using float_units_grid [of e e' p f'] by (auto simp: g_def)
    consider "?V = ?U" | "?U + g \<le> ?V" | "?V + g \<le> ?U"
      using grid_gap [OF k l] grid_gap [OF l k] by linarith
    then show ?thesis using minus(1) plus mant by cases linarith+
  next
    case False
    then obtain n where e: "e = Suc n" by (cases e) auto
    have g: "g = 2 * 2 ^ n" by (simp add: g_def e)
    have below: "?V + 2 ^ n \<le> 2 ^ p * 2 ^ e"
      using float_units_smaller [of e' e f' p] False f' by (simp add: e)
    have U: "?U = 2 ^ p * 2 ^ e + f * g" by (simp add: float_units_def e g add_mult_distrib)
    show ?thesis
    proof (cases "f = 0")
      case True
      then show ?thesis using below U minus(2) g e mant by simp
    next
      case False
      then have "g \<le> f * g" by simp
      then have "?V + g \<le> ?U" using below U by linarith
      then show ?thesis using minus(1) mant by linarith
    qed
  qed
qed


lemma rounding_fields:
  "inclusive (rounding_of p e f) = even f" "mant (rounding_of p e f) = 2 * float_units p e f"
  "0 < minus_by (rounding_of p e f)" "0 < plus_by (rounding_of p e f)"
proof -
  have "0 < (2::nat) ^ e div 2" if "e \<noteq> 0" using that by (cases e) simp_all
  then show "0 < minus_by (rounding_of p e f)" by (auto simp: rounding_of_def Let_def)
qed (simp_all add: rounding_of_def Let_def)

lemma minus_by_half:
  assumes "e \<noteq> 0 \<or> f \<noteq> 0"
  shows "2 * minus_by (rounding_of p e f) \<le> mant (rounding_of p e f)"
proof (cases "e = 0")
  case True
  with assms show ?thesis by (simp add: rounding_of_def float_units_def)
next
  case False
  have "minus_by (rounding_of p e f) \<le> 2 ^ e"
    using False by (simp add: rounding_of_def Let_def)
  also have "2 ^ e \<le> (2 ^ p + f) * 2 ^ e" by (simp add: Suc_le_eq)
  finally show ?thesis using False by (simp add: rounding_fields float_units_def)
qed

lemma rounding_nearest:
  assumes scale: "0 < scale" and fracs: "f < 2 ^ p" "f' < 2 ^ p" and pos: "e \<noteq> 0 \<or> f \<noteq> 0"
    and reach: "reaches (rounding_of p e f) scale place D"
    and y: "\<bar>y\<bar> = 2 * real (float_units p e' f') / real scale"
  defines "t \<equiv> digits_value (D, place)" and "v \<equiv> 2 * real (float_units p e f) / real scale"
  shows "\<bar>t - v\<bar> \<le> \<bar>t - y\<bar> \<and> (\<bar>t - v\<bar> = \<bar>t - y\<bar> \<longrightarrow> y = v \<or> even f)"
proof -
  define d where "d = rounding_of p e f"
  define lo where "lo = real (minus_by d) / real scale"
  define hi where "hi = real (plus_by d) / real scale"
  define Y where "Y = 2 * real (float_units p e' f') / real scale"
  have mant: "real (mant d) / real scale = v" by (simp add: d_def rounding_fields v_def)
  have near: "(t \<le> v \<and> v - t \<le> lo \<and> (v - t = lo \<longrightarrow> even f)) \<or>
      (v \<le> t \<and> t - v \<le> hi \<and> (t - v = hi \<longrightarrow> even f))"
    using reaches_value [OF scale reach] unfolding t_def [symmetric] d_def [symmetric] mant
      lo_def [symmetric] hi_def [symmetric] by (simp add: d_def rounding_fields)
  have t: "0 \<le> t" by (simp add: t_def digits_value_def split: prod.split)
  have ends: "0 < lo" "0 < hi" using scale by (simp_all add: lo_def hi_def d_def rounding_fields)
  have Y: "0 \<le> Y" by (simp add: Y_def)
  have scaled: "real x / real scale \<le> real z / real scale" if "x \<le> z" for x z
    using that by (simp add: divide_right_mono)
  have half: "2 * lo \<le> v"
    using scaled [OF minus_by_half [OF pos, of p]] unfolding d_def [symmetric] mant
    by (simp add: lo_def)
  have far: "Y = v \<or> v + 2 * hi \<le> Y \<or> Y + 2 * lo \<le> v"
  proof -
    have "float_units p e' f' = float_units p e f \<or>
        mant d + 2 * plus_by d \<le> 2 * float_units p e' f' \<or> 2 * float_units p e' f' + 2 * minus_by d \<le> mant d"
      unfolding d_def by (rule neighbours [OF fracs])
    then show ?thesis
    proof (elim disjE)
      assume "mant d + 2 * plus_by d \<le> 2 * float_units p e' f'"
      from scaled [OF this] show ?thesis
        unfolding mant [symmetric] hi_def Y_def by (simp add: add_divide_distrib)
    next
      assume "2 * float_units p e' f' + 2 * minus_by d \<le> mant d"
      from scaled [OF this] show ?thesis
        unfolding mant [symmetric] lo_def Y_def by (simp add: add_divide_distrib)
    qed (simp add: Y_def v_def)
  qed
  have "y = Y \<or> y = - Y" using y unfolding Y_def [symmetric] by linarith
  then show ?thesis
  proof
    assume "y = Y"
    with near far ends show ?thesis by (auto simp: abs_if split: if_splits)
  next
    assume neg: "y = - Y"
    have "\<bar>t - y\<bar> = t + Y" using t Y neg by simp
    then show ?thesis using near half ends t Y by (auto simp: abs_if split: if_splits)
  qed
qed



section \<open>Reading the text\<close>

text \<open>The number a decimal text stands for.\<close>

definition read_number :: "string \<Rightarrow> real" where
  "read_number s =
     (let (sign, m) = (case s of [] \<Rightarrow> (1, []) | c # cs \<Rightarrow> if c = CHR ''-'' then (- 1, cs) else (1, s))
      in sign *
         (case split_on CHR ''.'' m of
            w # f # _ \<Rightarrow> real (undecimal w) + real (undecimal f) / 10 ^ length f
          | w # _ \<Rightarrow> real (undecimal w)
          | [] \<Rightarrow> 0))"

lemma length_padded [simp]: "length (padded w n) = w"
  by (induction w n rule: padded.induct) simp_all

lemma padded_digits: "list_all is_digit (padded w n)"
  by (induction w n rule: padded.induct) (simp_all add: is_digit_decimal_digit)

lemma undecimal_padded: "undecimal (padded w n) = n mod 10 ^ w"
proof (induction w n rule: padded.induct)
  case (1 n)
  then show ?case by (simp add: undecimal_def)
next
  case (2 w n)
  have "undecimal (padded (Suc w) n) = 10 * undecimal (padded w (n div 10)) + n mod 10"
    by (simp add: undecimal_def)
  also have "\<dots> = n mod 10 ^ Suc w"
    using 2 mod_mult2_eq [of n 10 "10 ^ w"] by simp
  finally show ?case .
qed

lemma digits_plain: "list_all is_digit s \<Longrightarrow> CHR ''.'' \<notin> set s \<and> CHR ''-'' \<notin> set s"
  by (auto simp: list_all_iff is_digit_def)

lemma plain_decimal_head:
  "\<exists>c cs. plain_decimal digits = c # cs \<and> c \<noteq> CHR ''-''"
proof -
  obtain D a b where d: "digits = (D, a, b)" by (cases digits)
  have "\<exists>c cs. decimal n @ s = c # cs \<and> c \<noteq> CHR ''-''" for n s
    using digits_plain [OF decimal_digits [of n]] by (cases "decimal n") auto
  from this [of "D * 10 ^ a" "[]"] this [of "D div 10 ^ b" "''.'' @ padded b (D mod 10 ^ b)"]
  show ?thesis by (simp add: plain_decimal_def d)
qed

lemma read_plain_decimal:
  assumes "a = 0 \<or> b = 0"
  shows "(case split_on CHR ''.'' (plain_decimal (D, a, b)) of
      w # f # _ \<Rightarrow> real (undecimal w) + real (undecimal f) / 10 ^ length f
    | w # _ \<Rightarrow> real (undecimal w) | [] \<Rightarrow> 0) = digits_value (D, a, b)"
proof (cases "b = 0")
  case True
  then show ?thesis
    using digits_plain [OF decimal_digits [of "D * 10 ^ a"]]
    by (simp add: plain_decimal_def split_on_absent digits_value_def)
next
  case False
  have "split_on CHR ''.'' (decimal (D div 10 ^ b) @ CHR ''.'' # padded b (D mod 10 ^ b)) =
      [decimal (D div 10 ^ b), padded b (D mod 10 ^ b)]"
    using digits_plain [OF decimal_digits [of "D div 10 ^ b"]] digits_plain [OF padded_digits [of b "D mod 10 ^ b"]]
    by (simp add: split_on_append split_on_absent)
  moreover have "real D = real (D div 10 ^ b) * 10 ^ b + real (D mod 10 ^ b)"
  proof -
    have "real D = real (D div 10 ^ b * 10 ^ b + D mod 10 ^ b)" by (simp only: div_mult_mod_eq)
    then show ?thesis by (simp only: of_nat_add of_nat_mult of_nat_power of_nat_numeral)
  qed
  ultimately show ?thesis using False assms
    by (simp add: plain_decimal_def digits_value_def undecimal_padded add_divide_distrib)
qed

lemma read_number_plain:
  assumes "a = 0 \<or> b = 0"
  shows "read_number (plain_decimal (D, a, b)) = digits_value (D, a, b)"
    "read_number (CHR ''-'' # plain_decimal (D, a, b)) = - digits_value (D, a, b)"
proof -
  obtain c cs where "plain_decimal (D, a, b) = c # cs" "c \<noteq> CHR ''-''"
    using plain_decimal_head by blast
  then show "read_number (plain_decimal (D, a, b)) = digits_value (D, a, b)"
    using read_plain_decimal [OF assms, of D] by (simp add: read_number_def)
  show "read_number (CHR ''-'' # plain_decimal (D, a, b)) = - digits_value (D, a, b)"
    using read_plain_decimal [OF assms, of D] by (simp add: read_number_def)
qed


text \<open>The text of a finite float of either format, read back.\<close>

lemma display_float_nearest:
  fixes tens :: nat
  assumes fracs: "f < 2 ^ p" "f' < 2 ^ p" and finite: "e \<noteq> special" and sign: "s = 0 \<or> s = 1"
    and y: "\<bar>y\<bar> = 2 * real (float_units p e' f') / 2 ^ places"
  defines "t \<equiv> read_number (display_float p special tens places s e f)"
    and "v \<equiv> (- 1) ^ s * (2 * real (float_units p e f)) / 2 ^ places"
  shows "\<bar>t - v\<bar> \<le> \<bar>t - y\<bar> \<and> (\<bar>t - v\<bar> = \<bar>t - y\<bar> \<longrightarrow> y = v \<or> even f)"
proof (cases "e = 0 \<and> f = 0")
  case True
  have zero: "read_number ''0'' = 0" "read_number ''-0'' = 0"
    by (simp_all add: read_number_def undecimal_def digit_value_def)
  have "t = 0 \<and> v = 0"
    using True finite zero sign by (auto simp: t_def v_def display_float_def float_units_def)
  then show ?thesis using True by simp
next
  case False
  then have pos: "e \<noteq> 0 \<or> f \<noteq> 0" by simp
  let ?d = "rounding_of p e f"
  obtain D a b where found: "shortest_from ?d (2 ^ places) (positions tens places) = Some (D, a, b)"
    using shortest_exists [OF rounding_fields(3)] by (metis prod.exhaust)
  obtain before after where "positions tens places = before @ (a, b) # after"
    and at: "shortest_at ?d (2 ^ places) (a, b) = Some D"
    using shortest_from_Some [OF found] by blast
  then have shape: "a = 0 \<or> b = 0" by (intro positions_shape [of a b tens places]) simp
  let ?n = "digits_value (D, a, b)" and ?v = "2 * real (float_units p e f) / 2 ^ places"
  have signed: "t = (- 1) ^ s * ?n" "v = (- 1) ^ s * ?v"
    using sign finite pos read_number_plain [OF shape, of D]
    by (auto simp: t_def v_def display_float_def found)
  have reach: "reaches ?d (2 ^ places) (a, b) D" by (rule shortest_at_reaches [OF _ at]) simp
  have near: "\<bar>?n - ?v\<bar> \<le> \<bar>?n - x\<bar> \<and> (\<bar>?n - ?v\<bar> = \<bar>?n - x\<bar> \<longrightarrow> x = ?v \<or> even f)"
    if "\<bar>x\<bar> = 2 * real (float_units p e' f') / 2 ^ places" for x
    using rounding_nearest [OF _ fracs pos reach, of x e'] that by simp
  from sign show ?thesis
  proof
    assume "s = 0"
    then show ?thesis using near [OF y] signed by simp
  next
    assume "s = 1"
    moreover have "\<bar>- ?n - u\<bar> = \<bar>?n + u\<bar>" for u by (simp add: abs_if)
    ultimately show ?thesis using near [of "- y"] y signed by auto
  qed
qed

lemma f64_value_units:
  "f64_value w = (- 1) ^ f64_sign w * (2 * real (float_units 52 (f64_exponent w) (f64_fraction w))) / 2 ^ 1076"
  "\<bar>f64_value w\<bar> = 2 * real (float_units 52 (f64_exponent w) (f64_fraction w)) / 2 ^ 1076"
proof -
  have "(2::real) ^ 1076 = 2 * 2 ^ 1075" by (simp flip: power_Suc)
  moreover have "f64_units w = float_units 52 (f64_exponent w) (f64_fraction w)"
    by (simp add: f64_units_def float_units_def)
  ultimately show "f64_value w = (- 1) ^ f64_sign w * (2 * real (float_units 52 (f64_exponent w) (f64_fraction w))) / 2 ^ 1076"
    "\<bar>f64_value w\<bar> = 2 * real (float_units 52 (f64_exponent w) (f64_fraction w)) / 2 ^ 1076"
    unfolding f64_value_def by (simp_all add: abs_mult power_abs)
qed

lemma f32_value_units:
  "f32_value w = (- 1) ^ f32_sign w * (2 * real (float_units 23 (f32_exponent w) (f32_fraction w))) / 2 ^ 151"
  "\<bar>f32_value w\<bar> = 2 * real (float_units 23 (f32_exponent w) (f32_fraction w)) / 2 ^ 151"
proof -
  have "(2::real) ^ 151 = 2 * 2 ^ 150" by (simp flip: power_Suc)
  moreover have "f32_units w = float_units 23 (f32_exponent w) (f32_fraction w)"
    by (simp add: f32_units_def float_units_def)
  ultimately show "f32_value w = (- 1) ^ f32_sign w * (2 * real (float_units 23 (f32_exponent w) (f32_fraction w))) / 2 ^ 151"
    "\<bar>f32_value w\<bar> = 2 * real (float_units 23 (f32_exponent w) (f32_fraction w)) / 2 ^ 151"
    unfolding f32_value_def by (simp_all add: abs_mult power_abs)
qed



section \<open>No two floats have one text\<close>

lemma float_units_inject:
  assumes "f < 2 ^ p" and "f' < 2 ^ p" and "float_units p e f = float_units p e' f'"
  shows "e = e' \<and> f = f'"
proof -
  have base: "2 ^ p * 2 ^ e \<le> float_units p e f" if "e \<noteq> 0" for e f
    using that by (simp add: float_units_def)
  have less: False if "e < e'" "f < 2 ^ p" "float_units p e f = float_units p e' f'" for e f e' f'
  proof -
    have "float_units p e' f' + 2 ^ (e' - 1) \<le> float_units p e' f'"
      using order_trans [OF float_units_smaller [OF that(1,2)] base [of e' f']] that(1,3) by simp
    then show False by simp
  qed
  have "\<not> e' < e" using less [OF _ assms(2) assms(3) [symmetric]] by blast
  moreover have "\<not> e < e'" using less [OF _ assms(1,3)] by blast
  ultimately have "e = e'" by simp
  with assms(3) show ?thesis by (auto simp: float_units_def split: if_splits)
qed

text \<open>The next float after one with an even fraction has an odd one.\<close>

lemma next_float_odd:
  assumes p: "0 < p" and fracs: "f < 2 ^ p" "f' < 2 ^ p" and even: "even f"
    and after: "float_units p e' f' = float_units p e f + plus_by (rounding_of p e f)"
  shows "odd f'"
proof -
  have small: "f + 1 < 2 ^ p"
  proof -
    have "even ((2::nat) ^ p)" using p by simp
    then have "f + 1 \<noteq> 2 ^ p" using even by (metis even_plus_one_iff)
    with fracs(1) show ?thesis by simp
  qed
  have "float_units p e (f + 1) = float_units p e f + plus_by (rounding_of p e f)"
    by (simp add: float_units_def rounding_of_def Let_def)
  then have "float_units p e' f' = float_units p e (f + 1)" using after by simp
  then have "f' = f + 1" using float_units_inject [OF fracs(2) small] by blast
  with even show ?thesis by simp
qed

lemma no_even_pair:
  assumes p: "0 < p" and fracs: "f < 2 ^ p" "f' < 2 ^ p" and evens: "even f" "even f'"
    and "float_units p e f < float_units p e' f'"
    and "float_units p e' f' \<le> float_units p e f + plus_by (rounding_of p e f)"
  shows False
proof -
  have "float_units p e' f' = float_units p e f + plus_by (rounding_of p e f)"
    using neighbours [OF fracs, of e' e] assms(6,7) by (auto simp: rounding_fields)
  with next_float_odd [OF p fracs evens(1)] evens(2) show False by blast
qed

lemma digits_tell:
  assumes scale: "0 < scale" and p: "0 < p" and fracs: "f < 2 ^ p" "f' < 2 ^ p"
    and pos: "e \<noteq> 0 \<or> f \<noteq> 0" "e' \<noteq> 0 \<or> f' \<noteq> 0"
    and reach: "reaches (rounding_of p e f) scale place D" "reaches (rounding_of p e' f') scale place' D'"
    and same: "digits_value (D, place) = digits_value (D', place')"
  shows "e = e' \<and> f = f'"
proof (rule ccontr)
  assume differ: "\<not> (e = e' \<and> f = f')"
  define t where "t = digits_value (D, place)"
  define v where "v = 2 * real (float_units p e f) / real scale"
  define y where "y = 2 * real (float_units p e' f') / real scale"
  have size: "\<bar>v\<bar> = 2 * real (float_units p e f) / real scale" "\<bar>y\<bar> = 2 * real (float_units p e' f') / real scale"
    by (simp_all add: v_def y_def)
  have "v \<noteq> y" using differ float_units_inject [OF fracs] scale by (auto simp: v_def y_def)
  note apart = \<open>v \<noteq> y\<close>
  have "\<bar>t - v\<bar> \<le> \<bar>t - y\<bar> \<and> (\<bar>t - v\<bar> = \<bar>t - y\<bar> \<longrightarrow> y = v \<or> even f)"
    using rounding_nearest [OF scale fracs pos(1) reach(1) size(2)] by (simp add: t_def v_def)
  moreover have "\<bar>t - y\<bar> \<le> \<bar>t - v\<bar> \<and> (\<bar>t - y\<bar> = \<bar>t - v\<bar> \<longrightarrow> v = y \<or> even f')"
    using rounding_nearest [OF scale fracs(2) fracs(1) pos(2) reach(2) size(1)] same by (simp add: t_def y_def)
  ultimately have mid: "\<bar>t - v\<bar> = \<bar>t - y\<bar>" and evens: "even f" "even f'" using apart by auto
  have gap: False
    if "v < y" "\<bar>t - v\<bar> = \<bar>t - y\<bar>" "even f" "even f'" "f < 2 ^ p" "f' < 2 ^ p"
      "reaches (rounding_of p e f) scale place D" "t = digits_value (D, place)"
      "v = 2 * real (float_units p e f) / real scale" "y = 2 * real (float_units p e' f') / real scale"
    for v y :: real and e f e' f' place D
  proof -
    have "t - v \<le> real (plus_by (rounding_of p e f)) / real scale"
      using reaches_value [OF scale that(7)] that(1,2)
      by (simp add: rounding_fields that(8) [symmetric] that(9) [symmetric]) (auto simp: abs_if split: if_splits)
    then have "y - v \<le> 2 * (real (plus_by (rounding_of p e f)) / real scale)"
      using that(1,2) by (auto simp: abs_if split: if_splits)
    then have "real (float_units p e' f') \<le> real (float_units p e f) + real (plus_by (rounding_of p e f))"
      using scale unfolding that(9,10)
      by (simp flip: diff_divide_distrib add: divide_le_cancel)
    then have "float_units p e' f' \<le> float_units p e f + plus_by (rounding_of p e f)"
      by (simp flip: of_nat_add)
    moreover have "float_units p e f < float_units p e' f'"
      using that(1) scale unfolding that(9,10) by (simp add: divide_less_cancel)
    ultimately show False using no_even_pair [OF p that(5,6,3,4)] by blast
  qed
  show False
  proof (cases "v < y")
    case True
    then show False
      using mid evens fracs reach(1) t_def v_def y_def by (rule gap)
  next
    case False
    then have "y < v" using \<open>v \<noteq> y\<close> by simp
    then show False
      using mid [symmetric] evens(2,1) fracs(2,1) reach(2) t_def [unfolded same] y_def v_def by (rule gap)
  qed
qed


lemma digits_positive:
  assumes "0 < scale" and "e \<noteq> 0 \<or> f \<noteq> 0" and "reaches (rounding_of p e f) scale place D"
  shows "0 < digits_value (D, place)"
proof -
  define lo where "lo = real (minus_by (rounding_of p e f)) / real scale"
  define v where "v = real (mant (rounding_of p e f)) / real scale"
  have "0 < lo" using assms(1) by (simp add: lo_def rounding_fields)
  moreover have "2 * lo \<le> v"
  proof -
    have "real (2 * minus_by (rounding_of p e f)) / real scale \<le> v"
      unfolding v_def by (intro divide_right_mono of_nat_mono minus_by_half [OF assms(2)]) simp
    then show ?thesis by (simp add: lo_def)
  qed
  moreover have "v - lo \<le> digits_value (D, place)"
    using reaches_value [OF assms(1,3)] \<open>0 < lo\<close> unfolding v_def [symmetric] lo_def [symmetric]
    by (auto simp del: of_nat_eq_0_iff)
  ultimately show ?thesis by linarith
qed

text \<open>What stands behind the sign.\<close>

definition float_body :: "nat \<Rightarrow> nat \<Rightarrow> nat \<Rightarrow> nat \<Rightarrow> nat \<Rightarrow> nat \<Rightarrow> string" where
  "float_body p special tens places e f =
     (if e = special then ''inf''
      else if e = 0 \<and> f = 0 then ''0''
      else case shortest_from (rounding_of p e f) (2 ^ places) (positions tens places) of
             Some digits \<Rightarrow> plain_decimal digits
           | None \<Rightarrow> [])"

lemma display_float_body:
  "\<not> (e = special \<and> f \<noteq> 0) \<Longrightarrow> display_float p special tens places s e f =
     (if s = 1 then ''-'' else []) @ float_body p special tens places e f"
  by (simp add: display_float_def float_body_def)

lemma float_body_digits:
  assumes "e \<noteq> special" and "e \<noteq> 0 \<or> f \<noteq> 0"
  obtains D a b where "float_body p special tens places e f = plain_decimal (D, a, b)"
    "a = 0 \<or> b = 0" "reaches (rounding_of p e f) (2 ^ places) (a, b) D"
    "read_number (float_body p special tens places e f) = digits_value (D, a, b)"
    "0 < digits_value (D, a, b)"
proof -
  obtain D a b where found: "shortest_from (rounding_of p e f) (2 ^ places) (positions tens places) = Some (D, a, b)"
    using shortest_exists [OF rounding_fields(3)] by (metis prod.exhaust)
  obtain before after where "positions tens places = before @ (a, b) # after"
    and at: "shortest_at (rounding_of p e f) (2 ^ places) (a, b) = Some D"
    using shortest_from_Some [OF found] by blast
  then have shape: "a = 0 \<or> b = 0" by (intro positions_shape [of a b tens places]) simp
  have reach: "reaches (rounding_of p e f) (2 ^ places) (a, b) D" by (rule shortest_at_reaches [OF _ at]) simp
  have "float_body p special tens places e f = plain_decimal (D, a, b)"
    using assms by (auto simp: float_body_def found)
  moreover from this have "read_number (float_body p special tens places e f) = digits_value (D, a, b)"
    using read_number_plain(1) [OF shape] by simp
  moreover have "0 < digits_value (D, a, b)" by (rule digits_positive [OF _ assms(2) reach]) simp
  ultimately show thesis using that shape reach by blast
qed

lemma float_body_head: "\<exists>c cs. float_body p special tens places e f = c # cs \<and> c \<noteq> CHR ''-''"
proof (cases "e \<noteq> special \<and> (e \<noteq> 0 \<or> f \<noteq> 0)")
  case True
  then obtain D a b where "float_body p special tens places e f = plain_decimal (D, a, b)"
    using float_body_digits by metis
  with plain_decimal_head show ?thesis by simp
next
  case False
  then show ?thesis by (auto simp: float_body_def)
qed

lemma plain_decimal_first: "plain_decimal digits \<noteq> CHR ''i'' # s"
proof -
  obtain D a b where d: "digits = (D, a, b)" by (cases digits)
  have "decimal n @ u \<noteq> CHR ''i'' # s" for n u
    using decimal_digits [of n] by (cases "decimal n") (auto simp: is_digit_def)
  from this [of "D * 10 ^ a" "[]"] this [of "D div 10 ^ b" "''.'' @ padded b (D mod 10 ^ b)"]
  show ?thesis by (simp add: plain_decimal_def d)
qed

lemma float_body_inject:
  assumes p: "0 < p" and fracs: "f < 2 ^ p" "f' < 2 ^ p"
    and numbers: "\<not> (e = special \<and> f \<noteq> 0)" "\<not> (e' = special \<and> f' \<noteq> 0)"
    and same: "float_body p special tens places e f = float_body p special tens places e' f'"
  shows "e = e' \<and> f = f'"
proof -
  have zero: "read_number ''0'' = 0"
    by (simp add: read_number_def undecimal_def digit_value_def)
  have other: False
    if "e \<noteq> special" "e \<noteq> 0 \<or> f \<noteq> 0" "\<not> (e' = special \<and> f' \<noteq> 0)" "\<not> (e' \<noteq> special \<and> (e' \<noteq> 0 \<or> f' \<noteq> 0))"
      "float_body p special tens places e f = float_body p special tens places e' f'" for e f e' f'
  proof -
    note finite = that(1,2)
    obtain D a b where body: "float_body p special tens places e f = plain_decimal (D, a, b)"
      "read_number (float_body p special tens places e f) = digits_value (D, a, b)"
      "0 < digits_value (D, a, b)"
      using float_body_digits [OF finite] by metis
    show False
    proof (cases "e' = special")
      case True
      then have "float_body p special tens places e' f' = ''inf''" by (simp add: float_body_def)
      then have "plain_decimal (D, a, b) = ''inf''" using that(5) body(1) by simp
      then show False using plain_decimal_first by simp
    next
      case False
      with that(4,5) body(2,3) zero show False by (auto simp: float_body_def)
    qed
  qed
  consider (both) "e \<noteq> special \<and> (e \<noteq> 0 \<or> f \<noteq> 0)" "e' \<noteq> special \<and> (e' \<noteq> 0 \<or> f' \<noteq> 0)"
    | (none) "\<not> (e \<noteq> special \<and> (e \<noteq> 0 \<or> f \<noteq> 0))" "\<not> (e' \<noteq> special \<and> (e' \<noteq> 0 \<or> f' \<noteq> 0))"
    using other [of e f e' f'] other [of e' f' e f] numbers same by argo
  then show ?thesis
  proof cases
    case both
    obtain D a b where one: "reaches (rounding_of p e f) (2 ^ places) (a, b) D"
      "read_number (float_body p special tens places e f) = digits_value (D, a, b)"
      using float_body_digits both(1) by metis
    obtain D' a' b' where two: "reaches (rounding_of p e' f') (2 ^ places) (a', b') D'"
      "read_number (float_body p special tens places e' f') = digits_value (D', a', b')"
      using float_body_digits both(2) by metis
    show ?thesis
      by (rule digits_tell [OF _ p fracs _ _ one(1) two(1)]) (use both one(2) two(2) same in auto)
  next
    case none
    with numbers same show ?thesis by (auto simp: float_body_def split: if_splits)
  qed
qed

lemma display_float_inject:
  assumes "0 < p" and "f < 2 ^ p" "f' < 2 ^ p" and signs: "s = 0 \<or> s = 1" "s' = 0 \<or> s' = 1"
    and "\<not> (e = special \<and> f \<noteq> 0)" "\<not> (e' = special \<and> f' \<noteq> 0)"
    and same: "display_float p special tens places s e f = display_float p special tens places s' e' f'"
  shows "s = s' \<and> e = e' \<and> f = f'"
proof -
  obtain c cs where one: "float_body p special tens places e f = c # cs" "c \<noteq> CHR ''-''"
    using float_body_head by metis
  obtain d ds where two: "float_body p special tens places e' f' = d # ds" "d \<noteq> CHR ''-''"
    using float_body_head by metis
  have "s = s' \<and> float_body p special tens places e f = float_body p special tens places e' f'"
    using same signs one two assms(6,7) by (auto simp: display_float_body split: if_splits)
  with float_body_inject [OF assms(1-3,6,7)] show ?thesis by blast
qed



section \<open>The two formats\<close>

text \<open>
  What the text needs to know of a format: its widths, how a float is made of its
  fields, and the number it stands for. \<open>special\<close> is the exponent of infinities and
  NaNs; \<open>tens\<close> and \<open>places\<close> bound the positions of the digits.
\<close>

locale float_format =
  fixes p special tens places :: nat
    and sign exponent fraction :: "'w \<Rightarrow> nat"
    and number :: "'w \<Rightarrow> real"
  assumes width: "0 < p"
    and fraction_less: "fraction w < 2 ^ p"
    and sign_cases: "sign w = 0 \<or> sign w = 1"
    and fields: "sign w = sign w' \<Longrightarrow> exponent w = exponent w' \<Longrightarrow> fraction w = fraction w' \<Longrightarrow> w = w'"
    and number: "number w =
      (- 1) ^ sign w * (2 * real (float_units p (exponent w) (fraction w))) / 2 ^ places"
begin

lemma reads_back:
  assumes "exponent w \<noteq> special"
    and "t = read_number (display_float p special tens places (sign w) (exponent w) (fraction w))"
  shows "\<bar>t - number w\<bar> \<le> \<bar>t - number y\<bar> \<and>
    (\<bar>t - number w\<bar> = \<bar>t - number y\<bar> \<longrightarrow> number y = number w \<or> even (fraction w))"
proof -
  have "\<bar>number y\<bar> = 2 * real (float_units p (exponent y) (fraction y)) / 2 ^ places"
    by (simp add: number abs_mult power_abs)
  from display_float_nearest
    [OF fraction_less [of w] fraction_less [of y] assms(1) sign_cases [of w] this, of tens]
  show ?thesis unfolding assms(2) number .
qed

lemma texts_tell:
  assumes "\<not> (exponent w = special \<and> fraction w \<noteq> 0)" "\<not> (exponent w' = special \<and> fraction w' \<noteq> 0)"
  shows "display_float p special tens places (sign w) (exponent w) (fraction w) =
      display_float p special tens places (sign w') (exponent w') (fraction w') \<longleftrightarrow> w = w'"
  using display_float_inject [OF width fraction_less [of w] fraction_less [of w']
      sign_cases [of w] sign_cases [of w'] assms] fields by blast

end

interpretation f64: float_format 52 2047 309 1076 f64_sign f64_exponent f64_fraction f64_value
  by unfold_locales
     (rule f64_fraction_less f64_sign_cases f64_value_units(1) | erule (2) f64_eqI | simp)+

interpretation f32: float_format 23 255 39 151 f32_sign f32_exponent f32_fraction f32_value
  by unfold_locales
     (rule f32_fraction_less f32_sign_cases f32_value_units(1) | erule (2) f32_eqI | simp)+

definition f64_nan :: "f64 \<Rightarrow> bool" where
  "f64_nan w \<longleftrightarrow> f64_exponent w = 2047 \<and> f64_fraction w \<noteq> 0"

definition f32_nan :: "f32 \<Rightarrow> bool" where
  "f32_nan w \<longleftrightarrow> f32_exponent w = 255 \<and> f32_fraction w \<noteq> 0"


section \<open>The first digit\<close>

text \<open>No position is worth looking at while its power of ten is above the number.\<close>

lemma shortest_at_high:
  assumes "mant d + plus_by d < scale * 10 ^ a" and "minus_by d < mant d"
  shows "shortest_at d scale (a, 0) = None"
  using assms by (auto simp: shortest_at_def inside_def Let_def)

lemma shortest_from_append:
  "\<forall>q\<in>set before. shortest_at d scale q = None \<Longrightarrow>
     shortest_from d scale (before @ poss) = shortest_from d scale poss"
  by (induction before) simp_all

lemma shortest_from_units:
  assumes "mant d + plus_by d < scale * 10" and "minus_by d < mant d"
  shows "shortest_from d scale (positions tens places) =
    shortest_from d scale (map (\<lambda>b. (0, b)) [0..<Suc places])"
proof -
  have "shortest_at d scale (a, 0) = None" if "1 \<le> a" for a
  proof (rule shortest_at_high [OF _ assms(2)])
    have "(10::nat) ^ 1 \<le> 10 ^ a" using that by (intro power_increasing) simp_all
    then have "scale * 10 \<le> scale * 10 ^ a" by (intro mult_le_mono2) simp
    with assms(1) show "mant d + plus_by d < scale * 10 ^ a" by (rule less_le_trans)
  qed
  then show ?thesis unfolding positions_def by (intro shortest_from_append) auto
qed

end
