(* ===== verification/Metric_Reading.thy ===== *)
theory Metric_Reading
  imports Float_Text Payload
begin

text \<open>
  The two readers of a metric in \<open>src/payload.rs\<close>, \<open>numeric_value\<close> and
  \<open>format_value\<close>.

  The casts to \<open>f64\<close> are those of Rust: from an integer the nearest double,
  ties to the even one, and from a finite \<open>f32\<close> the same number. Rust leaves
  the bits of a NaN that is cast open, so what it gives is the parameter
  \<open>nan_of\<close>. Floats are carried by their bits, and \<open>f64_value\<close> is the number
  the bits stand for (\<open>Float_Bits\<close>). The text of a float is that of \<open>Float_Text\<close>;
  all other texts are built here.
\<close>

section \<open>Casts\<close>

fun bit_length :: "nat \<Rightarrow> nat" where
  "bit_length n = (if n = 0 then 0 else Suc (bit_length (n div 2)))"

declare bit_length.simps [simp del]

text \<open>\<open>n / 2 ^ k\<close>, rounded to the nearest number, ties to the even one.\<close>

definition round_half_even :: "nat \<Rightarrow> nat \<Rightarrow> nat" where
  "round_half_even n k =
     (let q = n div 2 ^ k; r = n mod 2 ^ k
      in if 2 * r > 2 ^ k \<or> (2 * r = 2 ^ k \<and> odd q) then q + 1 else q)"

definition significand :: "nat \<Rightarrow> nat" where
  "significand n =
     (let l = bit_length n
      in if l \<le> 53 then n * 2 ^ (53 - l) else round_half_even n (l - 53))"

text \<open>
  \<open>v as f64\<close> of an unsigned integer. The significand holds its leading bit, and
  one that rounds up to \<open>2 ^ 53\<close> carries into the exponent.
\<close>

definition uint_to_f64 :: "nat \<Rightarrow> f64" where
  "uint_to_f64 n =
     (if n = 0 then f64_bits 0 0 0
      else f64_bits 0 0 ((bit_length n + 1021) * 2 ^ 52 + significand n))"

text \<open>\<open>v as f64\<close> of an \<open>f32\<close>; a subnormal single is a normal double.\<close>

definition f32_to_f64 :: "(f32 \<Rightarrow> f64) \<Rightarrow> f32 \<Rightarrow> f64" where
  "f32_to_f64 nan_of w =
     (let s = f32_sign w; e = f32_exponent w; f = f32_fraction w
      in if e = 255 then (if f = 0 then f64_bits s 2047 0 else nan_of w)
         else if e = 0 then
           (if f = 0 then f64_bits s 0 0
            else (let l = bit_length f in f64_bits s (l + 873) (f * 2 ^ (53 - l) - 2 ^ 52)))
         else f64_bits s (e + 896) (f * 2 ^ 29))"


section \<open>The readers\<close>

definition numeric_value :: "(f32 \<Rightarrow> f64) \<Rightarrow> Metric \<Rightarrow> f64 option" where
  "numeric_value nan_of m =
     (case metric_value m of
        Some value \<Rightarrow>
          (case value of
             IntValue v \<Rightarrow> Some (uint_to_f64 (unat v))
           | LongValue v \<Rightarrow> Some (uint_to_f64 (unat v))
           | FloatValue v \<Rightarrow> Some (f32_to_f64 nan_of v)
           | DoubleValue v \<Rightarrow> Some v
           | BooleanValue v \<Rightarrow> Some (if v then f64_bits 0 1023 0 else f64_bits 0 0 0)
           | _ \<Rightarrow> None)
      | None \<Rightarrow> None)"

text \<open>\<open>{:?}\<close> of a vector of bytes.\<close>

fun separated :: "string list \<Rightarrow> string" where
  "separated [] = []"
| "separated [s] = s"
| "separated (s # t # ts) = s @ '', '' @ separated (t # ts)"

definition debug_bytes :: "u8 list \<Rightarrow> string" where
  "debug_bytes bs = ''['' @ separated (map (\<lambda>b. decimal (unat b)) bs) @ '']''"

definition format_value :: "Metric \<Rightarrow> string" where
  "format_value m =
     (case metric_value m of
        Some value \<Rightarrow>
          (case value of
             IntValue v \<Rightarrow> decimal (unat v)
           | LongValue v \<Rightarrow> decimal (unat v)
           | FloatValue v \<Rightarrow> display_f32 v
           | DoubleValue v \<Rightarrow> display_f64 v
           | BooleanValue v \<Rightarrow> (if v then ''true'' else ''false'')
           | StringValue v \<Rightarrow> CHR 0x22 # v @ [CHR 0x22]
           | BytesValue v \<Rightarrow> debug_bytes v
           | _ \<Rightarrow> ''Unknown value type'')
      | None \<Rightarrow> ''No value'')"


section \<open>Rounding\<close>

lemma bit_length_0 [simp]: "bit_length 0 = 0"
  by (simp add: bit_length.simps)

lemma bit_length_bounds: "0 < n \<Longrightarrow> 2 ^ (bit_length n - 1) \<le> n \<and> n < 2 ^ bit_length n \<and> 0 < bit_length n"
proof (induction n rule: bit_length.induct)
  case (1 n)
  show ?case
  proof (cases "n div 2 = 0")
    case True
    with 1(2) have "n = 1" by simp
    then show ?thesis by (simp add: bit_length.simps)
  next
    case False
    then have pos: "0 < n div 2" by simp
    have IH: "2 ^ (bit_length (n div 2) - 1) \<le> n div 2 \<and> n div 2 < 2 ^ bit_length (n div 2) \<and>
        0 < bit_length (n div 2)"
      using 1(2) by (intro 1(1) pos) simp
    have eq: "bit_length n = Suc (bit_length (n div 2))"
      using 1(2) by (subst bit_length.simps) simp
    obtain k where k: "bit_length (n div 2) = Suc k" using IH by (cases "bit_length (n div 2)") auto
    have "2 * 2 ^ k \<le> n" and "n < 2 * (2 * 2 ^ k)" using IH unfolding k by auto
    then show ?thesis by (simp add: eq k)
  qed
qed

lemma bit_length_le: "0 < n \<Longrightarrow> n < 2 ^ k \<Longrightarrow> bit_length n \<le> k"
  using bit_length_bounds [of n] power_less_imp_less_exp [of 2 "bit_length n - 1" k]
  by (cases "bit_length n") (auto dest: le_less_trans)

text \<open>No multiple of \<open>2 ^ k\<close> is nearer to \<open>n\<close> than the rounded one.\<close>

lemma round_half_even_nearest:
  "\<bar>int (round_half_even n k * 2 ^ k) - int n\<bar> \<le> \<bar>int (j * 2 ^ k) - int n\<bar>"
proof -
  define S where "S = int (2 ^ k)"
  define q where "q = int (n div 2 ^ k)"
  define r where "r = int (n mod 2 ^ k)"
  have S: "0 < S" by (simp add: S_def)
  have n: "int n = q * S + r"
    unfolding S_def q_def r_def by (metis div_mult_mod_eq of_nat_add of_nat_mult)
  have r: "0 \<le> r" "r < S" unfolding r_def S_def by (simp_all flip: of_nat_power)
  have low: "r \<le> \<bar>int j * S - int n\<bar>" if "int j \<le> q"
  proof -
    have "int j * S \<le> q * S" using that S by (intro mult_right_mono) simp_all
    then show ?thesis using n r by linarith
  qed
  have high: "S - r \<le> \<bar>int j * S - int n\<bar>" if "q + 1 \<le> int j"
  proof -
    have "(q + 1) * S \<le> int j * S" using that S by (intro mult_right_mono) simp_all
    then show ?thesis using n r unfolding distrib_right by linarith
  qed
  have up: "2 * r \<ge> S" if "round_half_even n k = n div 2 ^ k + 1"
    using that unfolding r_def S_def round_half_even_def Let_def
    by (auto split: if_splits simp flip: of_nat_power of_nat_mult)
  have down: "2 * r \<le> S" if "round_half_even n k = n div 2 ^ k"
    using that unfolding r_def S_def round_half_even_def Let_def
    by (auto split: if_splits simp flip: of_nat_power of_nat_mult)
  have "round_half_even n k = n div 2 ^ k + 1 \<or> round_half_even n k = n div 2 ^ k"
    by (simp add: round_half_even_def Let_def)
  then show ?thesis
  proof
    assume eq: "round_half_even n k = n div 2 ^ k + 1"
    then have "\<bar>int (round_half_even n k * 2 ^ k) - int n\<bar> = S - r"
      using r unfolding n eq q_def S_def by (simp add: algebra_simps)
    with up [OF eq] low high show ?thesis by (fastforce simp: S_def)
  next
    assume eq: "round_half_even n k = n div 2 ^ k"
    then have "\<bar>int (round_half_even n k * 2 ^ k) - int n\<bar> = r"
      using r unfolding n eq q_def S_def by (simp add: algebra_simps)
    with down [OF eq] low high show ?thesis by (fastforce simp: S_def)
  qed
qed

lemma round_half_even_bounds:
  assumes "2 ^ (m + k) \<le> n" and "n < 2 ^ Suc (m + k)"
  shows "2 ^ m \<le> round_half_even n k \<and> round_half_even n k \<le> 2 ^ Suc m"
proof -
  have "2 ^ m \<le> n div 2 ^ k"
    using assms(1) by (simp add: less_eq_div_iff_mult_less_eq power_add)
  moreover have "n div 2 ^ k < 2 ^ Suc m"
    using assms(2) by (simp add: div_less_iff_less_mult power_add)
  ultimately show ?thesis by (auto simp: round_half_even_def Let_def)
qed

lemma significand_bounds:
  assumes "0 < n"
  shows "2 ^ 52 \<le> significand n \<and> significand n \<le> 2 ^ 53"
proof (cases "bit_length n \<le> 53")
  case True
  let ?k = "53 - bit_length n"
  have "2 ^ (bit_length n - 1) * 2 ^ ?k \<le> n * 2 ^ ?k" "n * 2 ^ ?k \<le> 2 ^ bit_length n * 2 ^ ?k"
    using bit_length_bounds [OF assms] by simp_all
  moreover have "(2::nat) ^ (bit_length n - 1) * 2 ^ ?k = 2 ^ 52" "(2::nat) ^ bit_length n * 2 ^ ?k = 2 ^ 53"
    unfolding power_add [symmetric] using True bit_length_bounds [OF assms] by simp_all
  ultimately show ?thesis using True by (simp only: significand_def Let_def if_True)
next
  case False
  define k where "k = bit_length n - 53"
  have eq: "bit_length n = Suc (52 + k)" using False by (simp add: k_def)
  have "2 ^ (52 + k) \<le> n" "n < 2 ^ Suc (52 + k)"
    using bit_length_bounds [OF assms] unfolding eq diff_Suc_1 by blast+
  then have "2 ^ 52 \<le> round_half_even n k \<and> round_half_even n k \<le> 2 ^ Suc 52"
    by (rule round_half_even_bounds)
  then show ?thesis using False by (simp add: significand_def k_def)
qed


section \<open>What the casts give\<close>

lemma f64_bits_carry: "f64_bits 0 0 (e * 2 ^ 52 + f) = f64_bits 0 e f"
  by (simp only: f64_bits_def mult_0 add_0)

text \<open>The integer in units of its double: the significand times the spacing there.\<close>

lemma uint_to_f64_fields:
  assumes "0 < n" and "n < 2 ^ 64"
  shows "f64_sign (uint_to_f64 n) = 0 \<and> f64_finite (uint_to_f64 n) \<and>
    f64_units (uint_to_f64 n) = significand n * 2 ^ (bit_length n + 1022)"
proof -
  have len: "bit_length n \<le> 64" using assms by (rule bit_length_le)
  define l where "l = bit_length n"
  have eq: "uint_to_f64 n = f64_bits 0 0 ((l + 1021) * 2 ^ 52 + significand n)"
    using assms(1) by (simp only: uint_to_f64_def l_def) simp
  show ?thesis
  proof (cases "significand n < 2 ^ 53")
    case True
    define f where "f = significand n - 2 ^ 52"
    have f: "significand n = 2 ^ 52 + f" "f < 2 ^ 52"
      using True significand_bounds [OF assms(1)] by (simp_all add: f_def)
    have "(l + 1021) * 2 ^ 52 + significand n = (l + 1022) * 2 ^ 52 + f"
      by (simp add: f(1))
    then have "uint_to_f64 n = f64_bits 0 (l + 1022) f" by (simp only: eq f64_bits_carry)
    moreover have "l + 1022 < 2 ^ 11" using len by (simp add: l_def)
    ultimately show ?thesis
      using f len by (simp add: f64_units_def f64_finite_def f64_fields l_def)
  next
    case False
    then have s: "significand n = 2 ^ 53" using significand_bounds [OF assms(1)] by simp
    have "(l + 1021) * 2 ^ 52 + significand n = (l + 1023) * 2 ^ 52 + 0"
      by (simp add: s)
    then have "uint_to_f64 n = f64_bits 0 (l + 1023) 0" by (simp only: eq f64_bits_carry)
    moreover have "l + 1023 < 2 ^ 11" using len by (simp add: l_def)
    ultimately show ?thesis
      using s len by (simp add: f64_units_def f64_finite_def f64_fields l_def power_add)
  qed
qed

text \<open>The spacing of the doubles near \<open>n\<close>, in units.\<close>

definition spacing :: "nat \<Rightarrow> nat" where
  "spacing n = 2 ^ (bit_length n + 1022)"

lemma significand_nearest:
  "\<bar>int (significand n * spacing n) - int (n * 2 ^ 1075)\<bar> \<le>
     \<bar>int (j * spacing n) - int (n * 2 ^ 1075)\<bar>"
proof (cases "bit_length n \<le> 53")
  case True
  have "(2::nat) ^ (53 - bit_length n) * spacing n = 2 ^ 1075"
    unfolding spacing_def power_add [symmetric] using True by simp
  then have "significand n * spacing n = n * 2 ^ 1075"
    using True by (simp only: significand_def Let_def if_True mult.assoc)
  then show ?thesis by simp
next
  case False
  define k where "k = bit_length n - 53"
  have sp: "spacing n = 2 ^ k * 2 ^ 1075"
    unfolding spacing_def power_add [symmetric] using False by (simp add: k_def)
  have sig: "significand n = round_half_even n k" using False by (simp add: significand_def k_def)
  have scale: "int (i * spacing n) - int (n * 2 ^ 1075) = (int (i * 2 ^ k) - int n) * 2 ^ 1075" for i
    by (simp only: sp mult.assoc [symmetric] left_diff_distrib of_nat_mult of_nat_power of_nat_numeral)
  show ?thesis
    unfolding scale abs_mult sig by (rule mult_right_mono [OF round_half_even_nearest]) simp
qed

text \<open>Every double is a multiple of that spacing, or below the power of two under \<open>n\<close>.\<close>

lemma f64_units_grid:
  assumes "0 < n"
  shows "(\<exists>j. f64_units w = j * spacing n) \<or> f64_units w \<le> 2 ^ 52 * spacing n"
proof (cases "bit_length n + 1022 \<le> f64_exponent w")
  case True
  then have "f64_units w = (2 ^ 52 + f64_fraction w) * 2 ^ (f64_exponent w - (bit_length n + 1022)) *
      spacing n"
    unfolding spacing_def mult.assoc power_add [symmetric] by (simp add: f64_units_def)
  then show ?thesis by blast
next
  case False
  have frac: "f64_fraction w < 2 ^ 52" by (simp add: f64_fraction_def)
  have "f64_units w \<le> 2 ^ 53 * 2 ^ f64_exponent w"
    using frac by (auto simp: f64_units_def)
  also have "\<dots> \<le> 2 ^ 53 * 2 ^ (bit_length n + 1021)"
    by (rule mult_le_mono2, rule power_increasing) (use False in simp_all)
  also have "\<dots> = 2 ^ 52 * spacing n"
    unfolding spacing_def power_add [symmetric] by simp
  finally show ?thesis by (rule disjI2)
qed

lemma units_nearest:
  assumes "0 < n" and "n < 2 ^ 64"
  shows "\<bar>int (f64_units (uint_to_f64 n)) - int (n * 2 ^ 1075)\<bar> \<le>
    \<bar>int (f64_units w) - int (n * 2 ^ 1075)\<bar>"
proof -
  have units: "f64_units (uint_to_f64 n) = significand n * spacing n"
    using uint_to_f64_fields [OF assms] by (simp add: spacing_def)
  from f64_units_grid [OF assms(1), of w] show ?thesis
  proof
    assume "\<exists>j. f64_units w = j * spacing n"
    then show ?thesis using significand_nearest unfolding units by auto
  next
    assume below: "f64_units w \<le> 2 ^ 52 * spacing n"
    have "2 ^ 52 * spacing n = 2 ^ (bit_length n - 1) * 2 ^ 1075"
      unfolding spacing_def power_add [symmetric] using bit_length_bounds [OF assms(1)] by simp
    then have "2 ^ 52 * spacing n \<le> n * 2 ^ 1075"
      using bit_length_bounds [OF assms(1)] by simp
    then have "\<bar>int (2 ^ 52 * spacing n) - int (n * 2 ^ 1075)\<bar> \<le> \<bar>int (f64_units w) - int (n * 2 ^ 1075)\<bar>"
      using below by linarith
    with significand_nearest [of n "2 ^ 52"] show ?thesis unfolding units by (rule order_trans)
  qed
qed


section \<open>The values\<close>

lemma f64_value_distance:
  "\<bar>real (f64_units w) / 2 ^ 1075 - real n\<bar> \<le> \<bar>f64_value w - real n\<bar>"
proof -
  define x where "x = real (f64_units w) / 2 ^ 1075"
  have x: "0 \<le> x" unfolding x_def by (intro divide_nonneg_nonneg) simp_all
  from f64_sign_cases [of w] have "f64_value w = x \<or> f64_value w = - x"
  proof
    assume "f64_sign w = 0" then show ?thesis by (simp only: f64_value_def x_def power_0 mult_1 simp_thms)
  next
    assume "f64_sign w = 1"
    then show ?thesis by (simp only: f64_value_def x_def power_one_right mult_minus1 minus_divide_left simp_thms)
  qed
  then show ?thesis using x by (fold x_def) auto
qed

lemma units_distance:
  "\<bar>real u / 2 ^ 1075 - real n\<bar> = real_of_int \<bar>int u - int (n * 2 ^ 1075)\<bar> / 2 ^ 1075"
proof -
  define d :: real where "d = 2 ^ 1075"
  have d: "0 < d" by (simp only: d_def zero_less_power zero_less_numeral)
  have "real_of_int \<bar>int u - int (n * 2 ^ 1075)\<bar> = \<bar>real u - real (n * 2 ^ 1075)\<bar>"
    by (simp only: of_int_abs of_int_diff of_int_of_nat_eq)
  also have "real (n * 2 ^ 1075) = real n * d"
    by (simp only: of_nat_mult of_nat_power of_nat_numeral d_def)
  also have "real u - real n * d = (real u / d - real n) * d" using d by (simp add: field_simps)
  also have "\<bar>\<dots>\<bar> = \<bar>real u / d - real n\<bar> * d" using d by (simp add: abs_mult)
  finally show ?thesis using d by (fold d_def) simp
qed

lemma uint_to_f64_value:
  assumes "0 < n" and "n < 2 ^ 64"
  shows "f64_value (uint_to_f64 n) = real (f64_units (uint_to_f64 n)) / 2 ^ 1075"
  using uint_to_f64_fields [OF assms] by (simp only: f64_value_def power_0 mult_1)

lemma uint_to_f64_0 [simp]: "uint_to_f64 0 = f64_bits 0 0 0"
  by (simp add: uint_to_f64_def)

lemma f64_bits_zero: "f64_value (f64_bits 0 0 0) = 0" "f64_finite (f64_bits 0 0 0)"
  by (simp_all add: f64_value_def f64_units_def f64_finite_def f64_fields)

lemma uint_to_f64_nearest:
  assumes "n < 2 ^ 64"
  shows "\<bar>f64_value (uint_to_f64 n) - real n\<bar> \<le> \<bar>f64_value w - real n\<bar>"
proof (cases "n = 0")
  case True
  then show ?thesis by (simp add: f64_bits_zero)
next
  case False
  then have n: "0 < n" by simp
  have "\<bar>f64_value (uint_to_f64 n) - real n\<bar> \<le> \<bar>real (f64_units w) / 2 ^ 1075 - real n\<bar>"
    unfolding uint_to_f64_value [OF n assms] units_distance
    by (intro divide_right_mono of_int_le_iff [THEN iffD2] units_nearest n assms) simp
  then show ?thesis using f64_value_distance by (rule order_trans)
qed

lemma uint_to_f64_exact:
  assumes "n < 2 ^ 53"
  shows "f64_value (uint_to_f64 n) = real n"
proof (cases "n = 0")
  case True
  then show ?thesis by (simp add: f64_bits_zero)
next
  case False
  then have n: "0 < n" "n < 2 ^ 64" using assms by simp_all
  have len: "bit_length n \<le> 53" using n(1) assms by (rule bit_length_le)
  have "(2::nat) ^ (53 - bit_length n) * 2 ^ (bit_length n + 1022) = 2 ^ 1075"
    unfolding power_add [symmetric] using len by simp
  then have "f64_units (uint_to_f64 n) = n * 2 ^ 1075"
    using uint_to_f64_fields [OF n] len by (simp only: significand_def Let_def if_True mult.assoc)
  then show ?thesis
    unfolding uint_to_f64_value [OF n] by (simp only: of_nat_mult of_nat_power of_nat_numeral) simp
qed

lemma uint_to_f64_finite: "n < 2 ^ 64 \<Longrightarrow> f64_finite (uint_to_f64 n)"
  using uint_to_f64_fields [of n] by (cases "n = 0") (simp_all add: f64_bits_zero)

text \<open>A finite single, subnormal or not, is a double of the same value.\<close>

lemma f32_to_f64_fields:
  assumes "f32_finite w"
  shows "f64_sign (f32_to_f64 nan_of w) = f32_sign w \<and> f64_finite (f32_to_f64 nan_of w) \<and>
    f64_units (f32_to_f64 nan_of w) = f32_units w * 2 ^ 925"
proof -
  have s: "f32_sign w < 2" using f32_sign_cases [of w] by auto
  have f: "f32_fraction w < 2 ^ 23" by (simp add: f32_fraction_def)
  have e: "f32_exponent w < 255" using assms by (simp add: f32_finite_def)
  show ?thesis
  proof (cases "f32_exponent w = 0")
    case False
    define g where "g = f32_fraction w * 2 ^ 29"
    have "f32_exponent w + 896 < 2 ^ 11" "g < 2 ^ 52" using e f by (simp_all add: g_def)
    note fields = f64_fields [OF s this]
    have "(2 ^ 52 + g) * 2 ^ (f32_exponent w + 896) =
        (2 ^ 23 + f32_fraction w) * 2 ^ f32_exponent w * 2 ^ 925"
      by (simp add: power_add g_def)
    moreover have "f32_to_f64 nan_of w = f64_bits (f32_sign w) (f32_exponent w + 896) g"
      using False e by (simp add: f32_to_f64_def Let_def g_def)
    ultimately show ?thesis using False e
      by (simp add: fields f64_units_def f32_units_def f64_finite_def)
  next
    case True
    show ?thesis
    proof (cases "f32_fraction w = 0")
      case zero: True
      then show ?thesis using True s
        by (simp add: f32_to_f64_def Let_def f64_fields f64_units_def f32_units_def f64_finite_def)
    next
      case pos: False
      then have p: "0 < f32_fraction w" by simp
      define l where "l = bit_length (f32_fraction w)"
      define g where "g = f32_fraction w * 2 ^ (53 - l)"
      have len: "l \<le> 53" using bit_length_le [OF p f] by (simp add: l_def)
      then have sig: "significand (f32_fraction w) = g" by (simp add: significand_def l_def g_def)
      have "g < 2 ^ l * 2 ^ (53 - l)" using bit_length_bounds [OF p] by (simp add: l_def g_def)
      also have "(2::nat) ^ l * 2 ^ (53 - l) = 2 ^ 53"
        unfolding power_add [symmetric] using len by simp
      finally have g: "2 ^ 52 \<le> g" "g < 2 ^ 53" using significand_bounds [OF p] sig by simp_all
      have "l \<le> 23" using bit_length_le [OF p f] by (simp add: l_def)
      define h where "h = g - 2 ^ 52"
      have h: "g = 2 ^ 52 + h" "h < 2 ^ 52" using g by (simp_all add: h_def)
      have "l + 873 < 2 ^ 11" using \<open>l \<le> 23\<close> by simp
      note fields = f64_fields [OF s this h(2)]
      have "(2::nat) ^ (53 - l) * 2 ^ (l + 873) = 2 * 2 ^ 925"
        unfolding power_add [symmetric] power_Suc [symmetric] using len by simp
      then have "g * 2 ^ (l + 873) = 2 * f32_fraction w * 2 ^ 925"
        unfolding g_def mult.assoc by (simp only: mult.left_commute mult.assoc)
      moreover have "f32_to_f64 nan_of w = f64_bits (f32_sign w) (l + 873) h"
        using True pos by (simp add: f32_to_f64_def Let_def l_def g_def h_def)
      ultimately show ?thesis using True h(1) \<open>l \<le> 23\<close>
        by (simp add: fields f64_units_def f32_units_def f64_finite_def)
    qed
  qed
qed

lemma f32_to_f64_exact:
  assumes "f32_finite w"
  shows "f64_value (f32_to_f64 nan_of w) = f32_value w"
proof -
  have "(2::real) ^ 1075 = 2 ^ 150 * 2 ^ 925" unfolding power_add [symmetric] by simp
  then show ?thesis
    unfolding f64_value_def f32_value_def
    using f32_to_f64_fields [OF assms, of nan_of]
    by (simp only: of_nat_mult of_nat_power of_nat_numeral) simp
qed


section \<open>Reading a text back\<close>

text \<open>
  What the text of a metric tells, apart from the texts of floats: the variants
  \<open>IntValue\<close> and \<open>LongValue\<close> look the same, and so do all the values
  without a text of their own.
\<close>

datatype shown =
    Shown_Number nat
  | Shown_Boolean bool
  | Shown_String string
  | Shown_Bytes "u8 list"
  | Shown_Unknown
  | Shown_Nothing

definition view :: "MetricVariant option \<Rightarrow> shown option" where
  "view value =
     (case value of
        None \<Rightarrow> Some Shown_Nothing
      | Some (IntValue v) \<Rightarrow> Some (Shown_Number (unat v))
      | Some (LongValue v) \<Rightarrow> Some (Shown_Number (unat v))
      | Some (FloatValue v) \<Rightarrow> None
      | Some (DoubleValue v) \<Rightarrow> None
      | Some (BooleanValue v) \<Rightarrow> Some (Shown_Boolean v)
      | Some (StringValue v) \<Rightarrow> Some (Shown_String v)
      | Some (BytesValue v) \<Rightarrow> Some (Shown_Bytes v)
      | Some _ \<Rightarrow> Some Shown_Unknown)"

fun shown_text :: "shown \<Rightarrow> string" where
  "shown_text (Shown_Number n) = decimal n"
| "shown_text (Shown_Boolean b) = (if b then ''true'' else ''false'')"
| "shown_text (Shown_String s) = CHR 0x22 # s @ [CHR 0x22]"
| "shown_text (Shown_Bytes bs) = debug_bytes bs"
| "shown_text Shown_Unknown = ''Unknown value type''"
| "shown_text Shown_Nothing = ''No value''"

definition read_bytes :: "string \<Rightarrow> u8 list" where
  "read_bytes s =
     (if s = [] then []
      else map (\<lambda>p. word_of_nat (undecimal (filter is_digit p))) (split_on CHR '','' s))"

definition read_shown :: "string \<Rightarrow> shown option" where
  "read_shown s =
     (if s = ''No value'' then Some Shown_Nothing
      else if s = ''Unknown value type'' then Some Shown_Unknown
      else if s = ''true'' then Some (Shown_Boolean True)
      else if s = ''false'' then Some (Shown_Boolean False)
      else case s of
        [] \<Rightarrow> None
      | c # cs \<Rightarrow>
          if c = CHR 0x22 then Some (Shown_String (butlast cs))
          else if c = CHR ''['' then Some (Shown_Bytes (read_bytes (butlast cs)))
          else Some (Shown_Number (undecimal s)))"

lemma format_value_shown:
  "view (metric_value m) = Some x \<Longrightarrow> format_value m = shown_text x"
  by (auto simp: view_def format_value_def split: option.splits MetricVariant.splits)

lemma comma_not_digit: "CHR '','' \<notin> set (decimal n)"
  using decimal_digits [of n] by (auto simp: list_all_iff is_digit_def)

lemma split_separated:
  "\<forall>s\<in>set (s # ss). CHR '','' \<notin> set s \<Longrightarrow>
     split_on CHR '','' (separated (s # ss)) = s # map ((#) CHR '' '') ss"
proof (induction ss arbitrary: s)
  case Nil
  then show ?case by (simp add: split_on_absent)
next
  case (Cons t ts)
  have "split_on CHR '','' (CHR '' '' # separated (t # ts)) = (CHR '' '' # t) # map ((#) CHR '' '') ts"
    using Cons.IH [of t] Cons.prems by simp
  then show ?case using Cons.prems by (simp add: split_on_append)
qed

lemma digits_of_decimal [simp]: "filter is_digit (decimal n) = decimal n"
  using decimal_digits [of n] by (simp add: list_all_iff)

lemma read_bytes_separated: "read_bytes (separated (map (\<lambda>b. decimal (unat b)) bs)) = bs"
proof (cases bs)
  case Nil
  then show ?thesis by (simp add: read_bytes_def)
next
  case (Cons b cs)
  have "separated (map (\<lambda>b. decimal (unat b)) (b # cs)) \<noteq> []" by (cases cs) simp_all
  moreover have "\<not> is_digit CHR '' ''" by (simp add: is_digit_def)
  ultimately show ?thesis
    using split_separated [of "decimal (unat b)" "map (\<lambda>b. decimal (unat b)) cs"]
    by (simp add: Cons read_bytes_def comma_not_digit comp_def)
qed

lemma decimal_first:
  assumes "decimal n = c # cs"
  shows "is_digit c"
  using decimal_digits [of n] assms by simp

lemma read_decimal: "read_shown (decimal n) = Some (Shown_Number n)"
proof -
  obtain c cs where c: "decimal n = c # cs" by (cases "decimal n") simp_all
  then have "is_digit c" by (rule decimal_first)
  then have "c \<notin> {CHR ''N'', CHR ''U'', CHR ''t'', CHR ''f'', CHR 0x22, CHR ''[''}"
    by (auto simp: is_digit_def)
  then have "read_shown (c # cs) = Some (Shown_Number (undecimal (c # cs)))"
    by (simp add: read_shown_def)
  then show ?thesis by (simp flip: c)
qed

interpretation shown_codec: codec shown_text read_shown "\<lambda>_. True"
proof
  fix x
  show "read_shown (shown_text x) = Some x"
    by (cases x)
       (simp_all add: read_decimal, simp_all add: read_shown_def debug_bytes_def read_bytes_separated)
qed


text \<open>
  The datatype of a metric plays no part: an Int32 metric that holds -5, in two's
  complement, reads as the unsigned number of the same bits.
\<close>

lemma negative_int_reads_large:
  "\<exists>w. numeric_value nan_of (Metric n a t (Some (code Int32)) h r u e q (Some (IntValue (- 5)))) = Some w \<and>
     f64_value w = 4294967291"
  using uint_to_f64_exact [of 4294967291] by (simp add: numeric_value_def)


section \<open>Properties\<close>

text \<open>
  C35. Metrics as numbers: an integer below \<open>2 ^ 53\<close> and a finite single read as
  the very number, any other 64-bit integer as a double that no other finite
  double comes closer to, a double as itself and a Boolean as one or zero.
  Every other value, and none, reads as no number.
\<close>

theorem numeric_value_reads:
  "(metric_value m = Some (IntValue i) \<longrightarrow>
      (\<exists>w. numeric_value nan_of m = Some w \<and> f64_value w = real (unat i))) \<and>
   (metric_value m = Some (LongValue l) \<longrightarrow>
      (\<exists>w. numeric_value nan_of m = Some w \<and> f64_finite w \<and>
        (\<forall>y. f64_finite y \<longrightarrow> \<bar>f64_value w - real (unat l)\<bar> \<le> \<bar>f64_value y - real (unat l)\<bar>) \<and>
        (unat l < 2 ^ 53 \<longrightarrow> f64_value w = real (unat l)))) \<and>
   (metric_value m = Some (FloatValue f) \<longrightarrow> f32_finite f \<longrightarrow>
      (\<exists>w. numeric_value nan_of m = Some w \<and> f64_value w = f32_value f)) \<and>
   (metric_value m = Some (DoubleValue d) \<longrightarrow> numeric_value nan_of m = Some d) \<and>
   (metric_value m = Some (BooleanValue b) \<longrightarrow>
      (\<exists>w. numeric_value nan_of m = Some w \<and> f64_value w = of_bool b)) \<and>
   (numeric_value nan_of m = None \<longleftrightarrow>
      (case metric_value m of
         Some (IntValue _) \<Rightarrow> False | Some (LongValue _) \<Rightarrow> False | Some (FloatValue _) \<Rightarrow> False
       | Some (DoubleValue _) \<Rightarrow> False | Some (BooleanValue _) \<Rightarrow> False | _ \<Rightarrow> True))"
proof -
  have "unat i < 2 ^ 32" "unat l < 2 ^ 64" by (rule order_less_le_trans [OF unsigned_less], simp)+
  then have int: "f64_value (uint_to_f64 (unat i)) = real (unat i)"
    and long: "f64_finite (uint_to_f64 (unat l))"
      "\<And>y. \<bar>f64_value (uint_to_f64 (unat l)) - real (unat l)\<bar> \<le> \<bar>f64_value y - real (unat l)\<bar>"
    by (simp_all only: uint_to_f64_finite uint_to_f64_nearest) (rule uint_to_f64_exact, simp)
  have one: "f64_value (f64_bits 0 1023 0) = 1"
    by (simp add: f64_value_def f64_units_def f64_fields)
  show ?thesis
    using int long uint_to_f64_exact [of "unat l"] f32_to_f64_exact [of f nan_of]
    by (auto simp: numeric_value_def one f64_bits_zero split: option.splits MetricVariant.splits)
qed

theorem numeric_value_reads_witness:
  "\<exists>w. numeric_value (\<lambda>_. 0) (Metric None None None None None None None None None
      (Some (FloatValue 0x40E00000))) = Some w \<and> f64_value w = 7"
proof -
  have "f32_finite 0x40E00000 \<and> f32_value 0x40E00000 = 7"
    by (simp add: f32_finite_def f32_value_def f32_units_def f32_exponent_def f32_sign_def f32_fraction_def)
  then show ?thesis
    using numeric_value_reads [where m = "Metric None None None None None None None None None
      (Some (FloatValue 0x40E00000))" and f = "0x40E00000" and nan_of = "\<lambda>_. 0"] by simp
qed

text \<open>
  C36. Metrics as text: the text of a metric that holds no float and no dataset,
  template or extension tells its value exactly, apart from the width of an integer.
  A dataset, a template and an extension all have the text \<open>Unknown value type\<close>,
  which tells them from every other value but not from each other. A string is never
  taken for a number, a Boolean, a byte string, a missing value or one of an unknown
  type, whatever it holds.
\<close>

theorem format_value_tells:
  "(view (metric_value m) = Some x \<longrightarrow>
      read_shown (format_value m) = Some x) \<and>
   (view (metric_value m) = Some x \<longrightarrow> view (metric_value m') = Some y \<longrightarrow>
      (format_value m = format_value m' \<longleftrightarrow> x = y))"
  using shown_codec.reads_render [of x] shown_codec.render_injective [of x y]
  by (auto simp: format_value_shown)

theorem format_value_tells_witness:
  "read_shown (format_value (Metric None None None None None None None None None
      (Some (StringValue ''AUTO'')))) = Some (Shown_String ''AUTO'')"
proof -
  have "view (metric_value (Metric None None None None None None None None None
      (Some (StringValue ''AUTO'')))) = Some (Shown_String ''AUTO'')"
    by (simp add: view_def)
  then show ?thesis
    using format_value_tells [of "Metric None None None None None None None None None
      (Some (StringValue ''AUTO''))" "Shown_String ''AUTO''"
      "Metric None None None None None None None None None None" Shown_Nothing] by blast
qed


text \<open>The text of the double 7.5, digit by digit.\<close>

lemma upt_two: "0 < n \<Longrightarrow> \<exists>rest. [0..<Suc n] = 0 # 1 # rest"
  by (intro exI [of _ "[2..<Suc n]"]) (simp add: upt_conv_Cons numeral_2_eq_2)

lemma rounding_of_normal:
  "0 < e \<Longrightarrow> 0 < f \<Longrightarrow> rounding_of p e f =
     \<lparr>mant = 2 * ((2 ^ p + f) * 2 ^ e), minus_by = 2 ^ e, plus_by = 2 ^ e, inclusive = even f\<rparr>"
  by (simp add: rounding_of_def float_units_def Let_def)

lemma seven_and_a_half_units:
  assumes "0 < (g :: nat)"
  shows "16888498602639360 * g div (2251799813685248 * g) = 7"
    "16888498602639360 * g mod (2251799813685248 * g) = 1125899906842624 * g"
  using assms by (simp_all add: mult_mod_left [symmetric])

lemma seven_and_a_half_tenths:
  assumes "0 < (g :: nat)"
  shows "168884986026393600 * g div (2251799813685248 * g) = 75"
    "168884986026393600 * g mod (2251799813685248 * g) = 0"
  using assms by (simp_all add: mult_mod_left [symmetric])

lemma display_seven_and_a_half: "display_f64 0x401E000000000000 = ''7.5''"
proof -
  define d where "d = rounding_of 52 1025 (2 ^ 52 - 2 ^ 49)"
  have bits: "f64_sign 0x401E000000000000 = 0" "f64_exponent 0x401E000000000000 = 1025"
    "f64_fraction 0x401E000000000000 = 2 ^ 52 - 2 ^ 49"
    by (simp_all add: f64_sign_def f64_exponent_def f64_fraction_def)
  have "shortest_from d (2 ^ 1076) (positions 309 1076) =
      shortest_from d (2 ^ 1076) (map (\<lambda>b. (0, b)) [0..<Suc 1076])"
    by (rule shortest_from_units) (simp_all add: d_def rounding_of_def float_units_def)
  also obtain rest where "[0..<Suc 1076] = 0 # 1 # rest" using upt_two [of 1076] by auto
  finally have list: "shortest_from d (2 ^ 1076) (positions 309 1076) =
      shortest_from d (2 ^ 1076) ((0, 0) # (0, 1) # map (\<lambda>b. (0, b)) rest)"
    by (simp only: list.map)
  define g :: nat where "g = 2 ^ 1025"
  have "0 < g" by (simp add: g_def)
  have scale: "(2 :: nat) ^ 1076 = 2 ^ 51 * g" by (simp only: g_def power_add [symmetric]) simp
  have d: "d = \<lparr>mant = 15 * (2 ^ 50 * g), minus_by = g, plus_by = g, inclusive = True\<rparr>"
    unfolding d_def by (subst rounding_of_normal, simp, simp) (unfold g_def [symmetric], simp)
  have units: "shortest_at d (2 ^ 1076) (0, 0) = None"
    unfolding scale d
    using \<open>0 < g\<close> by (simp add: shortest_at_def inside_def Let_def seven_and_a_half_units)
  have tenths: "shortest_at d (2 ^ 1076) (0, 1) = Some 75"
    unfolding scale d
    using \<open>0 < g\<close> by (simp add: shortest_at_def inside_def Let_def seven_and_a_half_tenths)
  have "shortest_from d (2 ^ 1076) (positions 309 1076) = Some (75, 0, 1)"
    unfolding list by (simp only: shortest_from.simps units tenths option.case)
  moreover have "plain_decimal (75, 0, 1) = ''7.5''" by code_simp
  ultimately show ?thesis
    unfolding display_f64_def display_float_def bits d_def [symmetric] by simp
qed


text \<open>
  C37. Floats as text: the text of a metric that holds a finite float is a decimal
  number to which no float of the format is nearer than the one it holds, and
  where another is as near the one it holds is the even one, so a reader that
  rounds gets the very float back. Two floats of a format that are no NaN have the
  same text only when they are the same, down to the sign of zero.
\<close>

theorem float_texts_read_back:
  "(metric_value m = Some (DoubleValue d) \<longrightarrow> f64_finite d \<longrightarrow>
      \<bar>read_number (format_value m) - f64_value d\<bar> \<le> \<bar>read_number (format_value m) - f64_value y\<bar> \<and>
      (\<bar>read_number (format_value m) - f64_value d\<bar> = \<bar>read_number (format_value m) - f64_value y\<bar> \<longrightarrow>
         f64_value y = f64_value d \<or> even (f64_fraction d))) \<and>
   (metric_value m = Some (FloatValue f) \<longrightarrow> f32_finite f \<longrightarrow>
      \<bar>read_number (format_value m) - f32_value f\<bar> \<le> \<bar>read_number (format_value m) - f32_value z\<bar> \<and>
      (\<bar>read_number (format_value m) - f32_value f\<bar> = \<bar>read_number (format_value m) - f32_value z\<bar> \<longrightarrow>
         f32_value z = f32_value f \<or> even (f32_fraction f))) \<and>
   (metric_value m = Some (DoubleValue d) \<longrightarrow> metric_value m' = Some (DoubleValue d') \<longrightarrow>
      \<not> f64_nan d \<longrightarrow> \<not> f64_nan d' \<longrightarrow> (format_value m = format_value m' \<longleftrightarrow> d = d')) \<and>
   (metric_value m = Some (FloatValue f) \<longrightarrow> metric_value m' = Some (FloatValue f') \<longrightarrow>
      \<not> f32_nan f \<longrightarrow> \<not> f32_nan f' \<longrightarrow> (format_value m = format_value m' \<longleftrightarrow> f = f'))"
proof (intro conjI impI)
  assume m: "metric_value m = Some (DoubleValue d)"
  then have shown: "format_value m = display_f64 d" by (simp add: format_value_def)
  note near = f64.reads_back [of d, OF _ refl, folded display_f64_def]
  show "\<bar>read_number (format_value m) - f64_value d\<bar> \<le> \<bar>read_number (format_value m) - f64_value y\<bar>"
    if "f64_finite d" using near that by (simp add: shown f64_finite_def)
  show "f64_value y = f64_value d \<or> even (f64_fraction d)"
    if "f64_finite d" "\<bar>read_number (format_value m) - f64_value d\<bar> = \<bar>read_number (format_value m) - f64_value y\<bar>"
    using near [of y] that by (simp add: shown f64_finite_def)
  show "format_value m = format_value m' \<longleftrightarrow> d = d'"
    if "metric_value m' = Some (DoubleValue d')" "\<not> f64_nan d" "\<not> f64_nan d'"
    using f64.texts_tell [of d d', folded display_f64_def] that
    by (simp add: shown f64_nan_def) (simp add: format_value_def)
next
  assume m: "metric_value m = Some (FloatValue f)"
  then have shown: "format_value m = display_f32 f" by (simp add: format_value_def)
  note near = f32.reads_back [of f, OF _ refl, folded display_f32_def]
  show "\<bar>read_number (format_value m) - f32_value f\<bar> \<le> \<bar>read_number (format_value m) - f32_value z\<bar>"
    if "f32_finite f" using near that by (simp add: shown f32_finite_def)
  show "f32_value z = f32_value f \<or> even (f32_fraction f)"
    if "f32_finite f" "\<bar>read_number (format_value m) - f32_value f\<bar> = \<bar>read_number (format_value m) - f32_value z\<bar>"
    using near [of z] that by (simp add: shown f32_finite_def)
  show "format_value m = format_value m' \<longleftrightarrow> f = f'"
    if "metric_value m' = Some (FloatValue f')" "\<not> f32_nan f" "\<not> f32_nan f'"
    using f32.texts_tell [of f f', folded display_f32_def] that
    by (simp add: shown f32_nan_def) (simp add: format_value_def)
qed

text \<open>The metrics that hold 7.5 and negative zero.\<close>

theorem float_texts_read_back_witness:
  "format_value (Metric None None None None None None None None None (Some (DoubleValue 0x401E000000000000))) =
     ''7.5'' \<and>
   (\<forall>y. \<bar>read_number ''7.5'' - 15 / 2\<bar> \<le> \<bar>read_number ''7.5'' - f64_value y\<bar>) \<and>
   ''7.5'' \<noteq>
     format_value (Metric None None None None None None None None None (Some (DoubleValue 0x8000000000000000)))"
proof -
  let ?m = "Metric None None None None None None None None None (Some (DoubleValue 0x401E000000000000))"
  let ?z = "Metric None None None None None None None None None (Some (DoubleValue 0x8000000000000000))"
  have shown: "format_value ?m = ''7.5''" by (simp add: format_value_def display_seven_and_a_half)
  have number: "f64_value 0x401E000000000000 = 15 / 2"
    by (simp add: f64_value_def f64_units_def f64_exponent_def f64_sign_def f64_fraction_def)
  have "f64_finite 0x401E000000000000 \<and> \<not> f64_nan 0x401E000000000000 \<and> \<not> f64_nan 0x8000000000000000"
    by (simp add: f64_finite_def f64_exponent_def f64_fraction_def f64_nan_def)
  then show ?thesis
    using float_texts_read_back [where m = ?m and d = "0x401E000000000000" and m' = ?z and
        d' = "0x8000000000000000"] shown by (simp add: number)
qed

end
