(* ===== verification/Error_Text.thy ===== *)
theory Error_Text
  imports Types "HOL-Library.Sublist"
begin

text \<open>
  The texts of \<open>src/error.rs\<close>: what \<open>Display\<close> writes for each variant of
  \<open>SparkplugError\<close>, from the \<open>#[error]\<close> attribute of the variant. The text of an
  error of another crate is the parameter \<open>show_foreign\<close>. A duration goes out in
  its debug form, in the largest unit that gives a whole part, with the digits of
  the fraction it needs.
\<close>

section \<open>Durations\<close>

text \<open>The first \<open>w\<close> decimal places of \<open>f / 10 ^ w\<close>, without the zeros at the end.\<close>

fun fraction_digits :: "nat \<Rightarrow> nat \<Rightarrow> string" where
  "fraction_digits 0 f = []"
| "fraction_digits (Suc w) f =
     (if f = 0 then []
      else decimal_digit (f div 10 ^ w) # fraction_digits w (f mod 10 ^ w))"

definition decimal_fraction :: "nat \<Rightarrow> nat \<Rightarrow> nat \<Rightarrow> string" where
  "decimal_fraction whole w f =
     decimal whole @ (if f = 0 then [] else CHR ''.'' # fraction_digits w f)"

definition debug_duration :: "duration \<Rightarrow> string" where
  "debug_duration d =
     (let secs = d div 10 ^ 9; nanos = d mod 10 ^ 9
      in if secs > 0 then decimal_fraction secs 9 nanos @ ''s''
         else if nanos \<ge> 10 ^ 6 then decimal_fraction (nanos div 10 ^ 6) 6 (nanos mod 10 ^ 6) @ ''ms''
         else if nanos \<ge> 10 ^ 3 then
           decimal_fraction (nanos div 10 ^ 3) 3 (nanos mod 10 ^ 3) @ [CHR 0xC2, CHR 0xB5, CHR ''s'']
         else decimal_fraction nanos 0 0 @ ''ns'')"


section \<open>The text of an error\<close>

fun error_text :: "('x \<Rightarrow> string) \<Rightarrow> 'x SparkplugError \<Rightarrow> string" where
  "error_text show_foreign (Connection s) = ''connection failed: '' @ s"
| "error_text show_foreign (ConnectionTimeout d) = ''connection timed out after '' @ debug_duration d"
| "error_text show_foreign (Publish e) = ''publish failed: '' @ show_foreign e"
| "error_text show_foreign (Encode e) = ''payload encode failed: '' @ show_foreign e"
| "error_text show_foreign (Decode e) = ''payload decode failed: '' @ show_foreign e"
| "error_text show_foreign (InvalidTopic s) = ''invalid topic format: '' @ s"
| "error_text show_foreign (UnknownMessageType s) = ''unknown message type: '' @ s"
| "error_text show_foreign (InvalidNamespace s) = ''invalid namespace: '' @ s"
| "error_text show_foreign (WrongTopicShape topic mt) =
     ''topic '' @ topic @ '' has the wrong shape for a '' @ as_str mt @ '' message''"
| "error_text show_foreign (PublishLost n) =
     decimal (unat n) @ '' publish(es) were discarded when the MQTT connection dropped''"
| "error_text show_foreign (Disconnect e) = ''disconnect request failed: '' @ show_foreign e"
| "error_text show_foreign (ShutdownTimeout d) =
     ''shutdown could not confirm the DISCONNECT packet within '' @ debug_duration d"
| "error_text show_foreign NotAnEdgeNode =
     ''this client connected as a publisher, so it owns no edge node to announce''"
| "error_text show_foreign (FlushTimeout d n) =
     ''flush timed out after '' @ debug_duration d @ '' with '' @ decimal (unat n) @
     '' publish(es) unacknowledged''"


section \<open>Reading a text back\<close>

text \<open>
  The value of a decimal fraction, in units of \<open>10 ^ -w\<close>: the digits it has, and
  zeros for the places it leaves out.
\<close>

definition fraction_value :: "nat \<Rightarrow> string \<Rightarrow> nat" where
  "fraction_value w s = undecimal s * 10 ^ (w - length s)"

lemma undecimal_Nil [simp]: "undecimal [] = 0"
  by (simp add: undecimal_def)

lemma undecimal_append:
  "undecimal (s @ [c]) = 10 * undecimal s + digit_value c"
  by (simp add: undecimal_def)

lemma foldl_digits:
  "foldl (\<lambda>n c. 10 * n + digit_value c) k s = k * 10 ^ length s + undecimal s"
proof (induction s arbitrary: k rule: rev_induct)
  case Nil
  then show ?case by simp
next
  case (snoc c s)
  then show ?case by (simp add: undecimal_append)
qed

lemma undecimal_Cons: "undecimal (c # s) = digit_value c * 10 ^ length s + undecimal s"
  using foldl_digits [of "digit_value c" s] by (simp add: undecimal_def)

lemma length_fraction_digits: "length (fraction_digits w f) \<le> w"
  by (induction w f rule: fraction_digits.induct) simp_all

lemma fraction_digits_digits:
  "f < 10 ^ w \<Longrightarrow> list_all is_digit (fraction_digits w f)"
proof (induction w f rule: fraction_digits.induct)
  case (2 w f)
  moreover have "f div 10 ^ w < 10" using 2(2) by (simp add: div_less_iff_less_mult mult.commute)
  ultimately show ?case by (simp add: is_digit_decimal_digit)
qed simp

lemma fraction_value_digits: "f < 10 ^ w \<Longrightarrow> fraction_value w (fraction_digits w f) = f"
proof (induction w f rule: fraction_digits.induct)
  case (1 f)
  then show ?case by (simp add: fraction_value_def)
next
  case (2 w f)
  show ?case
  proof (cases "f = 0")
    case True
    then show ?thesis by (simp add: fraction_value_def)
  next
    case False
    define s where "s = fraction_digits w (f mod 10 ^ w)"
    have len: "length s \<le> w" by (simp add: s_def length_fraction_digits)
    have "f div 10 ^ w < 10" using 2(2) by (simp add: div_less_iff_less_mult mult.commute)
    then have "undecimal (decimal_digit (f div 10 ^ w) # s) =
        (f div 10 ^ w) * 10 ^ length s + undecimal s"
      by (simp add: undecimal_Cons)
    moreover have "undecimal s * 10 ^ (w - length s) = f mod 10 ^ w"
      using 2(1) False by (simp add: fraction_value_def s_def)
    moreover have "(10::nat) ^ length s * 10 ^ (w - length s) = 10 ^ w"
      unfolding power_add [symmetric] using len by simp
    ultimately have "undecimal (decimal_digit (f div 10 ^ w) # s) * 10 ^ (w - length s) = f"
      by (simp only: distrib_right mult.assoc div_mult_mod_eq)
    with False show ?thesis by (simp add: fraction_value_def s_def)
  qed
qed


text \<open>A duration from its text: the whole part, the places after the point, and the unit.\<close>

definition unit_places :: "string \<Rightarrow> nat" where
  "unit_places u = (if u = ''s'' then 9 else if u = ''ms'' then 6 else if u = ''ns'' then 0 else 3)"

definition read_duration :: "string \<Rightarrow> duration" where
  "read_duration s =
     (let whole = takeWhile is_digit s; rest = dropWhile is_digit s;
          point = (rest \<noteq> [] \<and> hd rest = CHR ''.'');
          places = (if point then takeWhile is_digit (tl rest) else []);
          w = unit_places (if point then dropWhile is_digit (tl rest) else rest)
      in undecimal whole * 10 ^ w + fraction_value w places)"

lemma digits_then:
  assumes "list_all is_digit ds" and "\<not> is_digit c"
  shows "takeWhile is_digit (ds @ c # cs) = ds" "dropWhile is_digit (ds @ c # cs) = c # cs"
  using assms by (simp_all add: list_all_iff takeWhile_append dropWhile_append)

lemma not_digits [simp]:
  "\<not> is_digit CHR ''.''" "\<not> is_digit CHR ''s''" "\<not> is_digit CHR ''m''" "\<not> is_digit CHR ''n''"
  "\<not> is_digit CHR 0xC2" "\<not> is_digit CHR '' ''"
  by (simp_all add: is_digit_def)

lemma read_duration_fraction:
  assumes "f < 10 ^ w" and "unit_places (c # cs) = w" and "\<not> is_digit c" and "c \<noteq> CHR ''.''"
  shows "read_duration (decimal_fraction n w f @ c # cs) = n * 10 ^ w + f"
proof (cases "f = 0")
  case True
  then show ?thesis using assms(2-4)
    by (simp add: read_duration_def decimal_fraction_def digits_then [OF decimal_digits]
        fraction_value_def Let_def)
next
  case False
  have "decimal_fraction n w f @ c # cs = decimal n @ CHR ''.'' # fraction_digits w f @ c # cs"
    using False by (simp add: decimal_fraction_def)
  then show ?thesis using assms
    by (simp add: read_duration_def digits_then [OF decimal_digits]
        digits_then [OF fraction_digits_digits [OF assms(1)]] fraction_value_digits Let_def)
qed

lemma read_debug_duration: "read_duration (debug_duration d) = d"
proof -
  have whole: "d div 10 ^ 9 * 10 ^ 9 + d mod 10 ^ 9 = d" for d :: nat by (rule div_mult_mod_eq)
  show ?thesis
  proof (cases "d div 10 ^ 9 > 0")
    case True
    then have "debug_duration d = decimal_fraction (d div 10 ^ 9) 9 (d mod 10 ^ 9) @ ''s''"
      by (simp add: debug_duration_def Let_def)
    then show ?thesis by (simp add: read_duration_fraction unit_places_def)
  next
    case False
    then have small: "d mod 10 ^ 9 = d" by simp
    consider (ms) "d \<ge> 10 ^ 6" | (us) "d < 10 ^ 6" "d \<ge> 10 ^ 3" | (ns) "d < 10 ^ 3" by linarith
    then show ?thesis
    proof cases
      case ms
      then have "debug_duration d = decimal_fraction (d div 10 ^ 6) 6 (d mod 10 ^ 6) @ ''ms''"
        using False small by (simp only: debug_duration_def Let_def if_True if_False)
      then show ?thesis by (simp add: read_duration_fraction unit_places_def)
    next
      case us
      then have "debug_duration d =
          decimal_fraction (d div 10 ^ 3) 3 (d mod 10 ^ 3) @ [CHR 0xC2, CHR 0xB5, CHR ''s'']"
        using False small by (simp add: debug_duration_def Let_def)
      then show ?thesis by (simp add: read_duration_fraction unit_places_def)
    next
      case ns
      then have "debug_duration d = decimal_fraction d 0 0 @ ''ns''"
        using False small by (simp add: debug_duration_def Let_def)
      then show ?thesis by (simp add: read_duration_fraction unit_places_def)
    qed
  qed
qed

interpretation duration_codec: codec debug_duration "Some \<circ> read_duration" "\<lambda>_. True"
  by unfold_locales (simp add: read_debug_duration)

lemma debug_duration_inject [simp]: "debug_duration d = debug_duration e \<longleftrightarrow> d = e"
  using duration_codec.render_injective by blast


section \<open>Texts that differ\<close>

definition kind_prefixes :: "(string \<times> nat) list" where
  "kind_prefixes =
     [(''connection failed: '', 0), (''connection timed out '', 1), (''publish failed: '', 2),
      (''payload encode '', 3), (''payload decode '', 4), (''invalid topic '', 5),
      (''unknown '', 6), (''invalid namespace'', 7), (''topic '', 8), (''disconnect '', 10),
      (''shutdown '', 11), (''this client '', 12), (''flush '', 13)]"

definition text_kind :: "string \<Rightarrow> nat" where
  "text_kind s =
     (case find (\<lambda>(p, _). prefix p s) kind_prefixes of Some (_, k) \<Rightarrow> k | None \<Rightarrow> 9)"

fun error_kind :: "'x SparkplugError \<Rightarrow> nat" where
  "error_kind (Connection _) = 0"
| "error_kind (ConnectionTimeout _) = 1"
| "error_kind (Publish _) = 2"
| "error_kind (Encode _) = 3"
| "error_kind (Decode _) = 4"
| "error_kind (InvalidTopic _) = 5"
| "error_kind (UnknownMessageType _) = 6"
| "error_kind (InvalidNamespace _) = 7"
| "error_kind (WrongTopicShape _ _) = 8"
| "error_kind (PublishLost _) = 9"
| "error_kind (Disconnect _) = 10"
| "error_kind (ShutdownTimeout _) = 11"
| "error_kind NotAnEdgeNode = 12"
| "error_kind (FlushTimeout _ _) = 13"

lemma decimal_no_prefix:
  assumes "\<not> is_digit c"
  shows "\<not> prefix (c # p) (decimal n @ s)"
proof -
  obtain d ds where d: "decimal n = d # ds" by (cases "decimal n") simp_all
  then have "is_digit d" using decimal_digits [of n] by simp
  with assms show ?thesis by (auto simp: d)
qed

lemma text_kind_error_text: "text_kind (error_text show_foreign e) = error_kind e"
proof (cases e)
  case (PublishLost n)
  have "\<not> is_digit c" if "c \<in> set ''cpiutdsf''" for c using that by (auto simp: is_digit_def)
  then show ?thesis
    by (simp add: PublishLost text_kind_def kind_prefixes_def decimal_no_prefix is_digit_def)
qed (simp_all add: text_kind_def kind_prefixes_def)


text \<open>A text up to its first space, and one after its last.\<close>

lemma first_space:
  assumes "CHR '' '' \<notin> set s" and "CHR '' '' \<notin> set t"
    and "s @ CHR '' '' # u = t @ CHR '' '' # v"
  shows "s = t \<and> u = v"
proof -
  have "takeWhile (\<lambda>c. c \<noteq> CHR '' '') (s @ CHR '' '' # u) = s"
    "takeWhile (\<lambda>c. c \<noteq> CHR '' '') (t @ CHR '' '' # v) = t"
    using assms(1,2) by (auto simp: takeWhile_append)
  with assms(3) have "s = t" by simp
  with assms(3) show ?thesis by simp
qed

lemma last_space:
  assumes "CHR '' '' \<notin> set u" and "CHR '' '' \<notin> set v"
    and "s @ CHR '' '' # u = t @ CHR '' '' # v"
  shows "s = t \<and> u = v"
proof -
  have "rev u @ CHR '' '' # rev s = rev v @ CHR '' '' # rev t"
    using arg_cong [OF assms(3), of rev] by simp
  from first_space [OF _ _ this] assms(1,2) show ?thesis by simp
qed

lemma digits_no_space: "list_all is_digit s \<Longrightarrow> CHR '' '' \<notin> set s"
  by (auto simp: list_all_iff)

lemma fraction_no_space: "f < 10 ^ w \<Longrightarrow> CHR '' '' \<notin> set (decimal_fraction n w f)"
  using digits_no_space [OF decimal_digits] digits_no_space [OF fraction_digits_digits]
  by (auto simp: decimal_fraction_def)

lemma duration_no_space: "CHR '' '' \<notin> set (debug_duration d)"
  by (auto simp: debug_duration_def Let_def fraction_no_space)

lemma as_str_no_space: "CHR '' '' \<notin> set (as_str mt)"
  by (cases mt) simp_all

lemma wrong_shape_texts:
  assumes "topic @ '' has the wrong shape for a '' @ as_str mt @ '' message'' =
    topic' @ '' has the wrong shape for a '' @ as_str mt' @ '' message''"
  shows "topic = topic' \<and> mt = mt'"
proof -
  have "(topic @ '' has the wrong shape for a'') @ CHR '' '' # as_str mt =
      (topic' @ '' has the wrong shape for a'') @ CHR '' '' # as_str mt'"
    using assms by simp
  from last_space [OF as_str_no_space as_str_no_space this] show ?thesis by simp
qed

lemma flush_timeout_texts:
  assumes "debug_duration d @ '' with '' @ decimal n @ '' publish(es) unacknowledged'' =
    debug_duration d' @ '' with '' @ decimal n' @ '' publish(es) unacknowledged''"
  shows "d = d' \<and> n = n'"
proof -
  have "debug_duration d @ CHR '' '' # ''with '' @ decimal n @ '' publish(es) unacknowledged'' =
      debug_duration d' @ CHR '' '' # ''with '' @ decimal n' @ '' publish(es) unacknowledged''"
    using assms by simp
  from first_space [OF duration_no_space duration_no_space this] show ?thesis by simp
qed


section \<open>Properties\<close>

text \<open>
  C34. Error texts: two errors have the same text exactly when they are the same
  variant with the same fields, where a field that is an error of another crate
  counts as the text it shows: two such errors of one text are not told apart. In
  particular a duration is told to the nanosecond.
\<close>

theorem error_texts_differ:
  "error_text show_foreign e = error_text show_foreign e' \<longleftrightarrow>
     map_SparkplugError show_foreign e = map_SparkplugError show_foreign e'"
proof
  assume same: "error_text show_foreign e = error_text show_foreign e'"
  then have kind: "error_kind e = error_kind e'" by (metis text_kind_error_text)
  show "map_SparkplugError show_foreign e = map_SparkplugError show_foreign e'"
  proof (cases e)
    case (WrongTopicShape topic mt)
    with kind obtain topic' mt' where e': "e' = WrongTopicShape topic' mt'" by (cases e') simp_all
    from same WrongTopicShape e' wrong_shape_texts [of topic mt topic' mt'] show ?thesis by simp
  next
    case (FlushTimeout d n)
    with kind obtain d' n' where e': "e' = FlushTimeout d' n'" by (cases e') simp_all
    from same FlushTimeout e' flush_timeout_texts [of d "unat n" d' "unat n'"]
    have "d = d'" "unat n = unat n'" by simp_all
    then show ?thesis by (simp add: FlushTimeout e' word_unat_eq_iff)
  qed (use same kind in \<open>cases e'; simp add: word_unat_eq_iff\<close>)+
next
  have shown: "error_text id (map_SparkplugError show_foreign x) = error_text show_foreign x" for x
    by (cases x) simp_all
  assume "map_SparkplugError show_foreign e = map_SparkplugError show_foreign e'"
  then show "error_text show_foreign e = error_text show_foreign e'" by (metis shown)
qed

end
