(* ===== verification/Tls_Transport.thy ===== *)
theory Tls_Transport
  imports Errors
begin

text \<open>
  \<open>tls_transport\<close> of \<open>src/client.rs\<close>: which certificates of the system end up
  in the root store, and when there is no transport.

  The store belongs to rustls and the certificates to the system: \<open>empty_store\<close>,
  \<open>add\<close> and \<open>store_is_empty\<close> are the operations of \<open>RootCertStore\<close> the code
  calls, \<open>configured\<close> makes the transport of a store, and \<open>loaded\<close> is what
  \<open>load_native_certs\<close> gave. \<open>store_laws\<close> is what their documentation says: \<open>add\<close>
  accepts or refuses a certificate by the certificate alone, and a refusal leaves
  the store as full as it was.
\<close>

datatype ('l, 'e) tls_warning =
    LoadingError 'l
  | SkippingCertificate 'e

text \<open>The loop over the certificates: what it warns of, and the store it leaves.\<close>

fun add_certificates ::
    "('c \<Rightarrow> 's \<Rightarrow> ('e + unit) \<times> 's) \<Rightarrow> 'c list \<Rightarrow> 's \<Rightarrow> ('l, 'e) tls_warning list \<times> 's" where
  "add_certificates add [] store = ([], store)"
| "add_certificates add (c # cs) store =
     (let (answer, store1) = add c store;
          (warnings, store2) = add_certificates add cs store1
      in (case answer of
            Inl e \<Rightarrow> (SkippingCertificate e # warnings, store2)
          | Inr _ \<Rightarrow> (warnings, store2)))"

definition tls_transport ::
    "'s \<Rightarrow> ('c \<Rightarrow> 's \<Rightarrow> ('e + unit) \<times> 's) \<Rightarrow> ('s \<Rightarrow> bool) \<Rightarrow> ('s \<Rightarrow> 't) \<Rightarrow> 'c list \<times> 'l list \<Rightarrow>
     ('l, 'e) tls_warning list \<times> ('x SparkplugError + 't)" where
  "tls_transport empty_store add store_is_empty configured loaded =
     (let (certs, errors) = loaded;
          (skipped, root_store) = add_certificates add certs empty_store;
          warnings = map LoadingError errors @ skipped
      in if store_is_empty root_store
         then (warnings, Inl (Connection ''no trusted root certificates found''))
         else (warnings, Inr (configured root_store)))"

definition store_laws ::
    "'s \<Rightarrow> ('c \<Rightarrow> 's \<Rightarrow> ('e + unit) \<times> 's) \<Rightarrow> ('s \<Rightarrow> bool) \<Rightarrow> ('c \<Rightarrow> bool) \<Rightarrow> bool" where
  "store_laws empty_store add store_is_empty accepts \<longleftrightarrow>
     store_is_empty empty_store \<and>
     (\<forall>c s. accepts c \<longrightarrow> fst (add c s) = Inr () \<and> \<not> store_is_empty (snd (add c s))) \<and>
     (\<forall>c s. \<not> accepts c \<longrightarrow>
        isl (fst (add c s)) \<and>
        (store_is_empty (snd (add c s)) \<longleftrightarrow> store_is_empty s))"

lemma add_certificates_result:
  fixes add :: "'c \<Rightarrow> 's \<Rightarrow> ('e + unit) \<times> 's"
  assumes "store_laws empty_store add store_is_empty accepts"
  shows "(store_is_empty (snd (add_certificates add cs s :: ('l, 'e) tls_warning list \<times> 's)) \<longleftrightarrow>
      store_is_empty s \<and> \<not> list_ex accepts cs) \<and>
    length (fst (add_certificates add cs s :: ('l, 'e) tls_warning list \<times> 's)) =
      length (filter (\<lambda>c. \<not> accepts c) cs)"
proof (induction cs arbitrary: s)
  case Nil
  then show ?case by simp
next
  case (Cons c cs)
  show ?case
  proof (cases "accepts c")
    case True
    then have "fst (add c s) = Inr ()" "\<not> store_is_empty (snd (add c s))"
      using assms unfolding store_laws_def by blast+
    with True Cons.IH [of "snd (add c s)"] show ?thesis by (simp add: split_beta Let_def)
  next
    case False
    then have "isl (fst (add c s))" "store_is_empty (snd (add c s)) \<longleftrightarrow> store_is_empty s"
      using assms unfolding store_laws_def by blast+
    with False Cons.IH [of "snd (add c s)"] show ?thesis
      by (auto simp: split_beta Let_def split: sum.split)
  qed
qed


section \<open>Properties\<close>

text \<open>
  C38. A transport needs one trusted root: it exists exactly when the system offers
  a certificate the store accepts, however many others fail to load or are
  refused, and each of those is warned of once.
\<close>

theorem tls_needs_one_root:
  fixes add :: "'c \<Rightarrow> 's \<Rightarrow> ('e + unit) \<times> 's" and loaded :: "'c list \<times> 'l list"
  assumes "store_laws empty_store add store_is_empty accepts"
    and "tls_transport empty_store add store_is_empty configured loaded =
      (warnings, result :: 'x SparkplugError + 't)"
  shows "(if list_ex accepts (fst loaded) then \<not> isl result
      else result = Inl (Connection ''no trusted root certificates found'')) \<and>
    length warnings = length (snd loaded) + length (filter (\<lambda>c. \<not> accepts c) (fst loaded))"
proof -
  have "store_is_empty empty_store" using assms(1) by (simp add: store_laws_def)
  with add_certificates_result [OF assms(1), of "fst loaded" empty_store, where ?'l = 'l] assms(2)
  show ?thesis by (auto simp: tls_transport_def split_beta Let_def split: if_splits)
qed

theorem tls_needs_one_root_witness:
  "length (fst (tls_transport (0::nat) (\<lambda>c s. if c then (Inr (), s + 1) else (Inl (), s)) (\<lambda>s. s = 0) id
     ([False, True], [()]) :: (unit, unit) tls_warning list \<times> (unit SparkplugError + nat))) = 2"
proof -
  let ?add = "\<lambda>c (s::nat). if c then (Inr () :: unit + unit, s + 1) else (Inl (), s)"
  have laws: "store_laws 0 ?add (\<lambda>s. s = 0) id" by (simp add: store_laws_def)
  obtain warnings result where call: "tls_transport 0 ?add (\<lambda>s. s = 0) id ([False, True], [()]) =
      (warnings :: (unit, unit) tls_warning list, result :: unit SparkplugError + nat)"
    by (cases "tls_transport 0 ?add (\<lambda>s. s = 0) id ([False, True], [()]) ::
        (unit, unit) tls_warning list \<times> (unit SparkplugError + nat)")
  from tls_needs_one_root [OF laws call] call show ?thesis by simp
qed

end
