(* ===== verification/Topic_Access.thy ===== *)
theory Topic_Access
  imports Topic
begin

text \<open>
  The debug assertion of \<open>src/sparkplug/topic/ids.rs\<close>. The accessors of a topic and
  the conversion from an owned edge node skip the check that \<open>new\<close> makes:
  \<open>wrap_checked\<close> takes the text as it is, and a debug build panics if it is not a
  usable segment. Here a panic is \<open>None\<close>. The values a caller can get hold of are
  those that the public functions of the two modules give, starting from text.
\<close>

section \<open>Access that asserts\<close>

definition wrap_checked :: "(string \<Rightarrow> 'i) \<Rightarrow> string \<Rightarrow> 'i option" where
  "wrap_checked wrap v = (if is_usable_segment v then Some (wrap v) else None)"

definition group_id_checked :: "SparkplugTopic \<Rightarrow> GroupId option option" where
  "group_id_checked t =
     (case topic_address t of
        AddressNode g _ \<Rightarrow> map_option Some (wrap_checked GroupId g)
      | AddressDevice g _ _ \<Rightarrow> map_option Some (wrap_checked GroupId g)
      | AddressHost _ \<Rightarrow> Some None)"

definition node_id_checked :: "SparkplugTopic \<Rightarrow> EdgeNodeId option option" where
  "node_id_checked t =
     (case topic_address t of
        AddressNode _ n \<Rightarrow> map_option Some (wrap_checked EdgeNodeId n)
      | AddressDevice _ n _ \<Rightarrow> map_option Some (wrap_checked EdgeNodeId n)
      | AddressHost _ \<Rightarrow> Some None)"

definition device_id_checked :: "SparkplugTopic \<Rightarrow> DeviceId option option" where
  "device_id_checked t =
     (case topic_address t of
        AddressDevice _ _ d \<Rightarrow> map_option Some (wrap_checked DeviceId d)
      | _ \<Rightarrow> Some None)"

definition host_id_checked :: "SparkplugTopic \<Rightarrow> HostId option option" where
  "host_id_checked t =
     (case topic_address t of
        AddressHost h \<Rightarrow> map_option Some (wrap_checked HostId h)
      | _ \<Rightarrow> Some None)"

definition of_owned_checked :: "OwnedEdgeNode \<Rightarrow> EdgeNode option" where
  "of_owned_checked owned =
     (case (wrap_checked GroupId (owned_group owned), wrap_checked EdgeNodeId (owned_edge_node_id owned)) of
        (Some g, Some n) \<Rightarrow> Some (EdgeNode_new g n)
      | _ \<Rightarrow> None)"

lemma wrap_checked_usable [simp]: "is_usable_segment v \<Longrightarrow> wrap_checked wrap v = Some (wrap v)"
  by (simp add: wrap_checked_def)

lemma well_formed_access:
  assumes "well_formed t"
  shows "group_id_checked t = Some (group_id t)" "node_id_checked t = Some (node_id t)"
    "device_id_checked t = Some (device_id t)" "host_id_checked t = Some (host_id t)"
  using assms
  by (auto simp: well_formed_def group_id_checked_def node_id_checked_def device_id_checked_def
      host_id_checked_def group_id_def node_id_def device_id_def host_id_def split: Address.split)

lemma of_owned_access: "edge_node_usable e \<Longrightarrow> of_owned_checked (to_owned e) = Some e"
  by (cases e) (simp add: edge_node_usable_def of_owned_checked_def to_owned_def EdgeNode_new_def)

lemma well_formed_ids:
  assumes "well_formed t"
  shows "group_id t = Some g \<Longrightarrow> group_usable g" "node_id t = Some n \<Longrightarrow> node_usable n"
    "device_id t = Some d \<Longrightarrow> device_usable d" "host_id t = Some h \<Longrightarrow> host_usable h"
  using assms
  by (auto simp: well_formed_def group_id_def node_id_def device_id_def host_id_def split: Address.splits)


section \<open>What a caller can hold\<close>

text \<open>
  The closure of the public functions: each rule is one of them, and its premises
  are the arguments the caller must have first.
\<close>

inductive
    has_namespace :: "Namespace \<Rightarrow> bool" and
    has_group :: "GroupId \<Rightarrow> bool" and
    has_node :: "EdgeNodeId \<Rightarrow> bool" and
    has_device :: "DeviceId \<Rightarrow> bool" and
    has_host :: "HostId \<Rightarrow> bool" and
    has_edge_node :: "EdgeNode \<Rightarrow> bool" and
    has_topic :: "SparkplugTopic \<Rightarrow> bool"
  where
    spec: "has_namespace sparkplug_b"
  | named: "(Namespace_new v :: unit SparkplugError + _) = Inr ns \<Longrightarrow> has_namespace ns"
  | group_new: "(GroupId_new v :: unit SparkplugError + _) = Inr g \<Longrightarrow> has_group g"
  | group_of_topic: "has_topic t \<Longrightarrow> group_id_checked t = Some (Some g) \<Longrightarrow> has_group g"
  | group_of_edge_node: "has_edge_node e \<Longrightarrow> has_group (en_group e)"
  | node_new: "(EdgeNodeId_new v :: unit SparkplugError + _) = Inr n \<Longrightarrow> has_node n"
  | node_of_topic: "has_topic t \<Longrightarrow> node_id_checked t = Some (Some n) \<Longrightarrow> has_node n"
  | node_of_edge_node: "has_edge_node e \<Longrightarrow> has_node (en_edge_node_id e)"
  | device_new: "(DeviceId_new v :: unit SparkplugError + _) = Inr d \<Longrightarrow> has_device d"
  | device_of_topic: "has_topic t \<Longrightarrow> device_id_checked t = Some (Some d) \<Longrightarrow> has_device d"
  | host_new: "(HostId_new v :: unit SparkplugError + _) = Inr h \<Longrightarrow> has_host h"
  | host_of_topic: "has_topic t \<Longrightarrow> host_id_checked t = Some (Some h) \<Longrightarrow> has_host h"
  | pair: "has_group g \<Longrightarrow> has_node n \<Longrightarrow> has_edge_node (EdgeNode_new g n)"
  | connected_pair: "has_edge_node e \<Longrightarrow> of_owned_checked (to_owned e) = Some e' \<Longrightarrow> has_edge_node e'"
  | node_message: "has_namespace ns \<Longrightarrow> has_group g \<Longrightarrow> has_node n \<Longrightarrow>
      build \<in> {nbirth, ndata, ndeath, ncmd} \<Longrightarrow> has_topic (build ns g n)"
  | device_message: "has_namespace ns \<Longrightarrow> has_group g \<Longrightarrow> has_node n \<Longrightarrow> has_device d \<Longrightarrow>
      build \<in> {dbirth, ddata, ddeath, dcmd} \<Longrightarrow> has_topic (build ns g n d)"
  | host_message: "has_namespace ns \<Longrightarrow> has_host h \<Longrightarrow> has_topic (state ns h)"
  | parsed: "has_namespace ns \<Longrightarrow> (parse ns s :: unit SparkplugError + _) = Inr t \<Longrightarrow> has_topic t"

lemma held_values_checked:
  "has_namespace ns \<Longrightarrow> is_usable_segment (ns_text ns)"
  "has_group g \<Longrightarrow> group_usable g"
  "has_node n \<Longrightarrow> node_usable n"
  "has_device d \<Longrightarrow> device_usable d"
  "has_host h \<Longrightarrow> host_usable h"
  "has_edge_node e \<Longrightarrow> edge_node_usable e"
  "has_topic t \<Longrightarrow> well_formed t"
proof (induction rule: has_namespace_has_group_has_node_has_device_has_host_has_edge_node_has_topic.inducts)
  case spec
  show ?case by (simp add: sparkplug_b_def is_usable_segment_iff)
next
  case (named v ns)
  then show ?case by (auto simp: Namespace_new_def split: if_splits)
next
  case (connected_pair e e')
  then show ?case by (simp add: of_owned_access)
next
  case (node_message ns g n build)
  then show ?case by (auto simp: constructor_defs node_topic_well_formed)
next
  case (device_message ns g n d build)
  then show ?case by (auto simp: constructor_defs device_topic_well_formed)
qed (auto simp: well_formed_access well_formed_ids edge_node_usable_def EdgeNode_new_def
    intro: state_well_formed parse_sound(1))


section \<open>Properties\<close>

text \<open>
  C22. The debug assertions never fail: on every topic and every edge node a caller
  can get hold of, built by the constructors, read by the parser or taken out of
  another value, each accessor returns in a debug build too, with the identifiers
  the release build gives, and these are usable segments again.
\<close>

theorem assertions_hold:
  "(has_topic t \<longrightarrow>
      group_id_checked t = Some (group_id t) \<and> node_id_checked t = Some (node_id t) \<and>
      device_id_checked t = Some (device_id t) \<and> host_id_checked t = Some (host_id t) \<and>
      is_usable_segment (topic_namespace t) \<and> address_usable (topic_address t)) \<and>
   (has_edge_node e \<longrightarrow> of_owned_checked (to_owned e) = Some e \<and> edge_node_usable e)"
proof (intro conjI impI)
  assume t: "has_topic t"
  then have wf: "well_formed t" by (rule held_values_checked)
  show "group_id_checked t = Some (group_id t)" "node_id_checked t = Some (node_id t)"
    "device_id_checked t = Some (device_id t)" "host_id_checked t = Some (host_id t)"
    using wf by (rule well_formed_access)+
  show "is_usable_segment (topic_namespace t)" "address_usable (topic_address t)"
    using wf by (simp_all add: well_formed_def)
next
  assume "has_edge_node e"
  then show "edge_node_usable e" by (rule held_values_checked)
  then show "of_owned_checked (to_owned e) = Some e" by (rule of_owned_access)
qed

theorem assertions_hold_witness:
  "\<exists>t e. (parse sparkplug_b ''spBv1.0/Plant/DDATA/edge/pump'' :: unit SparkplugError + _) = Inr t \<and>
     device_id_checked t = Some (Some (DeviceId ''pump'')) \<and>
     e = EdgeNode_new (GroupId ''Plant'') (EdgeNodeId ''edge'') \<and> of_owned_checked (to_owned e) = Some e"
proof -
  let ?t = "ddata sparkplug_b (GroupId ''Plant'') (EdgeNodeId ''edge'') (DeviceId ''pump'')"
  let ?e = "EdgeNode_new (GroupId ''Plant'') (EdgeNodeId ''edge'')"
  have reads: "(parse sparkplug_b ''spBv1.0/Plant/DDATA/edge/pump'' :: unit SparkplugError + _) = Inr ?t"
    by code_simp
  then have "has_topic ?t" using parsed [OF spec] by blast
  moreover have "has_edge_node ?e"
    by (rule pair [OF group_new [of "''Plant''"] node_new [of "''edge''"]]) (simp_all add: is_usable_segment_iff)
  moreover have "device_id ?t = Some (DeviceId ''pump'')"
    by (simp add: ddata_def device_topic_def device_id_def)
  ultimately show ?thesis using assertions_hold [of ?t ?e] reads by auto
qed

end
