(* ===== verification/Serial_Calls.thy ===== *)
theory Serial_Calls
  imports Publish_Machine
begin

text \<open>
  Calls that interleave take effect one after the other. The serial client runs
  each publish call whole, by the functions of the theory \<open>Publish\<close>, on a client
  that no other call uses. Every run of the machine of \<open>Publish_Steps\<close> outside the
  cancellation window is followed by it: the calls in the order in which they
  ended give the same results, the same counts, and for every edge node the same
  messages. Messages of two edge nodes can cross on the wire, so the order is
  compared edge node by edge node.
\<close>

section \<open>The serial client\<close>

text \<open>
  How a call ended: it passed its gate and the client answered its messages, or
  its caller cancelled it before.
\<close>

datatype 'x ending = Ran "'x client_answer" "'x client_answer" | GaveUp

text \<open>A clock that shows the instant of a birth.\<close>

definition clock_of :: "Timestamp \<Rightarrow> int" where
  "clock_of at = uint (millis at) * 1000000"

lemma now_clock_of [simp]: "now (clock_of at) = at"
  by (cases at) (simp add: now_def clock_of_def nat_mult_distrib unat_eq_nat_uint [symmetric])

fun serial_call ::
    "(Payload \<Rightarrow> u8 list) \<Rightarrow> nat \<times> call \<times> 'x ending \<Rightarrow> client \<Rightarrow> (nat \<times> 'x outcome) \<times> client" where
  "serial_call encode (i, CallMetrics topic ms at, Ran answer1 answer2) c =
     (let (result, c') = publish_metrics_on encode i topic ms at id answer1 c in ((i, result), c'))"
| "serial_call encode (i, CallBirth device at, Ran answer1 answer2) c =
     (let (result, c') = publish_birth encode i (clock_of at) device id answer1 id answer2 c
      in ((i, result), c'))"
| "serial_call encode (i, cl, GaveUp) c = ((i, None), c)"

text \<open>The calls a task begins, is at, and has completed.\<close>

fun starts :: "nat \<Rightarrow> ('x, 'e) action \<Rightarrow> call list" where
  "starts i (Start j cl) = (if j = i then [cl] else [])"
| "starts i _ = []"

definition running :: "nat \<Rightarrow> 'x machine \<Rightarrow> call list" where
  "running i m = (case m_tasks m i of None \<Rightarrow> [] | Some t \<Rightarrow> [task_call t])"

definition logged :: "nat \<Rightarrow> nat \<times> call \<times> 'x ending \<Rightarrow> call list" where
  "logged i e = (if fst e = i then [fst (snd e)] else [])"

text \<open>The messages of one edge node.\<close>

definition request_key :: "request \<Rightarrow> string option" where
  "request_key rq = map_option fst (wire_reading (\<lambda>_. None) rq)"

definition requests_for :: "string \<Rightarrow> request list \<Rightarrow> request list" where
  "requests_for k wire = filter (\<lambda>rq. request_key rq = Some k) wire"

lemma requests_for_simps [simp]:
  "requests_for k [] = []"
  "requests_for k (w @ v) = requests_for k w @ requests_for k v"
  by (simp_all add: requests_for_def)

lemma requests_for_single:
  "requests_for k [rq] = (if request_key rq = Some k then [rq] else [])"
  by (simp add: requests_for_def)

lemma request_key_reading: "wire_reading decode rq = Some (k, x) \<Longrightarrow> request_key rq = Some k"
  by (auto simp: request_key_def wire_reading_def split: list.splits option.splits)

lemma request_key_message:
  "well_formed t \<Longrightarrow> topic_key t = Some k \<Longrightarrow> request_key (message_request c t payload) = Some k"
  using wire_reading_message by (rule request_key_reading)


section \<open>A call between its two ends\<close>

text \<open>
  A call at the client, seen from the serial client \<open>s\<close> that has yet to do it: its
  key, the number of its message, the messages the client took already, and the
  one it has.
\<close>

inductive in_progress ::
    "(Payload \<Rightarrow> u8 list) \<Rightarrow> client \<Rightarrow> call \<Rightarrow> stage \<Rightarrow> string \<Rightarrow> u8 \<Rightarrow> request list \<Rightarrow> request \<Rightarrow> bool"
  for encode s where
  Data: "topic_key topic = Some k \<Longrightarrow> n = number_for s topic k \<Longrightarrow>
    in_progress encode s (CallMetrics topic ms at) OnlyMessage k n []
      (message_request s topic (encode (create_payload ms at n)))"
| Nbirth: "edge_node s = Some en \<Longrightarrow>
    in_progress encode s (CallBirth device at) FirstBirth (birth_key en) 0 []
      (nbirth_request encode (clock_of at) s en)"
| Dbirth: "edge_node s = Some en \<Longrightarrow>
    in_progress encode s (CallBirth device at) SecondBirth (birth_key en) 1
      [nbirth_request encode (clock_of at) s en] (dbirth_request encode (clock_of at) s en device)"

lemma in_progress_cong:
  assumes "in_progress encode s cl stg k n sent rq"
    and "cl_identity s' = cl_identity s" and "cl_namespace s' = cl_namespace s"
    and "count_at (cl_seq s') k = count_at (cl_seq s) k"
  shows "in_progress encode s' cl stg k n sent rq"
proof -
  have same: "edge_node s' = edge_node s" "message_request s' = message_request s"
    using assms(2) by (simp_all add: edge_node_def message_request_def role_def fun_eq_iff)
  then have births: "nbirth_request enc clock s' = nbirth_request enc clock s"
    "dbirth_request enc clock s' = dbirth_request enc clock s" for enc clock
    by (simp_all add: nbirth_request_def dbirth_request_def fun_eq_iff assms(3))
  have number: "number_for s' topic k = number_for s topic k" for topic
    by (simp add: number_for_def assms(4))
  from assms(1) show ?thesis
  proof cases
    case (Data topic ms at)
    then show ?thesis using in_progress.Data [of topic k n s'] by (simp add: same number)
  next
    case (Nbirth en device at)
    then show ?thesis using in_progress.Nbirth [of s' en] by (simp add: same births)
  next
    case (Dbirth en device at)
    then show ?thesis using in_progress.Dbirth [of s' en] by (simp add: same births)
  qed
qed

lemma in_progress_requests:
  assumes "in_progress encode s cl stg k n sent rq" and "client_ids_ok s" and "call_ok cl"
  shows "request_key rq = Some k" "\<forall>x\<in>set sent. request_key x = Some k"
proof -
  have birth: "request_key (nbirth_request encode clock s en) = Some (birth_key en)"
    "device_usable device \<Longrightarrow> request_key (dbirth_request encode clock s en device) = Some (birth_key en)"
    if "edge_node s = Some en" for en clock device
    using that assms(2)
    by (auto simp: nbirth_request_def dbirth_request_def client_ids_ok_def edge_node_usable_def nbirth_def
        dbirth_def birth_key_def intro!: request_key_message node_topic_well_formed device_topic_well_formed)
  from assms(1,3) birth show "request_key rq = Some k" "\<forall>x\<in>set sent. request_key x = Some k"
    by (cases; auto intro: request_key_message)+
qed

text \<open>The end of a call, whole: what the serial client does in its place.\<close>

lemma serial_finishes:
  fixes answer :: "'x client_answer"
  assumes "in_progress encode s cl stg k n sent rq" and free: "holder_at (cl_seq s) k = None"
    and last: "stg = FirstBirth \<Longrightarrow> \<not> is_taken answer"
  obtains e s' where "serial_call encode (i, cl, e) s = ((i, answer_outcome answer), s')"
    "cl_wire s' = cl_wire s @ sent @ (if is_taken answer then [rq] else [])"
    "count_at (cl_seq s') = (if is_taken answer then (count_at (cl_seq s))(k := n) else count_at (cl_seq s))"
    "holder_at (cl_seq s') = holder_at (cl_seq s)"
    "cl_identity s' = cl_identity s" "cl_namespace s' = cl_namespace s"
  using assms(1)
proof cases
  case (Data topic ms at)
  obtain result s' where call: "publish_metrics_on encode i topic ms at id answer s = (result, s')"
    by (cases "publish_metrics_on encode i topic ms at id answer s")
  note effect = publish_metrics_on_free [OF \<open>topic_key topic = Some k\<close> assms(2) call]
  show thesis
    by (rule that [of "Ran answer Cancelled" s'])
       (use Data call effect publish_metrics_on_keeps [OF call] in
         \<open>auto simp: is_taken_iff split: client_answer.splits\<close>)
next
  case (Nbirth en device at)
  obtain result s' where
    call: "publish_birth encode i (clock_of at) device id answer id Cancelled s = (result, s')"
    by (cases "publish_birth encode i (clock_of at) device id answer id Cancelled s")
  note effect = publish_birth_free [OF \<open>edge_node s = Some en\<close> _ call, folded \<open>k = _\<close>, OF free]
  show thesis
    by (rule that [of "Ran answer Cancelled" s'])
       (use Nbirth call effect last publish_birth_keeps [OF call] in
         \<open>auto simp: is_taken_iff split: client_answer.splits\<close>)
next
  case (Dbirth en device at)
  obtain result s' where
    call: "publish_birth encode i (clock_of at) device id Taken id answer s = (result, s')"
    by (cases "publish_birth encode i (clock_of at) device id Taken id answer s")
  note effect = publish_birth_free [OF \<open>edge_node s = Some en\<close> _ call, folded \<open>k = _\<close>, OF free]
  show thesis
    by (rule that [of "Ran Taken answer" s'])
       (use Dbirth call effect publish_birth_keeps [OF call] in
         \<open>auto simp: is_taken_iff split: client_answer.splits\<close>)
qed


section \<open>The two clients side by side\<close>

definition as_if :: "(Payload \<Rightarrow> u8 list) \<Rightarrow> 'x machine \<Rightarrow> client \<Rightarrow> bool" where
  "as_if encode m s \<longleftrightarrow>
     (let c = m_client m; counts = count_at (cl_seq c)
      in cl_identity s = cl_identity c \<and> cl_namespace s = cl_namespace c \<and>
         (\<forall>k. holder_at (cl_seq s) k = None) \<and>
         (\<forall>k. holder_at (cl_seq c) k = None \<longrightarrow>
            counts k = count_at (cl_seq s) k \<and> requests_for k (cl_wire c) = requests_for k (cl_wire s)) \<and>
         (\<forall>i p. m_tasks m i = Some (AwaitClient p) \<longrightarrow>
            restore_to (p_res p) = Some (count_at (cl_seq s) (p_key p)) \<and>
            (\<exists>sent. in_progress encode s (p_call p) (p_stage p) (p_key p) (counts (p_key p)) sent (p_request p) \<and>
               requests_for (p_key p) (cl_wire c) = requests_for (p_key p) (cl_wire s) @ sent)))"

lemma as_if_fields:
  assumes "as_if encode m s"
  shows "cl_identity s = cl_identity (m_client m)" "cl_namespace s = cl_namespace (m_client m)"
    "holder_at (cl_seq s) k = None"
  using assms by (simp_all add: as_if_def Let_def)

lemma as_if_idle:
  assumes "as_if encode m s" and "holder_at (cl_seq (m_client m)) k = None"
  shows "count_at (cl_seq (m_client m)) k = count_at (cl_seq s) k"
    "requests_for k (cl_wire (m_client m)) = requests_for k (cl_wire s)"
  using assms by (simp_all add: as_if_def Let_def)

lemma as_if_pending:
  assumes "as_if encode m s" and "m_tasks m i = Some (AwaitClient p)"
  obtains sent where "restore_to (p_res p) = Some (count_at (cl_seq s) (p_key p))"
    "in_progress encode s (p_call p) (p_stage p) (p_key p)
       (count_at (cl_seq (m_client m)) (p_key p)) sent (p_request p)"
    "requests_for (p_key p) (cl_wire (m_client m)) = requests_for (p_key p) (cl_wire s) @ sent"
  using assms unfolding as_if_def Let_def by blast

lemma as_if_ids: "as_if encode m s \<Longrightarrow> client_ids_ok s = client_ids_ok (m_client m)"
  by (simp add: client_ids_ok_def edge_node_def as_if_fields)

text \<open>
  A step of one task touches one key: what holds of the other keys carries over.
\<close>

lemma as_if_step:
  assumes inv: "machine_inv decode m" and rel: "as_if encode m s"
    and at: "\<And>p. m_tasks m i = Some (AwaitClient p) \<Longrightarrow> p_key p = k"
    and gate: "\<And>j. holder_at (cl_seq (m_client m)) k = Some j \<Longrightarrow> j = i"
    and tasks: "\<And>j. j \<noteq> i \<Longrightarrow> m_tasks m' j = m_tasks m j"
    and same: "cl_identity (m_client m') = cl_identity (m_client m)"
      "cl_namespace (m_client m') = cl_namespace (m_client m)"
      "cl_identity s' = cl_identity s" "cl_namespace s' = cl_namespace s"
      "holder_at (cl_seq s') = holder_at (cl_seq s)"
    and others: "\<And>l. l \<noteq> k \<Longrightarrow>
        count_at (cl_seq (m_client m')) l = count_at (cl_seq (m_client m)) l \<and>
        holder_at (cl_seq (m_client m')) l = holder_at (cl_seq (m_client m)) l \<and>
        requests_for l (cl_wire (m_client m')) = requests_for l (cl_wire (m_client m)) \<and>
        count_at (cl_seq s') l = count_at (cl_seq s) l \<and>
        requests_for l (cl_wire s') = requests_for l (cl_wire s)"
    and idle: "holder_at (cl_seq (m_client m')) k = None \<Longrightarrow>
        count_at (cl_seq (m_client m')) k = count_at (cl_seq s') k \<and>
        requests_for k (cl_wire (m_client m')) = requests_for k (cl_wire s')"
    and own: "\<And>p. m_tasks m' i = Some (AwaitClient p) \<Longrightarrow>
        p_key p = k \<and> restore_to (p_res p) = Some (count_at (cl_seq s') k) \<and>
        (\<exists>sent. in_progress encode s' (p_call p) (p_stage p) k (count_at (cl_seq (m_client m')) k) sent (p_request p) \<and>
           requests_for k (cl_wire (m_client m')) = requests_for k (cl_wire s') @ sent)"
  shows "as_if encode m' s'"
  unfolding as_if_def Let_def
proof (intro conjI allI impI)
  fix l
  assume "holder_at (cl_seq (m_client m')) l = None"
  then show "count_at (cl_seq (m_client m')) l = count_at (cl_seq s') l"
    "requests_for l (cl_wire (m_client m')) = requests_for l (cl_wire s')"
    using idle others [of l] as_if_idle [OF rel, of l] by (cases "l = k"; simp)+
next
  fix j p
  assume p: "m_tasks m' j = Some (AwaitClient p)"
  have "restore_to (p_res p) = Some (count_at (cl_seq s') (p_key p)) \<and>
      (\<exists>sent. in_progress encode s' (p_call p) (p_stage p) (p_key p)
         (count_at (cl_seq (m_client m')) (p_key p)) sent (p_request p) \<and>
       requests_for (p_key p) (cl_wire (m_client m')) = requests_for (p_key p) (cl_wire s') @ sent)"
  proof (cases "j = i")
    case True
    with p own show ?thesis by metis
  next
    case False
    with p tasks have q: "m_tasks m j = Some (AwaitClient p)" by simp
    then have "holder_at (cl_seq (m_client m)) (p_key p) = Some j"
      using inv_holder [OF inv] by blast
    with False gate have "p_key p \<noteq> k" by auto
    note others = others [OF this]
    obtain sent where "restore_to (p_res p) = Some (count_at (cl_seq s) (p_key p))"
      "in_progress encode s (p_call p) (p_stage p) (p_key p)
         (count_at (cl_seq (m_client m)) (p_key p)) sent (p_request p)"
      "requests_for (p_key p) (cl_wire (m_client m)) = requests_for (p_key p) (cl_wire s) @ sent"
      using rel q by (rule as_if_pending)
    then show ?thesis
      using others same(3,4) by (intro conjI exI [of _ sent]) (auto elim: in_progress_cong)
  qed
  then show "restore_to (p_res p) = Some (count_at (cl_seq s') (p_key p))"
    "\<exists>sent. in_progress encode s' (p_call p) (p_stage p) (p_key p)
         (count_at (cl_seq (m_client m')) (p_key p)) sent (p_request p) \<and>
       requests_for (p_key p) (cl_wire (m_client m')) = requests_for (p_key p) (cl_wire s') @ sent"
    by simp_all
qed (simp_all add: same as_if_fields [OF rel])

lemma call_ends:
  fixes m m' :: "'x machine" and answer :: "'x client_answer"
  assumes inv: "machine_inv decode m" and rel: "as_if encode m s"
    and p: "m_tasks m i = Some (AwaitClient p)"
    and last: "p_stage p = FirstBirth \<Longrightarrow> \<not> is_taken answer"
    and m': "m_tasks m' = (m_tasks m)(i := None)"
      "cl_identity (m_client m') = cl_identity (m_client m)"
      "cl_namespace (m_client m') = cl_namespace (m_client m)"
      "cl_wire (m_client m') = cl_wire (m_client m) @ (if is_taken answer then [p_request p] else [])"
      "count_at (cl_seq (m_client m')) = (if is_taken answer then count_at (cl_seq (m_client m))
         else (count_at (cl_seq (m_client m)))(p_key p := saved_count (p_res p)))"
      "holder_at (cl_seq (m_client m')) = (holder_at (cl_seq (m_client m)))(p_key p := None)"
  shows "\<exists>e s'. serial_call encode (i, p_call p, e) s = ((i, answer_outcome answer), s') \<and>
    as_if encode m' s'"
proof -
  let ?k = "p_key p"
  obtain sent where restore: "restore_to (p_res p) = Some (count_at (cl_seq s) ?k)"
    and prog: "in_progress encode s (p_call p) (p_stage p) ?k (count_at (cl_seq (m_client m)) ?k) sent (p_request p)"
    and sent: "requests_for ?k (cl_wire (m_client m)) = requests_for ?k (cl_wire s) @ sent"
    using rel p by (rule as_if_pending)
  have ids: "client_ids_ok s" using inv by (simp add: as_if_ids [OF rel] machine_inv_def)
  have "call_ok (p_call p)" using machine_inv_call [OF inv p] by simp
  note keys = in_progress_requests [OF prog ids this]
  have mine: "requests_for ?k sent = sent" "requests_for ?k [p_request p] = [p_request p]"
    using keys by (auto simp: requests_for_def intro!: filter_True)
  have not_mine: "requests_for l sent = []" "requests_for l [p_request p] = []" if "l \<noteq> ?k" for l
    using keys that by (auto simp: requests_for_def intro!: filter_False)
  obtain e s' where call: "serial_call encode (i, p_call p, e) s = ((i, answer_outcome answer), s')"
    and s': "cl_wire s' = cl_wire s @ sent @ (if is_taken answer then [p_request p] else [])"
      "count_at (cl_seq s') = (if is_taken answer
         then (count_at (cl_seq s))(?k := count_at (cl_seq (m_client m)) ?k) else count_at (cl_seq s))"
      "holder_at (cl_seq s') = holder_at (cl_seq s)" "cl_identity s' = cl_identity s" "cl_namespace s' = cl_namespace s"
    using serial_finishes [OF prog as_if_fields(3) [OF rel] last] by blast
  have "as_if encode m' s'"
  proof (rule as_if_step [OF inv rel, where i = i and k = ?k])
    show "j = i" if "holder_at (cl_seq (m_client m)) ?k = Some j" for j
      using that p inv_holder [OF inv] by (metis option.inject)
  qed (use p m' s' restore sent mine not_mine in \<open>auto simp: saved_count_def\<close>)
  with call show ?thesis by blast
qed



section \<open>Steps\<close>

lemma enterE:
  fixes m m' :: "'x machine"
  assumes "enter encode i cl m = Some m'"
  obtains (Refused) e where "m' = finish i (Some (Inl e)) (m_client m) m"
      "call_topic (m_client m) cl = (Inl e :: 'x SparkplugError + _) \<or>
       (\<exists>topic. call_topic (m_client m) cl = (Inr topic :: 'x SparkplugError + _) \<and> topic_key topic = None \<and>
          e = InvalidTopic (no_edge_node_text topic))"
  | (Through) topic k r m1 where "call_topic (m_client m) cl = (Inr topic :: 'x SparkplugError + _)"
      "topic_key topic = Some k"
      "draw_key i k (seq_step (topic_message_type topic)) (cl_seq (m_client m)) = (Some r, m1)"
      "m' = hand_over encode i cl (first_stage cl) r topic
         (first_payload cl (number_for (m_client m) topic k)) ((m_client m)\<lparr>cl_seq := m1\<rparr>) m"
proof (cases "call_topic (m_client m) cl :: 'x SparkplugError + SparkplugTopic")
  case (Inl e)
  with assms show thesis by (intro Refused [of e]) (simp_all add: enter_def)
next
  case (Inr topic)
  show thesis
  proof (cases "topic_key topic")
    case None
    with assms Inr show thesis
      by (intro Refused [of "InvalidTopic (no_edge_node_text topic)"]) (simp_all add: enter_def reserve_seq_eq)
  next
    case (Some k)
    obtain x m1 where draw: "draw_key i k (seq_step (topic_message_type topic)) (cl_seq (m_client m)) = (x, m1)"
      by (cases "draw_key i k (seq_step (topic_message_type topic)) (cl_seq (m_client m))")
    with assms Inr Some obtain r where r: "x = Some r"
      by (cases x) (simp_all add: enter_def reserve_seq_eq)
    have "deref r m1 = number_for (m_client m) topic k"
      using sc.draw_Some [OF draw [unfolded r]] by (simp add: deref_def number_for_def)
    with assms Inr Some draw r show thesis
      by (intro Through [OF Inr Some]) (auto simp: enter_def reserve_seq_eq Let_def)
  qed
qed

lemma refused_serial:
  fixes e :: "'x SparkplugError"
  assumes "call_topic c cl = Inl e \<or> (\<exists>topic. call_topic c cl = (Inr topic :: 'x SparkplugError + _) \<and>
      topic_key topic = None \<and> e = InvalidTopic (no_edge_node_text topic))"
    and "edge_node s = edge_node c"
  shows "serial_call encode (i, cl, Ran Cancelled Cancelled) s = ((i, Some (Inl e)), s)"
proof (cases cl)
  case (CallMetrics topic ms at)
  with assms(1) show ?thesis by (simp add: publish_metrics_on_no_key)
next
  case (CallBirth device at)
  with assms(1) have "edge_node c = None" "e = NotAnEdgeNode"
    by (auto simp: nbirth_def split: option.splits)
  with CallBirth assms(2) show ?thesis by (simp add: publish_birth_publisher)
qed

lemma in_progress_first:
  assumes "call_topic s cl = Inr topic" and "topic_key topic = Some k"
  shows "in_progress encode s cl (first_stage cl) k (number_for s topic k) []
    (message_request s topic (encode (first_payload cl (number_for s topic k))))"
proof (cases cl)
  case (CallMetrics t ms at)
  with assms show ?thesis using in_progress.Data [of t k] by simp
next
  case (CallBirth device at)
  with assms(1) obtain en where en: "edge_node s = Some en"
    and topic: "topic = nbirth (cl_namespace s) (en_group en) (en_edge_node_id en)"
    by (auto split: option.splits)
  then have "k = birth_key en" "number_for s topic k = 0"
    using assms(2) by (auto simp: nbirth_def birth_key_def number_for_def node_topic_def topic_key_def
        group_id_def node_id_def)
  with in_progress.Nbirth [OF en, of encode device at] topic CallBirth show ?thesis
    by (simp add: nbirth_request_def)
qed

lemma as_if_through:
  fixes m m' :: "'x machine"
  assumes inv: "machine_inv decode m" and rel: "as_if encode m s"
    and gate: "m_tasks m i = Some (AwaitGate cl)"
    and topic: "call_topic (m_client m) cl = (Inr topic :: 'x SparkplugError + _)" "topic_key topic = Some k"
    and draw: "draw_key i k (seq_step (topic_message_type topic)) (cl_seq (m_client m)) = (Some r, m1)"
    and m': "m' = hand_over encode i cl (first_stage cl) r topic
         (first_payload cl (number_for (m_client m) topic k)) ((m_client m)\<lparr>cl_seq := m1\<rparr>) m"
  shows "as_if encode m' s"
proof -
  let ?n = "number_for (m_client m) topic k"
  note drawn = sc.draw_Some [OF draw]
  have r: "res_key r = k" "restore_to r = Some (count_at (cl_seq (m_client m)) k)"
    using draw by (auto simp: draw_key_def split: option.splits)
  note idle = as_if_idle [OF rel drawn(1)]
  have ids: "edge_node s = edge_node (m_client m)" "message_request s = message_request (m_client m)"
    using as_if_fields(1) [OF rel] by (simp_all add: edge_node_def message_request_def role_def fun_eq_iff)
  have "call_topic s cl = (Inr topic :: 'x SparkplugError + _)"
    using topic(1) call_topic_cong [OF ids(1) as_if_fields(2) [OF rel]] by metis
  then have prog: "in_progress encode s cl (first_stage cl) k ?n []
      (message_request (m_client m) topic (encode (first_payload cl ?n)))"
    using in_progress_first [of s cl topic k encode] topic(2) idle(1) by (simp add: number_for_def ids(2))
  have n: "seq_step (topic_message_type topic) (count_at (cl_seq (m_client m)) k) = ?n"
    by (simp add: number_for_def)
  have fields: "m_tasks m' = (m_tasks m)(i \<mapsto> AwaitClient
       \<lparr>p_call = cl, p_stage = first_stage cl, p_res = r,
        p_guard = fst (count_publish (wire_options (role (m_client m)) (topic_message_type topic))
          (cl_delivery (m_client m))),
        p_request = message_request (m_client m) topic (encode (first_payload cl ?n))\<rparr>)"
    "cl_identity (m_client m') = cl_identity (m_client m)" "cl_namespace (m_client m') = cl_namespace (m_client m)"
    "cl_wire (m_client m') = cl_wire (m_client m)"
    "count_at (cl_seq (m_client m')) = (count_at (cl_seq (m_client m)))(k := ?n)"
    "holder_at (cl_seq (m_client m')) = (holder_at (cl_seq (m_client m)))(k := Some i)"
    using drawn(5,6) by (simp_all add: m' hand_over_simps n)
  show ?thesis
    by (rule as_if_step [OF inv rel, where i = i and k = k])
       (use gate drawn(1) fields r prog idle in auto)
qed

lemma as_if_second:
  fixes m m' :: "'x machine"
  assumes inv: "machine_inv decode m" and rel: "as_if encode m s"
    and p: "m_tasks m i = Some (AwaitClient p)"
    and second: "second_message (m_client m) p = Some (topic, payload)"
    and next_s: "next_seq (p_res p) (cl_seq (m_client m)) = (n, seqs)"
    and m': "m' = hand_over encode i (p_call p) SecondBirth (p_res p) topic (payload n)
          ((take_request p (m_client m))\<lparr>cl_delivery := st, cl_seq := seqs\<rparr>) m"
  shows "as_if encode m' s"
proof -
  let ?k = "p_key p" and ?c = "m_client m"
  have stage: "p_stage p = FirstBirth" using second by (intro second_message_stage [of ?c]) simp
  obtain sent where restore: "restore_to (p_res p) = Some (count_at (cl_seq s) ?k)"
    and prog: "in_progress encode s (p_call p) (p_stage p) ?k (count_at (cl_seq ?c) ?k) sent (p_request p)"
    and sent: "requests_for ?k (cl_wire ?c) = requests_for ?k (cl_wire s) @ sent"
    using rel p by (rule as_if_pending)
  have ids: "client_ids_ok s" using inv by (simp add: as_if_ids [OF rel] machine_inv_def)
  have ok: "call_ok (p_call p)" using machine_inv_call [OF inv p] by simp
  have rq: "request_key (p_request p) = Some ?k" by (rule in_progress_requests(1) [OF prog ids ok])
  have same: "edge_node s = edge_node ?c" "message_request s = message_request ?c" "cl_namespace s = cl_namespace ?c"
    using as_if_fields(1,2) [OF rel] by (simp_all add: edge_node_def message_request_def role_def fun_eq_iff)
  have adv: "n = count_at (cl_seq ?c) ?k + 1" "count_at seqs = (count_at (cl_seq ?c))(?k := n)"
    "holder_at seqs = holder_at (cl_seq ?c)"
    using sc.advance_adds [OF next_s] by auto
  from prog stage obtain en device at where call: "p_call p = CallBirth device at"
    and en: "edge_node s = Some en" "?k = birth_key en" "count_at (cl_seq ?c) ?k = 0" "sent = []"
    and first: "p_request p = nbirth_request encode (clock_of at) s en"
    by (auto elim: in_progress.cases)
  have "topic = dbirth (cl_namespace s) (en_group en) (en_edge_node_id en) device"
    "payload = create_device_birth_certificate at"
    using second call en(1) by (simp_all add: second_message_def stage same)
  then have "in_progress encode s (p_call p) SecondBirth ?k 1 [p_request p]
      (message_request ?c topic (encode (payload 1)))"
    using in_progress.Dbirth [OF en(1), of encode device at]
    by (simp add: call en(2) first dbirth_request_def same(2))
  note prog' = this
  have n: "n = 1" using adv(1) en(3) by simp
  have fields: "m_tasks m' i = Some (AwaitClient
       \<lparr>p_call = p_call p, p_stage = SecondBirth, p_res = p_res p,
        p_guard = fst (count_publish (wire_options (role ?c) (topic_message_type topic)) st),
        p_request = message_request ?c topic (encode (payload 1))\<rparr>)"
    "\<And>j. j \<noteq> i \<Longrightarrow> m_tasks m' j = m_tasks m j"
    "cl_identity (m_client m') = cl_identity ?c" "cl_namespace (m_client m') = cl_namespace ?c"
    "cl_wire (m_client m') = cl_wire ?c @ [p_request p]"
    "count_at (cl_seq (m_client m')) = (count_at (cl_seq ?c))(?k := 1)"
    "holder_at (cl_seq (m_client m')) = holder_at (cl_seq ?c)"
    using adv by (simp_all add: m' hand_over_simps take_request_def n)
  have held: "holder_at (cl_seq ?c) ?k = Some i" using p inv_holder [OF inv] by blast
  show ?thesis
    by (rule as_if_step [OF inv rel, where i = i and k = ?k])
       (use p held fields restore prog' sent en(4) rq in \<open>auto simp: requests_for_single\<close>)
qed


text \<open>A step that leaves keys, messages and pending calls alone.\<close>

lemma as_if_same:
  assumes "as_if encode m s" and "cl_identity (m_client m') = cl_identity (m_client m)"
    and "cl_namespace (m_client m') = cl_namespace (m_client m)"
    and "cl_seq (m_client m') = cl_seq (m_client m)" and "cl_wire (m_client m') = cl_wire (m_client m)"
    and "\<And>j p. m_tasks m' j = Some (AwaitClient p) \<longleftrightarrow> m_tasks m j = Some (AwaitClient p)"
  shows "as_if encode m' s"
  using assms by (simp add: as_if_def Let_def)

lemma running_simps:
  "m_tasks m i = Some t \<Longrightarrow> running i m = [task_call t]"
  "m_tasks m i = None \<Longrightarrow> running i m = []"
  "m_tasks m' j = m_tasks m j \<Longrightarrow> running j m' = running j m"
  by (simp_all add: running_def)

lemma in_turn_single:
  "serial_call encode e s = (r, s') \<Longrightarrow> in_turn (serial_call encode) [e] s = ([r], s')"
  by simp

text \<open>A step that ends the call of task \<open>i\<close> completes it in the log; any other step but a start leaves the log.\<close>

lemma whole_ends:
  assumes "m_tasks m i = Some t" and "m_tasks m' = (m_tasks m)(i := None)"
    and "m_results m' = m_results m @ [(i, result)]"
    and "serial_call encode (i, task_call t, e) s = ((i, result), s')" and "as_if encode m' s'"
  shows "\<exists>es rs s'. in_turn (serial_call encode) es s = (rs, s') \<and> as_if encode m' s' \<and>
    m_results m' = m_results m @ rs \<and>
    (\<forall>j. concat (map (logged j) es) @ running j m' = running j m)"
proof (intro exI conjI allI)
  show "in_turn (serial_call encode) [(i, task_call t, e)] s = ([(i, result)], s')"
    by (rule in_turn_single [OF assms(4)])
  show "concat (map (logged j) [(i, task_call t, e)]) @ running j m' = running j m" for j
    using assms(1,2) by (cases "j = i") (simp_all add: logged_def running_def)
qed (use assms(3,5) in simp_all)

lemma whole_stays:
  assumes "m_tasks m i = Some t" and "m_tasks m' = (m_tasks m)(i \<mapsto> t')" and "task_call t' = task_call t"
    and "m_results m' = m_results m" and "as_if encode m' s"
  shows "\<exists>es rs s'. in_turn (serial_call encode) es s = (rs, s') \<and> as_if encode m' s' \<and>
    m_results m' = m_results m @ rs \<and>
    (\<forall>j. concat (map (logged j) es) @ running j m' = running j m)"
proof (intro exI conjI allI)
  show "in_turn (serial_call encode) [] s = ([], s)" by simp
  show "concat (map (logged j) []) @ running j m' = running j m" for j
    using assms(1-3) by (cases "j = i") (simp_all add: running_def)
qed (use assms(4,5) in simp_all)

lemma end_reservation_identity: "cl_identity (end_reservation result r c) = cl_identity c"
  by (simp add: end_reservation_def split: option.split sum.split)

lemma machine_step_whole:
  fixes m m' :: "'x machine"
  assumes inv: "machine_inv decode m" and rel: "as_if encode m s" and calm: "\<not> is_steal act"
    and step: "machine_step encode act m = Some m'"
  shows "\<exists>es rs s'. in_turn (serial_call encode) es s = (rs, s') \<and> as_if encode m' s' \<and>
    m_results m' = m_results m @ rs \<and>
    (\<forall>j. concat (map (logged j) es) @ running j m' = running j m @ starts j act)"
proof (cases act)
  case (Start i cl)
  with step have none: "m_tasks m i = None" and m': "m' = m\<lparr>m_tasks := (m_tasks m)(i \<mapsto> AwaitGate cl)\<rparr>"
    by (auto split: if_splits)
  show ?thesis
  proof (intro exI conjI allI)
    show "in_turn (serial_call encode) [] s = ([] :: (nat \<times> 'x outcome) list, s)" by simp
    show "as_if encode m' s" by (rule as_if_same [OF rel]) (auto simp: m' none)
    show "concat (map (logged j) []) @ running j m' = running j m @ starts j act" for j
      using none Start by (cases "j = i") (simp_all add: running_def m')
  qed (simp add: m')
next
  case (Enter i)
  with step obtain cl where gate: "m_tasks m i = Some (AwaitGate cl)" and entered: "enter encode i cl m = Some m'"
    by (auto split: option.splits task.splits)
  from entered show ?thesis
  proof (cases rule: enterE)
    case (Refused e)
    have "edge_node s = edge_node (m_client m)"
      using as_if_fields(1) [OF rel] by (simp add: edge_node_def)
    from refused_serial [OF Refused(2) this, of encode i]
    have "serial_call encode (i, task_call (AwaitGate cl), Ran Cancelled Cancelled) s =
        ((i, Some (Inl e)), s)" by simp
    moreover have "as_if encode m' s"
      by (rule as_if_same [OF rel]) (auto simp: Refused(1) gate)
    ultimately show ?thesis
      using whole_ends [OF gate, of m' "Some (Inl e)" encode "Ran Cancelled Cancelled" s s] Enter
      by (simp add: Refused(1))
  next
    case (Through topic k r m1)
    then have "as_if encode m' s" by (rule as_if_through [OF inv rel gate])
    moreover obtain p where "m_tasks m' = (m_tasks m)(i \<mapsto> AwaitClient p)" "p_call p = cl"
      "m_results m' = m_results m"
      by (simp add: Through(4) hand_over_simps)
    ultimately show ?thesis
      using whole_stays [OF gate, of m' "AwaitClient p"] Enter by simp
  qed
next
  case (Answer i answer)
  with step obtain p where p: "m_tasks m i = Some (AwaitClient p)" and m': "m' = answered encode i p answer m"
    by (auto split: option.splits task.splits)
  show ?thesis
  proof (cases "is_taken answer \<and> second_message (m_client m) p \<noteq> None")
    case True
    then obtain topic payload where second: "second_message (m_client m) p = Some (topic, payload)" by auto
    obtain n seqs where next_s: "next_seq (p_res p) (cl_seq (m_client m)) = (n, seqs)"
      by (cases "next_seq (p_res p) (cl_seq (m_client m))")
    have "cl_seq (take_request p (m_client m)) = cl_seq (m_client m)" by (simp add: take_request_def)
    then have handed: "m' = hand_over encode i (p_call p) SecondBirth (p_res p) topic (payload n)
        ((take_request p (m_client m))\<lparr>cl_delivery := snd (settle_publish (p_guard p) answer
           (cl_delivery (take_request p (m_client m)))), cl_seq := seqs\<rparr>) m"
      using True second next_s by (simp add: m' answered_def settle_eq is_taken_iff Let_def)
    then have "as_if encode m' s" by (rule as_if_second [OF inv rel p second next_s])
    moreover obtain q where "m_tasks m' = (m_tasks m)(i \<mapsto> AwaitClient q)" "p_call q = p_call p"
      "m_results m' = m_results m"
      by (simp add: handed hand_over_simps)
    ultimately show ?thesis
      using whole_stays [OF p, of m' "AwaitClient q"] Answer by simp
  next
    case False
    then have ends: "\<not> is_taken answer \<or> second_message (m_client m) p = None" by blast
    note eq = answered_ends_eq [OF ends, of encode i, folded m']
    have last: "p_stage p = FirstBirth \<Longrightarrow> \<not> is_taken answer"
      using ends births_own_second [OF machine_inv_own [OF inv p]] by blast
    have "restore_to (p_res p) \<noteq> None"
      using rel p by (rule as_if_pending) simp
    then have "\<exists>e s'. serial_call encode (i, p_call p, e) s = ((i, answer_outcome answer), s') \<and>
        as_if encode m' s'"
      by (intro call_ends [OF inv rel p last])
         (auto simp: eq end_seq_counts take_request_def end_reservation_identity)
    then show ?thesis
      using whole_ends [OF p, of m' "answer_outcome answer" encode _ s] Answer by (auto simp: eq)
  qed
next
  case (Leave i)
  with step obtain cl where gate: "m_tasks m i = Some (AwaitGate cl)"
    and m': "m' = finish i None (m_client m) m" by (auto split: option.splits task.splits)
  have "as_if encode m' s" by (rule as_if_same [OF rel]) (auto simp: m' gate)
  moreover have "serial_call encode (i, task_call (AwaitGate cl), GaveUp) s = ((i, None), s)"
    by (cases cl) simp_all
  ultimately show ?thesis
    using whole_ends [OF gate, of m' None encode GaveUp s s] Leave by (simp add: m')
next
  case (Poll e)
  with step have m': "m' = m\<lparr>m_client := poll e (m_client m)\<rparr>" by simp
  show ?thesis
  proof (intro exI conjI allI)
    show "in_turn (serial_call encode) [] s = ([] :: (nat \<times> 'x outcome) list, s)" by simp
    show "as_if encode m' s" by (rule as_if_same [OF rel]) (auto simp: m' poll_def)
    show "concat (map (logged j) []) @ running j m' = running j m @ starts j act" for j
      using Poll by (simp add: running_def m')
  qed (simp add: m')
qed (use calm in simp)


interpretation calls: serializable "machine_step encode" "\<lambda>act. \<not> is_steal act"
    "\<lambda>m. reads_seq decode encode \<and> machine_inv decode m" "as_if encode" "serial_call encode"
    m_results starts running logged
  for encode decode
  by unfold_locales (auto intro: machine_step_inv machine_step_whole)

lemma as_if_init:
  assumes "fresh_client c"
  shows "as_if encode (machine_init c) c"
proof -
  have "cl_seq c = SeqCounters_new" using assms by (simp add: fresh_client_def)
  then show ?thesis by (simp add: as_if_def Let_def)
qed


section \<open>Properties\<close>

text \<open>
  C6. Concurrent calls take effect one after the other: however publish calls,
  births, refusals, cancellations and the events of the loop interleave on one
  client, outside the cancellation window, the calls can be put in one order, in
  which each task keeps its own, so that doing them whole, one after the other,
  on a client of its own gives the same results in the order in which the calls
  ended, and, for each edge node whose gate is free, the same messages on the wire
  and the same count. A call a task still waits in comes after all its others. In the
  cancellation window, where a call is cancelled in the instant the client takes its
  message, this is not claimed, nor is it of an edge node whose gate is held.
\<close>

theorem calls_take_effect_in_turn:
  fixes m :: "'x machine"
  assumes "fresh_client c" and "reads_seq decode encode"
    and "run (machine_step encode) acts (machine_init c) = Some m"
    and "list_all (\<lambda>act. \<not> is_steal act) acts"
  shows "\<exists>calls s. in_turn (serial_call encode) calls c = (m_results m, s) \<and>
    (\<forall>i. concat (map (logged i) calls) @ running i m = concat (map (starts i) acts)) \<and>
    (\<forall>k. holder_at (cl_seq (m_client m)) k = None \<longrightarrow>
       requests_for k (cl_wire (m_client m)) = requests_for k (cl_wire s) \<and>
       count_at (cl_seq (m_client m)) k = count_at (cl_seq s) k)"
proof -
  have "reads_seq decode encode \<and> machine_inv decode (machine_init c :: 'x machine)"
    using assms(2) machine_inv_init [OF assms(1)] by simp
  from calls.run_whole [OF assms(3) this as_if_init [OF assms(1)] assms(4)]
  obtain calls rs s where "in_turn (serial_call encode) calls c = (rs, s)" "as_if encode m s"
    "m_results m = rs"
    "\<And>i. concat (map (logged i) calls) @ running i m = concat (map (starts i) acts)"
    by (auto simp: running_def)
  then show ?thesis by (intro exI [of _ calls] exI [of _ s]) (simp add: as_if_idle)
qed


text \<open>Two calls for two edge nodes that cross: the second to enter is the first to end.\<close>

definition crossing_calls :: "(unit, unit) action list" where
  "crossing_calls =
     (let data = (\<lambda>n. CallMetrics (ddata sparkplug_b (GroupId ''g'') (EdgeNodeId n) (DeviceId ''d'')) []
            (Timestamp 0))
      in [Start 0 (data ''n''), Start 1 (data ''m''), Enter 0, Enter 1, Answer 1 Taken,
          Start 1 (data ''n''), Answer 0 (RefusedBy ()), Enter 1, Answer 1 Taken])"

theorem calls_take_effect_in_turn_witness:
  "\<exists>m calls s. end_state crossing_calls IdentityPublisher = Some m \<and>
     in_turn (serial_call unary_encode) calls (idle_client ''spBv1.0'' IdentityPublisher) =
       ([(1, Some (Inr ())), (0, Some (Inl (Publish ()))), (1, Some (Inr ()))], s) \<and>
     requests_for ''g/n'' (cl_wire (m_client m)) = requests_for ''g/n'' (cl_wire s) \<and>
     length (requests_for ''g/n'' (cl_wire s)) = 1 \<and> count_at (cl_seq s) ''g/n'' = 1 \<and>
     length (concat (map (logged 1) calls)) = 2"
proof -
  have "case end_state crossing_calls IdentityPublisher of None \<Rightarrow> False
    | Some m \<Rightarrow> m_results m = [(1, Some (Inr ())), (0, Some (Inl (Publish ()))), (1, Some (Inr ()))] \<and>
       holder_at (cl_seq (m_client m)) ''g/n'' = None \<and> count_at (cl_seq (m_client m)) ''g/n'' = 1 \<and>
       length (requests_for ''g/n'' (cl_wire (m_client m))) = 1 \<and> running 1 m = []"
    by code_simp
  then obtain m where m: "end_state crossing_calls IdentityPublisher = Some m"
      "m_results m = [(1, Some (Inr ())), (0, Some (Inl (Publish ()))), (1, Some (Inr ()))]"
      "holder_at (cl_seq (m_client m)) ''g/n'' = None" "count_at (cl_seq (m_client m)) ''g/n'' = 1"
      "length (requests_for ''g/n'' (cl_wire (m_client m))) = 1" "running 1 m = []"
    by (auto split: option.splits)
  have calm: "list_all (\<lambda>act. \<not> is_steal act) crossing_calls"
    and begun: "length (concat (map (starts 1) crossing_calls)) = 2"
    by (simp_all add: crossing_calls_def Let_def)
  from calls_take_effect_in_turn [OF idle_client_fresh(1) unary_reads m(1) [unfolded end_state_def] calm]
  obtain calls s where "in_turn (serial_call unary_encode) calls (idle_client ''spBv1.0'' IdentityPublisher) =
      (m_results m, s)"
    "\<And>i. concat (map (logged i) calls) @ running i m = concat (map (starts i) crossing_calls)"
    "\<And>k. holder_at (cl_seq (m_client m)) k = None \<Longrightarrow>
       requests_for k (cl_wire (m_client m)) = requests_for k (cl_wire s) \<and>
       count_at (cl_seq (m_client m)) k = count_at (cl_seq s) k" by blast
  from this(1) this(2) [of 1] this(3) [OF m(3)] m begun show ?thesis
    by (intro exI [of _ m] exI [of _ calls] exI [of _ s]) simp
qed

end
