(* ===== verification/Host_Reading.thy ===== *)
theory Host_Reading
  imports Serial_Calls Metric_Reading "HOL-Library.Countable"
begin

text \<open>
  What a host application reads from the messages of a client: the topic by
  \<open>Namespace::parse\<close> and the payload by \<open>decode_payload\<close> of \<open>src/payload.rs\<close>. The
  decoder is prost's, on code that the build generates, so it is the parameter
  \<open>decode\<close>; what is relied on is that it gives back an encoded payload
  (\<open>decodes\<close>). Every message on the wire is then a message of a call that was
  made, and reads as what the caller gave.
\<close>

section \<open>Decoding\<close>

definition decode_payload :: "(u8 list \<Rightarrow> 'd + Payload) \<Rightarrow> u8 list \<Rightarrow> 'd + Payload" where
  "decode_payload decode bytes = decode bytes"

definition decodes :: "(u8 list \<Rightarrow> 'd + Payload) \<Rightarrow> (Payload \<Rightarrow> u8 list) \<Rightarrow> bool" where
  "decodes decode encode \<longleftrightarrow> (\<forall>p. decode (encode p) = Inr p)"

definition seq_of :: "(u8 list \<Rightarrow> 'd + Payload) \<Rightarrow> u8 list \<Rightarrow> u64 option" where
  "seq_of decode bytes = (case decode_payload decode bytes of Inl _ \<Rightarrow> None | Inr p \<Rightarrow> payload_seq p)"

lemma decodes_reads_seq: "decodes decode encode \<Longrightarrow> reads_seq (seq_of decode) encode"
  by (simp add: decodes_def reads_seq_def seq_of_def decode_payload_def)

text \<open>A host of the namespace \<open>ns\<close>.\<close>

definition host_reading ::
    "(u8 list \<Rightarrow> 'd + Payload) \<Rightarrow> Namespace \<Rightarrow> request \<Rightarrow> (SparkplugTopic \<times> Payload) option" where
  "host_reading decode ns rq =
     (case (parse ns (req_topic rq) :: unit SparkplugError + _, decode_payload decode (req_payload rq)) of
        (Inr t, Inr p) \<Rightarrow> Some (t, p)
      | _ \<Rightarrow> None)"

lemma host_reading_message:
  assumes "decodes decode encode" and "well_formed t" and "ns_text ns = topic_namespace t"
    and "\<not> group_is_STATE t"
  shows "host_reading decode ns (message_request c t (encode p)) = Some (t, p)"
proof -
  have "(parse ns (to_string t) :: unit SparkplugError + _) = Inr t"
    using parse_to_string [OF assms(2), of ns] assms(3,4) by simp
  then show ?thesis
    using assms(1) by (simp add: host_reading_def message_request_def decode_payload_def decodes_def Let_def)
qed


section \<open>The messages of a call\<close>

inductive says :: "client \<Rightarrow> call \<Rightarrow> SparkplugTopic \<Rightarrow> Payload \<Rightarrow> bool" for c where
  Metrics: "says c (CallMetrics topic ms instant) topic (create_payload ms instant n)"
| Node: "edge_node c = Some en \<Longrightarrow>
    says c (CallBirth device instant) (nbirth (cl_namespace c) (en_group en) (en_edge_node_id en))
      (create_birth_certificate instant 0)"
| Device: "edge_node c = Some en \<Longrightarrow>
    says c (CallBirth device instant) (dbirth (cl_namespace c) (en_group en) (en_edge_node_id en) device)
      (create_device_birth_certificate instant 1)"

inductive_cases says_MetricsE: "says c (CallMetrics topic ms instant) t p"

definition spoken_by :: "(Payload \<Rightarrow> u8 list) \<Rightarrow> client \<Rightarrow> call \<Rightarrow> request \<Rightarrow> bool" where
  "spoken_by encode c cl rq \<longleftrightarrow>
     (\<exists>t p. says c cl t p \<and> well_formed t \<and> rq = message_request c t (encode p))"

text \<open>A state of the machine in which all that is said is said by the calls in \<open>known\<close>.\<close>

definition said :: "(Payload \<Rightarrow> u8 list) \<Rightarrow> client \<Rightarrow> call set \<Rightarrow> 'x machine \<Rightarrow> bool" where
  "said encode c known m \<longleftrightarrow>
     cl_identity (m_client m) = cl_identity c \<and> cl_namespace (m_client m) = cl_namespace c \<and>
     (\<forall>i t. m_tasks m i = Some t \<longrightarrow> task_call t \<in> known) \<and>
     (\<forall>i p. m_tasks m i = Some (AwaitClient p) \<longrightarrow> spoken_by encode c (p_call p) (p_request p)) \<and>
     (\<forall>rq\<in>set (cl_wire (m_client m)). \<exists>cl\<in>known. spoken_by encode c cl rq)"

lemma same_requests:
  assumes "cl_identity c' = cl_identity c"
  shows "edge_node c' = edge_node c" "message_request c' = message_request c"
  using assms by (simp_all add: edge_node_def message_request_def role_def fun_eq_iff)

lemma first_spoken:
  assumes "call_topic c cl = (Inr topic :: 'x SparkplugError + _)" and "client_ids_ok c" and "call_ok cl"
    and "topic_message_type topic = NBIRTH \<Longrightarrow> n = 0"
  shows "spoken_by encode c cl (message_request c topic (encode (first_payload cl n)))"
proof -
  have "says c cl topic (first_payload cl n)"
  proof (cases cl)
    case (CallMetrics t ms instant)
    with assms(1) show ?thesis by (simp add: says.Metrics)
  next
    case (CallBirth device instant)
    with assms(1) obtain en where en: "edge_node c = Some en"
      and topic: "topic = nbirth (cl_namespace c) (en_group en) (en_edge_node_id en)"
      by (auto split: option.splits)
    then have "n = 0" by (intro assms(4)) (simp add: nbirth_def)
    with says.Node [OF en] CallBirth topic show ?thesis by simp
  qed
  with call_topic_ok [OF assms(1-3)] show ?thesis by (auto simp: spoken_by_def)
qed

lemma second_spoken:
  assumes "second_message c p = Some (topic, payload)" and "client_ids_ok c" and "call_ok (p_call p)"
  shows "spoken_by encode c (p_call p) (message_request c topic (encode (payload 1)))"
proof -
  have "well_formed topic" using assms by (rule second_message_ok)
  moreover have "says c (p_call p) topic (payload 1)"
    using assms(1) by (auto simp: second_message_def split: stage.splits call.splits option.splits intro: says.Device)
  ultimately show ?thesis by (auto simp: spoken_by_def)
qed

lemma said_step:
  fixes m m' :: "'x machine"
  assumes inv: "machine_inv decode m" and said: "said encode c known m"
    and act: "\<And>i cl. act = Start i cl \<Longrightarrow> cl \<in> known"
    and step: "machine_step encode act m = Some m'"
  shows "said encode c known m'"
proof -
  have same: "cl_identity (m_client m) = cl_identity c" "cl_namespace (m_client m) = cl_namespace c"
    using said by (simp_all add: said_def)
  note requests = same_requests [OF same(1)]
  have ids: "client_ids_ok c"
    using inv requests(1) same(2) by (simp add: machine_inv_def client_ids_ok_def)
  have known: "m_tasks m i = Some t \<Longrightarrow> task_call t \<in> known" for i t
    using said by (simp add: said_def)
  have spoken: "m_tasks m i = Some (AwaitClient p) \<Longrightarrow> spoken_by encode c (p_call p) (p_request p)" for i p
    using said by (simp add: said_def)
  have taken: "said encode c known m'"
    if "m_tasks m i = Some (AwaitClient p)" "m_tasks m' = (m_tasks m)(i := None)"
      "set (cl_wire (m_client m')) \<subseteq> insert (p_request p) (set (cl_wire (m_client m)))"
      "cl_identity (m_client m') = cl_identity c" "cl_namespace (m_client m') = cl_namespace c" for i p
  proof -
    have "\<forall>rq\<in>insert (p_request p) (set (cl_wire (m_client m))). \<exists>cl\<in>known. spoken_by encode c cl rq"
      using said known [OF that(1)] spoken [OF that(1)] by (auto simp: said_def)
    then have "\<forall>rq\<in>set (cl_wire (m_client m')). \<exists>cl\<in>known. spoken_by encode c cl rq"
      using that(3) by blast
    with said that(2,4,5) show ?thesis by (simp add: said_def)
  qed
  show ?thesis
  proof (cases act)
    case (Start i cl)
    with said act step show ?thesis by (auto simp: said_def split: if_splits)
  next
    case (Enter i)
    with step obtain cl where gate: "m_tasks m i = Some (AwaitGate cl)" and entered: "enter encode i cl m = Some m'"
      by (auto split: option.splits task.splits)
    have ok: "call_ok cl" using machine_inv_call [OF inv gate] by simp
    from entered show ?thesis
    proof (cases rule: enterE)
      case (Refused e)
      with said show ?thesis by (auto simp: said_def)
    next
      case (Through topic k r m1)
      have topic: "call_topic c cl = (Inr topic :: 'x SparkplugError + _)"
        using Through(1) call_topic_cong [OF requests(1) same(2)] by metis
      have "number_for (m_client m) topic k = 0" if "topic_message_type topic = NBIRTH"
        using that by (simp add: number_for_def)
      note first = first_spoken [OF topic ids ok this, of encode]
      show ?thesis
        using said first known [OF gate]
        by (auto simp: said_def Through(4) hand_over_simps requests(2) split: if_splits)
    qed
  next
    case (Answer i answer)
    with step obtain p where p: "m_tasks m i = Some (AwaitClient p)" and m': "m' = answered encode i p answer m"
      by (auto split: option.splits task.splits)
    show ?thesis
    proof (cases "is_taken answer \<and> second_message (m_client m) p \<noteq> None")
      case True
      then obtain topic payload where second: "second_message (m_client m) p = Some (topic, payload)" by auto
      obtain n seqs where next_s: "next_seq (p_res p) (cl_seq (m_client m)) = (n, seqs)"
        by (cases "next_seq (p_res p) (cl_seq (m_client m))")
      have ch: "machine_chained decode m" using inv by (simp add: machine_inv_def)
      have "p_stage p = FirstBirth" using second by (intro second_message_stage [of "m_client m"]) simp
      then have "n = 1"
        using sc.advance_adds [OF next_s] pending_fields(3) [OF ch p] by simp
      moreover have "second_message c p = Some (topic, payload)"
        using second requests(1) same(2)
        by (auto simp: second_message_def split: stage.splits call.splits option.splits)
      then have "spoken_by encode c (p_call p) (message_request c topic (encode (payload 1)))"
        using ids machine_inv_call [OF inv p] by (intro second_spoken) simp_all
      ultimately show ?thesis
        using said second next_s True known [OF p] spoken [OF p]
        by (auto simp: m' said_def answered_def settle_eq is_taken_iff Let_def take_request_def
            hand_over_simps requests(2) split: if_splits)
    next
      case False
      then have "\<not> is_taken answer \<or> second_message (m_client m) p = None" by blast
      note eq = answered_ends_eq [OF this, of encode i, folded m']
      show ?thesis
        by (rule taken [OF p]) (auto simp: eq take_request_def end_reservation_identity same)
    qed
  next
    case (Steal i)
    with step obtain p where p: "m_tasks m i = Some (AwaitClient p)" and m': "m' = stolen i p m"
      by (auto split: option.splits task.splits)
    show ?thesis
      by (rule taken [OF p]) (simp_all add: m' stolen_def settle_eq take_request_def end_reservation_identity same)
  next
    case (Leave i)
    with said step show ?thesis by (auto simp: said_def split: option.splits task.splits if_splits)
  next
    case (Poll e)
    with said step show ?thesis by (auto simp: said_def poll_def)
  qed
qed

lemma said_run:
  fixes m m' :: "'x machine"
  assumes "run (machine_step encode) acts m = Some m'" and "machine_inv decode m" and "reads_seq decode encode"
    and "said encode c known m" and "\<And>i cl. Start i cl \<in> set acts \<Longrightarrow> cl \<in> known"
  shows "said encode c known m'"
  using assms
proof (induction acts arbitrary: m)
  case Nil
  then show ?case by simp
next
  case (Cons act acts)
  then obtain u where u: "machine_step encode act m = Some u" "run (machine_step encode) acts u = Some m'"
    by (auto split: option.splits)
  have "said encode c known u"
    by (rule said_step [OF Cons.prems(2,4) _ u(1)]) (use Cons.prems(5) in auto)
  with Cons.prems(5) show ?case
    by (intro Cons.IH [OF u(2) machine_step_inv [OF Cons.prems(2,3) u(1)] Cons.prems(3)]) auto
qed


section \<open>A decoder for the witness\<close>

text \<open>
  There are countably many payloads, so their numbers in unary are an encoding
  with a decoder.
\<close>

instance ParameterValue :: countable by countable_datatype

instance DataSetValue :: countable by countable_datatype

instance Parameter_ext :: (countable) countable
proof
  have "inj (\<lambda>r :: 'a Parameter_scheme.
      to_nat (parameter_name r, parameter_type r, parameter_value r, Parameter.more r))"
    by (rule injI) (simp add: Parameter.equality)
  then show "\<exists>f :: 'a Parameter_scheme \<Rightarrow> nat. inj f" by blast
qed

instance Row_ext :: (countable) countable
proof
  have "inj (\<lambda>r :: 'a Row_scheme. to_nat (elements r, Row.more r))"
    by (rule injI) (simp add: Row.equality)
  then show "\<exists>f :: 'a Row_scheme \<Rightarrow> nat. inj f" by blast
qed

instance DataSet_ext :: (countable) countable
proof
  have "inj (\<lambda>r :: 'a DataSet_scheme. to_nat (num_of_columns r, columns r, types r, rows r, DataSet.more r))"
    by (rule injI) (simp add: DataSet.equality)
  then show "\<exists>f :: 'a DataSet_scheme \<Rightarrow> nat. inj f" by blast
qed

instance MetaData_ext :: (countable) countable
proof
  have "inj (\<lambda>r :: 'a MetaData_scheme.
      to_nat (is_multi_part r, content_type r, meta_size r, meta_seq r, file_name r, file_type r, md5 r,
        description r, MetaData.more r))"
    by (rule injI) (simp add: MetaData.equality)
  then show "\<exists>f :: 'a MetaData_scheme \<Rightarrow> nat. inj f" by blast
qed

instance PropertyValue and PropertyVariant and PropertySet :: countable by countable_datatype

instance Metric and MetricVariant and Template :: countable by countable_datatype

instance Payload_ext :: (countable) countable
proof
  have "inj (\<lambda>r :: 'a Payload_scheme.
      to_nat (payload_timestamp r, payload_metrics r, payload_seq r, payload_uuid r, payload_body r,
        Payload.more r))"
    by (rule injI) (simp add: Payload.equality)
  then show "\<exists>f :: 'a Payload_scheme \<Rightarrow> nat. inj f" by blast
qed

definition number_encode :: "Payload \<Rightarrow> u8 list" where
  "number_encode p = replicate (to_nat p) 0"

definition number_decode :: "u8 list \<Rightarrow> unit + Payload" where
  "number_decode bytes = Inr (from_nat (length bytes))"

lemma number_decodes: "decodes number_decode number_encode"
  by (simp add: decodes_def number_decode_def number_encode_def)


section \<open>Properties\<close>

text \<open>
  C7. What a host reads is what a caller said: however calls interleave, also in
  the cancellation window, every message the client took is a message of a call
  that was begun, with the instant and the metrics of that call, and of an edge
  node other than the client's own only if the caller named it. A host of the
  topic's namespace reads just that topic and that payload, unless the group is
  \<open>STATE\<close>; and from a batch it reads every name, value and instant in the
  caller's order.
\<close>

theorem hosts_read_what_was_said:
  fixes m :: "'x machine"
  assumes "fresh_client c" and "decodes decode encode"
    and "run (machine_step encode) acts (machine_init c) = Some m"
    and "rq \<in> set (cl_wire (m_client m))"
  shows "\<exists>i cl t p. Start i cl \<in> set acts \<and> says c cl t p \<and>
    rq = message_request c t (encode p) \<and>
    (\<forall>ns. ns_text ns = topic_namespace t \<longrightarrow> \<not> group_is_STATE t \<longrightarrow>
       host_reading decode ns rq = Some (t, p)) \<and>
    (\<forall>topic ms instant. cl = CallMetrics topic (proto_metrics ms) instant \<longrightarrow>
       t = topic \<and> payload_timestamp p = Some (millis instant) \<and>
       map metric_reading (payload_metrics p) = map (\<lambda>(name, v, ts). Some (name, v, Timestamp ts)) ms)"
proof -
  let ?known = "{cl. \<exists>i. Start i cl \<in> set acts}"
  have law: "reads_seq (seq_of decode) encode" using assms(2) by (rule decodes_reads_seq)
  have "said encode c ?known (machine_init c :: 'x machine)"
    using assms(1) by (simp add: said_def fresh_client_def)
  then have "said encode c ?known m"
    by (rule said_run [OF assms(3) machine_inv_init [OF assms(1)] law]) blast
  with assms(4) obtain i cl t p where "Start i cl \<in> set acts" "says c cl t p" "well_formed t"
    "rq = message_request c t (encode p)"
    unfolding said_def spoken_by_def by fastforce
  moreover from \<open>says c cl t p\<close> have "t = topic \<and> payload_timestamp p = Some (millis instant) \<and>
      map metric_reading (payload_metrics p) = map (\<lambda>(name, v, ts). Some (name, v, Timestamp ts)) ms"
    if "cl = CallMetrics topic (proto_metrics ms) instant" for topic ms instant
    using that proto_metrics_readings [of ms] by (auto elim!: says_MetricsE simp: create_payload_def)
  ultimately show ?thesis
    using host_reading_message [OF assms(2)] by (intro exI [of _ i] exI [of _ cl] exI [of _ t] exI [of _ p]) simp
qed


text \<open>One reading of a publisher client.\<close>

definition one_reading :: "(unit, unit) action list" where
  "one_reading =
     [Start 0 (CallMetrics (ddata sparkplug_b (GroupId ''g'') (EdgeNodeId ''n'') (DeviceId ''d''))
        (proto_metrics [(''valve'', MetricBool True, 5)]) (Timestamp 7)),
      Enter 0, Answer 0 Taken]"

lemma one_reading_runs:
  "\<exists>m. run (machine_step encode) one_reading (machine_init (idle_client ''spBv1.0'' IdentityPublisher)) = Some m \<and>
     length (cl_wire (m_client m)) = 1"
proof -
  let ?t = "ddata sparkplug_b (GroupId ''g'') (EdgeNodeId ''n'') (DeviceId ''d'')"
  have "well_formed ?t" "topic_key ?t = Some ''g/n''" by code_simp+
  then show ?thesis
    by (simp add: one_reading_def enter_def reserve_seq_eq draw_key_def idle_client_def hand_over_def
        answered_def settle_def settle_publish_def take_request_def second_message_def end_reservation_def
        Let_def split_beta)
qed

theorem hosts_read_what_was_said_witness:
  "\<exists>m rq t p. run (machine_step number_encode) one_reading
       (machine_init (idle_client ''spBv1.0'' IdentityPublisher)) = Some m \<and>
     cl_wire (m_client m) = [rq] \<and> t = ddata sparkplug_b (GroupId ''g'') (EdgeNodeId ''n'') (DeviceId ''d'') \<and>
     host_reading number_decode sparkplug_b rq = Some (t, p) \<and> payload_timestamp p = Some 7 \<and>
     map metric_reading (payload_metrics p) = [Some (''valve'', MetricBool True, Timestamp 5)]"
proof -
  let ?t = "ddata sparkplug_b (GroupId ''g'') (EdgeNodeId ''n'') (DeviceId ''d'')"
  obtain m where m: "run (machine_step number_encode) one_reading
      (machine_init (idle_client ''spBv1.0'' IdentityPublisher)) = Some m" "length (cl_wire (m_client m)) = 1"
    using one_reading_runs by blast
  then obtain rq where rq: "cl_wire (m_client m) = [rq]" by (auto simp: length_Suc_conv)
  have "topic_namespace ?t = ns_text sparkplug_b" "\<not> group_is_STATE ?t" by code_simp+
  moreover obtain cl t p where "cl = CallMetrics ?t (proto_metrics [(''valve'', MetricBool True, 5)]) (Timestamp 7)"
    "\<And>ns. ns_text ns = topic_namespace t \<Longrightarrow> \<not> group_is_STATE t \<Longrightarrow> host_reading number_decode ns rq = Some (t, p)"
    "\<And>topic ms instant. cl = CallMetrics topic (proto_metrics ms) instant \<Longrightarrow>
       t = topic \<and> payload_timestamp p = Some (millis instant) \<and>
       map metric_reading (payload_metrics p) = map (\<lambda>(name, v, ts). Some (name, v, Timestamp ts)) ms"
    using hosts_read_what_was_said [OF idle_client_fresh(1) number_decodes m(1), of rq]
    by (auto simp: rq one_reading_def)
  ultimately show ?thesis using m(1) rq
    by (intro exI [of _ m] exI [of _ rq] exI [of _ t] exI [of _ p]) auto
qed

end
