(* ===== verification/Example_Program.thy ===== *)
theory Example_Program
  imports Publish_Machine
begin

text \<open>
  The example program \<open>examples/publish_every_30s.rs\<close>: it connects as an edge node,
  announces one device, and then publishes a reading every 30 seconds until a call
  fails.

  The program is the composition of the calls of the theories \<open>Client\<close> and
  \<open>Publish\<close>. What it reads from outside is an argument: the draw of the client id,
  the events up to the end of the connect, the clock in nanoseconds since the epoch,
  the temperatures it draws, and for each message whether the client took it or
  refused it. Nobody cancels a call of the program. The list of turns is as long as
  the program has run.
\<close>

section \<open>The program\<close>

definition example_config :: "'t \<Rightarrow> 't MqttConfig" where
  "example_config tcp =
     \<lparr>broker_url = ''localhost'', broker_port = 1883, transport = tcp, username = [], password = [],
      client_id = None, version = ''spBv1.0''\<rparr>"

definition example_edge_node :: "'x SparkplugError + EdgeNode" where
  "example_edge_node =
     try_then (GroupId_new ''Example'') (\<lambda>g.
     try_then (EdgeNodeId_new ''example-node'') (\<lambda>n. Inr (EdgeNode_new g n)))"

text \<open>A client answers \<open>None\<close> to a message it takes, and its error to one it refuses.\<close>

definition client_answer_of :: "'x option \<Rightarrow> 'x client_answer" where
  "client_answer_of refusal = (case refusal of None \<Rightarrow> Taken | Some e \<Rightarrow> RefusedBy e)"

datatype 'x run_end = StillRunning | Panicked | Returned "'x SparkplugError"

fun example_loop ::
    "(Payload \<Rightarrow> u8 list) \<Rightarrow> (int \<times> f64 \<times> 'x option) list \<Rightarrow> client \<Rightarrow> 'x run_end \<times> client" where
  "example_loop encode [] c = (StillRunning, c)"
| "example_loop encode ((clock, temperature, refusal) # turns) c =
     (if clock < 0 then (Panicked, drop_client c)
      else (let timestamp_ms = word_of_int (clock div 1000000);
                (result, c1) = publish_metric encode 0 ''Example'' ''example-node'' ''sensor1''
                  ''temperature'' (MetricFloat temperature) timestamp_ms id (client_answer_of refusal) c
            in case result of
                 Some (Inr _) \<Rightarrow> example_loop encode turns c1
               | Some (Inl e) \<Rightarrow> (Returned e, drop_client c1)
               | None \<Rightarrow> (StillRunning, c1)))"

definition example_main ::
    "(Payload \<Rightarrow> u8 list) \<Rightarrow> 't \<Rightarrow> u32 \<Rightarrow> 'e polled list \<Rightarrow> ready_wait \<Rightarrow>
     int \<Rightarrow> 'x option \<Rightarrow> 'x option \<Rightarrow> (int \<times> f64 \<times> 'x option) list \<Rightarrow> 'x run_end \<times> client option" where
  "example_main encode tcp random events waited clock nbirth_refusal dbirth_refusal turns =
     (case example_edge_node of
        Inl e \<Rightarrow> (Returned e, None)
      | Inr en \<Rightarrow>
          (case fst (connect_as_edge_node random (example_config tcp) en DEFAULT_CONNECT_TIMEOUT
                 events waited) of
             Inl e \<Rightarrow> (Returned e, None)
           | Inr c \<Rightarrow>
               (case DeviceId_new ''sensor1'' of
                  Inl e \<Rightarrow> (Returned e, Some (drop_client c))
                | Inr device \<Rightarrow>
                    (let (result, c1) = publish_birth encode 0 clock device id (client_answer_of nbirth_refusal)
                           id (client_answer_of dbirth_refusal) c
                     in case result of
                          Some (Inr _) \<Rightarrow>
                            (let (ended, c2) = example_loop encode turns c1 in (ended, Some c2))
                        | Some (Inl e) \<Rightarrow> (Returned e, Some (drop_client c1))
                        | None \<Rightarrow> (StillRunning, Some c1)))))"


section \<open>What the program puts on the wire\<close>

definition example_node :: EdgeNode where
  "example_node = EdgeNode_new (GroupId ''Example'') (EdgeNodeId ''example-node'')"

lemma example_node_eq: "example_edge_node = Inr example_node"
  by (simp add: example_edge_node_def example_node_def GroupId_new_def EdgeNodeId_new_def topic_id_new_def
      is_usable_segment_iff)

text \<open>The message types in their order, and the number the \<open>i\<close>-th message carries.\<close>

definition nth_reading :: "nat \<Rightarrow> MessageType \<times> u64 option" where
  "nth_reading i =
     (if i = 0 then NBIRTH else if i = 1 then DBIRTH else DDATA,
      Some (ucast (word_of_nat i :: u8)))"

abbreviation example_key :: string where
  "example_key \<equiv> birth_key example_node"

definition in_step :: "(u8 list \<Rightarrow> u64 option) \<Rightarrow> client \<Rightarrow> bool" where
  "in_step decode c \<longleftrightarrow>
     edge_node c = Some example_node \<and> cl_namespace c = sparkplug_b \<and>
     holder_at (cl_seq c) example_key = None \<and>
     seq_stream decode example_key (cl_wire c) = map nth_reading [0..<length (cl_wire c)] \<and>
     (\<forall>rq\<in>set (cl_wire c). req_qos rq = AtMostOnce \<and> \<not> req_retain rq) \<and>
     unacked (cl_delivery c) = 0"

lemma in_step_drop [simp]: "in_step decode (drop_client c) = in_step decode c"
  by (simp add: in_step_def drop_client_def edge_node_def)

lemma edge_node_untracked:
  assumes "edge_node c = Some en" and "topic_message_type topic \<notin> {NDEATH, STATE}"
  shows "delivery_after c topic id answer = cl_delivery c"
proof -
  have "role c = RoleEdgeNode" using assms(1) edge_node_role [of c] by (cases "role c") auto
  then have "\<not> tracked (wire_options (role c) (topic_message_type topic))"
    using assms(2) by (simp add: tracked_iff)
  then show ?thesis
    by (cases answer)
       (simp_all add: delivery_after_def publish_with_options_halves count_publish_def settle_publish_def)
qed

lemma publish_birth_untracked:
  assumes "edge_node c = Some en"
    and "publish_birth encode party clock device id answer1 id answer2 c = (result, c')"
  shows "cl_delivery c' = cl_delivery c"
proof -
  have role: "role c = RoleEdgeNode" using assms(1) edge_node_role [of c] by (cases "role c") auto
  have untracked: "snd (publish_with_options (wire_options RoleEdgeNode mt) id answer st) = st"
    if "mt \<in> {NBIRTH, DBIRTH}" for mt :: MessageType and answer :: "'x client_answer" and st
    using that by (cases answer)
      (auto simp: publish_with_options_halves count_publish_def settle_publish_def tracked_iff)
  show ?thesis
    using assms by (cases answer1; cases answer2; auto simp: publish_birth_def reserve_seq_eq
      publish_message_eq end_reservation_def Let_def untracked role nbirth_def dbirth_def
      split: option.splits prod.splits sum.splits)+
qed

lemma edge_node_request:
  assumes "edge_node c = Some en" and "topic_message_type topic \<notin> {NDEATH, STATE}"
  shows "req_qos (message_request c topic payload) = AtMostOnce \<and>
    \<not> req_retain (message_request c topic payload)"
proof -
  have "role c = RoleEdgeNode" using assms(1) edge_node_role [of c] by (cases "role c") auto
  then show ?thesis using assms(2) spec_qos_cases [of "topic_message_type topic"]
    by (auto simp: message_request_def spec_retain_iff spec_qos_iff)
qed

text \<open>One turn: a message the client takes is the next of the stream, and one it refuses is not there.\<close>

definition counts :: "client \<Rightarrow> nat \<Rightarrow> bool" where
  "counts c n \<longleftrightarrow> count_at (cl_seq c) example_key = word_of_nat (n - 1) \<and> length (cl_wire c) = n"

lemma counts_drop [simp]: "counts (drop_client c) n = counts c n"
  by (simp add: counts_def drop_client_def)

lemma example_turn:
  fixes refusal :: "'x option"
  assumes law: "reads_seq decode encode" and inv: "in_step decode c" and n: "counts c n" "2 \<le> n"
    and call: "publish_metric encode 0 ''Example'' ''example-node'' ''sensor1'' ''temperature''
      (MetricFloat v) ts id (client_answer_of refusal) c = (result, c1)"
  shows "in_step decode c1 \<and> counts c1 (if refusal = None then Suc n else n) \<and>
    result = Some (case refusal of None \<Rightarrow> Inr () | Some e \<Rightarrow> Inl (Publish e))"
proof -
  let ?t = "ddata sparkplug_b (GroupId ''Example'') (EdgeNodeId ''example-node'') (DeviceId ''sensor1'')"
  let ?ms = "[create_metric ''temperature'' (MetricFloat v) (Timestamp ts)]"
  have node: "edge_node c = Some example_node" and ns: "cl_namespace c = sparkplug_b"
    and free: "holder_at (cl_seq c) example_key = None"
    using inv by (simp_all add: in_step_def)
  have topic: "ddata_topic c ''Example'' ''example-node'' ''sensor1'' = (Inr ?t :: 'x SparkplugError + _)"
    by (simp add: ddata_topic_def ns GroupId_new_def EdgeNodeId_new_def DeviceId_new_def topic_id_new_def
        is_usable_segment_iff)
  have key: "topic_key ?t = Some example_key" and mt: "topic_message_type ?t = DDATA"
    by (simp_all add: ddata_def birth_key_def example_node_def EdgeNode_new_def)
  have wf: "well_formed ?t"
    by (simp add: ddata_def sparkplug_b_def device_topic_well_formed is_usable_segment_iff)
  have on: "publish_metrics_on encode 0 ?t ?ms (Timestamp ts) id (client_answer_of refusal) c = (result, c1)"
    using call by (simp add: publish_metric_def topic Let_def)
  note effect = publish_metrics_on_free [OF key free on]
  have num: "number_for c ?t example_key = word_of_nat n"
    using n by (simp add: number_for_def mt counts_def)
  let ?rq = "message_request c ?t (encode (create_payload ?ms (Timestamp ts) (word_of_nat n)))"
  have "read_for decode example_key ?rq = [nth_reading n]"
    using law wire_reading_message [OF wf key] n(2)
    by (simp add: read_for_def reads_seq_def mt nth_reading_def)
  moreover have "req_qos ?rq = AtMostOnce \<and> \<not> req_retain ?rq"
    by (rule edge_node_request [OF node]) (simp add: mt)
  moreover have "delivery_after c ?t id (client_answer_of refusal) = cl_delivery c"
    by (rule edge_node_untracked [OF node]) (simp add: mt)
  ultimately show ?thesis
    using inv n effect publish_metrics_on_keeps [OF on]
    by (cases refusal) (auto simp: in_step_def counts_def client_answer_of_def num seq_stream_snoc)
qed


text \<open>The turns until the first refusal, or until a clock that reads before the epoch.\<close>

definition taken_turns :: "(int \<times> f64 \<times> 'x option) list \<Rightarrow> nat" where
  "taken_turns turns = length (takeWhile (\<lambda>(clock, _, refusal). 0 \<le> clock \<and> refusal = None) turns)"

lemma example_loop_in_step:
  fixes turns :: "(int \<times> f64 \<times> 'x option) list"
  assumes law: "reads_seq decode encode" and "in_step decode c" and "counts c n" and "2 \<le> n"
    and "example_loop encode turns c = (ended, c')"
  shows "in_step decode c' \<and> counts c' (n + taken_turns turns) \<and>
    (ended = StillRunning \<longleftrightarrow> taken_turns turns = length turns)"
  using assms(2-)
proof (induction turns arbitrary: c n)
  case Nil
  then show ?case by (simp add: taken_turns_def)
next
  case (Cons turn turns)
  obtain clock v refusal where turn: "turn = (clock, v, refusal)" by (cases turn)
  have short: "length (takeWhile P turns) \<noteq> Suc (length turns)" for P :: "int \<times> f64 \<times> 'x option \<Rightarrow> bool"
    using length_takeWhile_le [of P turns] by linarith
  show ?case
  proof (cases "clock < 0")
    case True
    then show ?thesis using Cons.prems
      by (auto simp: turn taken_turns_def)
  next
    case False
    obtain result c1 where call: "publish_metric encode 0 ''Example'' ''example-node'' ''sensor1''
        ''temperature'' (MetricFloat v) (word_of_int (clock div 1000000)) id (client_answer_of refusal) c =
        (result, c1)" by (metis surj_pair)
    note one = example_turn [OF law Cons.prems(1-3) call]
    show ?thesis
    proof (cases refusal)
      case None
      have "example_loop encode turns c1 = (ended, c')"
        using Cons.prems(4) one False by (simp add: turn None call [unfolded None])
      with Cons.IH [of c1 "Suc n"] one Cons.prems(3) False show ?thesis
        by (simp add: turn None taken_turns_def)
    next
      case (Some e)
      then show ?thesis
        using Cons.prems(4) one False
        by (auto simp: turn call [unfolded Some] taken_turns_def)
    qed
  qed
qed

lemma birth_in_step:
  assumes law: "reads_seq decode encode" and node: "edge_node c = Some example_node"
    "cl_namespace c = sparkplug_b" "cl_seq c = SeqCounters_new" "cl_wire c = []"
    "unacked (cl_delivery c) = 0"
    and call: "publish_birth encode party clock (DeviceId ''sensor1'') id (client_answer_of r1) id (client_answer_of r2) c =
      (result, c1)"
  shows "in_step decode c1 \<and>
    length (cl_wire c1) = (if r1 \<noteq> None then 0 else if r2 \<noteq> None then 1 else 2) \<and>
    (r1 = None \<and> r2 = None \<longrightarrow> counts c1 2) \<and>
    result = Some (case (r1, r2) of (None, None) \<Rightarrow> Inr () | (None, Some e) \<Rightarrow> Inl (Publish e)
      | (Some e, _) \<Rightarrow> Inl (Publish e))"
proof -
  let ?nt = "nbirth sparkplug_b (en_group example_node) (en_edge_node_id example_node)"
  let ?dt = "dbirth sparkplug_b (en_group example_node) (en_edge_node_id example_node) (DeviceId ''sensor1'')"
  have free: "holder_at (cl_seq c) example_key = None" using node(3) by simp
  note birth = publish_birth_free [OF node(1) free call]
  have wf: "well_formed ?nt" "well_formed ?dt"
    by (simp_all add: nbirth_def dbirth_def sparkplug_b_def example_node_def EdgeNode_new_def
        node_topic_well_formed device_topic_well_formed is_usable_segment_iff)
  have keys: "topic_key ?nt = Some example_key" "topic_key ?dt = Some example_key"
    "topic_message_type ?nt = NBIRTH" "topic_message_type ?dt = DBIRTH"
    by (simp_all add: nbirth_def dbirth_def birth_key_def)
  have reads: "read_for decode example_key (nbirth_request encode clock c example_node) = [nth_reading 0]"
    "read_for decode example_key (dbirth_request encode clock c example_node (DeviceId ''sensor1'')) =
      [nth_reading 1]"
    using law wire_reading_message [OF wf(1) keys(1)] wire_reading_message [OF wf(2) keys(2)]
    by (simp_all add: read_for_def nbirth_request_def dbirth_request_def reads_seq_def node keys nth_reading_def)
  have wires: "req_qos (nbirth_request encode clock c example_node) = AtMostOnce \<and>
      \<not> req_retain (nbirth_request encode clock c example_node)"
    "req_qos (dbirth_request encode clock c example_node (DeviceId ''sensor1'')) = AtMostOnce \<and>
      \<not> req_retain (dbirth_request encode clock c example_node (DeviceId ''sensor1''))"
    unfolding nbirth_request_def dbirth_request_def
    by (rule edge_node_request [OF node(1)], simp add: keys node)+
  have "unacked (cl_delivery c1) = 0" using publish_birth_untracked [OF node(1) call] node(5) by simp
  then show ?thesis
    using birth publish_birth_keeps [OF call] reads wires node free
    by (cases r1; cases r2) (auto simp: in_step_def counts_def client_answer_of_def seq_stream_def)
qed


lemma loop_run_unacked:
  "unacked st = 0 \<Longrightarrow> unacked (foldl apply_event st es) = 0"
proof (induction es arbitrary: st)
  case Nil
  then show ?case by simp
next
  case (Cons e es)
  have "unacked (apply_event st e) = 0"
    using Cons.prems
    by (cases "(st, e)" rule: apply_event.cases)
       (simp_all add: record_ack_def record_disconnect_def release_one_def saturating_dec_def)
  with Cons.IH show ?case by simp
qed

lemma follow_nth_reading:
  "follow 0 (map nth_reading [0..<n]) = Some (word_of_nat (n - 1))"
proof (induction n)
  case 0
  then show ?case by simp
next
  case (Suc n)
  have "follow (word_of_nat (n - 1)) [nth_reading n] = Some (word_of_nat n)"
    by (cases n) (auto simp: nth_reading_def ac_simps)
  with Suc.IH show ?case by (simp add: follow_append del: follow.simps)
qed


section \<open>Properties\<close>

text \<open>
  C15. The example program numbers what it hands over without a gap: however long it
  runs and whatever its client refuses, the messages its client has taken are an
  NBIRTH with number 0, a DBIRTH with 1 and then readings with 2, 3 and so on, modulo
  256, so a host application that gets all of them reads no gap; what \<open>rumqttc\<close>
  discards when a link ends is not in question here. Every message goes out at QoS 0,
  unretained and uncounted. The client has taken every reading up to the first
  refusal or the first clock before the epoch, and the program is still running
  exactly when there was none.
\<close>

theorem example_counts_on:
  fixes turns :: "(int \<times> f64 \<times> 'x option) list"
  assumes law: "reads_seq decode encode"
    and call: "example_main encode tcp random events waited clock r1 r2 turns = (ended, Some c)"
  shows "seq_stream decode ''Example/example-node'' (cl_wire c) = map nth_reading [0..<length (cl_wire c)] \<and>
    follow 0 (seq_stream decode ''Example/example-node'' (cl_wire c)) =
      Some (word_of_nat (length (cl_wire c) - 1)) \<and>
    (\<forall>rq\<in>set (cl_wire c). req_qos rq = AtMostOnce \<and> \<not> req_retain rq) \<and> client_unacked c = 0 \<and>
    length (cl_wire c) =
      (if r1 \<noteq> None then 0 else if r2 \<noteq> None then 1 else 2 + taken_turns turns) \<and>
    (ended = StillRunning \<longleftrightarrow> r1 = None \<and> r2 = None \<and> taken_turns turns = length turns)"
proof -
  have device: "DeviceId_new ''sensor1'' = (Inr (DeviceId ''sensor1'') :: 'x SparkplugError + DeviceId)"
    by (simp add: is_usable_segment_iff)
  obtain connected where connect: "fst (connect_as_edge_node random (example_config tcp) example_node
      DEFAULT_CONNECT_TIMEOUT events waited) = (Inr connected :: 'x SparkplugError + client)"
    using call by (auto simp: example_main_def example_node_eq split: sum.splits)
  then have start: "edge_node connected = Some example_node" "cl_namespace connected = sparkplug_b"
    "cl_seq connected = SeqCounters_new" "cl_wire connected = []" "unacked (cl_delivery connected) = 0"
    by (auto simp: connect_as_edge_node_def connect_with_def Let_def edge_node_def example_config_def
        sparkplug_b_def loop_run_delivery loop_init_def loop_run_unacked DeliveryTracker_new_def
        split: sum.splits ready_wait.splits)
  obtain result c1 where birth: "publish_birth encode 0 clock (DeviceId ''sensor1'') id (client_answer_of r1)
      id (client_answer_of r2) connected = (result, c1)" by (metis surj_pair)
  note born = birth_in_step [OF law start birth]
  have key: "example_key = ''Example/example-node''"
    by (simp add: birth_key_def example_node_def EdgeNode_new_def key_of_def)
  have "in_step decode c \<and>
    length (cl_wire c) = (if r1 \<noteq> None then 0 else if r2 \<noteq> None then 1 else 2 + taken_turns turns) \<and>
    (ended = StillRunning \<longleftrightarrow> r1 = None \<and> r2 = None \<and> taken_turns turns = length turns)"
  proof (cases "r1 = None \<and> r2 = None")
    case True
    then have none: "r1 = None" "r2 = None" by simp_all
    then have "example_loop encode turns c1 = (ended, c)"
      using call born
      by (simp add: example_main_def example_node_eq connect device birth [unfolded none] Let_def
          split: prod.splits)
    moreover have "in_step decode c1" "counts c1 2" using born none by blast+
    ultimately have "in_step decode c \<and> counts c (2 + taken_turns turns) \<and>
        (ended = StillRunning \<longleftrightarrow> taken_turns turns = length turns)"
      by (intro example_loop_in_step [OF law]) simp_all
    with none show ?thesis by (simp add: counts_def)
  next
    case False
    then obtain e where "result = Some (Inl e)" using born by (cases r1; cases r2) auto
    then have "ended = Returned e" "c = drop_client c1"
      using call by (simp_all add: example_main_def example_node_eq connect device birth)
    moreover have "cl_wire (drop_client c1) = cl_wire c1" by (simp add: drop_client_def)
    ultimately show ?thesis using born False by auto
  qed
  then show ?thesis
    by (auto simp: in_step_def key follow_nth_reading client_unacked_def)
qed

text \<open>Two readings are taken and the third is refused.\<close>

theorem example_counts_on_witness:
  "\<exists>ended c. example_main unary_encode () 7 [Inr (Incoming ConnAck) :: unit polled] ReadySignalled 0 None None
       [(1700000000000000000, 0, None), (1700000030000000000, 0, None), (1700000060000000000, 0, Some ())] =
       (ended, Some c) \<and> ended \<noteq> StillRunning \<and>
     seq_stream unary_decode ''Example/example-node'' (cl_wire c) =
       [(NBIRTH, Some 0), (DBIRTH, Some 1), (DDATA, Some 2), (DDATA, Some 3)]"
proof -
  let ?turns = "[(1700000000000000000, 0, None), (1700000030000000000, 0, None),
    (1700000060000000000, 0, Some ())] :: (int \<times> f64 \<times> unit option) list"
  let ?main = "example_main unary_encode () 7 [Inr (Incoming ConnAck) :: unit polled] ReadySignalled 0
    None None ?turns"
  have "snd ?main \<noteq> None"
    by (simp add: example_main_def example_node_eq connect_as_edge_node_def connect_with_def
        example_config_def Namespace_new_def DeviceId_new_def topic_id_new_def is_usable_segment_iff
        Let_def split_beta split: option.split sum.split)
  then obtain ended c where call: "?main = (ended, Some c)" by (cases ?main) auto
  have two: "taken_turns ?turns = 2" by (simp add: taken_turns_def)
  with example_counts_on [OF unary_reads call] have
    "seq_stream unary_decode ''Example/example-node'' (cl_wire c) = map nth_reading [0..<4]"
    and "ended \<noteq> StillRunning" by simp_all
  moreover have "map nth_reading [0..<4] =
      [(NBIRTH, Some 0), (DBIRTH, Some 1), (DDATA, Some 2), (DDATA, Some 3)]"
    by (simp add: nth_reading_def upt_rec)
  ultimately show ?thesis using call by auto
qed

end
