(* ===== verification/Unit_Tests.thy ===== *)
theory Unit_Tests
  imports Types Topic_Ids Data_Type Payload_Helpers Mqtt_Config Error_Text
    "HOL-Library.Monad_Syntax" "HOL-Library.Sublist"
begin

text \<open>
  The unit tests that stand beside the code, as programs over the model: those of
  \<open>src/sparkplug/types.rs\<close>, \<open>datatype.rs\<close>, \<open>topic/ids.rs\<close>,
  \<open>payload_helpers.rs\<close> and \<open>src/client.rs\<close>. Every test of the repository that
  the model can run holds of it, so the definitions agree with the code on every
  input its authors chose.

  A test is a value of \<open>unit option\<close>, \<open>None\<close> where the Rust test panics: a
  failed assertion, an \<open>unwrap\<close> of an error. Left out are the tests of what the
  model has no say in: the addresses of strings, the clock of the
  host. Tests that encode a payload are in \<open>Unit_Tests_Client\<close>.
\<close>

section \<open>Assertions\<close>

definition check :: "bool \<Rightarrow> unit option" where
  "check b = (if b then Some () else None)"

definition assert_eq :: "'a \<Rightarrow> 'a \<Rightarrow> unit option" where
  "assert_eq a b = check (a = b)"

definition assert_ne :: "'a \<Rightarrow> 'a \<Rightarrow> unit option" where
  "assert_ne a b = check (a \<noteq> b)"

text \<open>\<open>unwrap\<close> and \<open>expect\<close>, and \<open>unwrap_err\<close> and \<open>expect_err\<close>.\<close>

definition unwrap :: "'e + 'a \<Rightarrow> 'a option" where
  "unwrap r = (case r of Inl _ \<Rightarrow> None | Inr x \<Rightarrow> Some x)"

definition unwrap_err :: "'e + 'a \<Rightarrow> 'e option" where
  "unwrap_err r = (case r of Inl e \<Rightarrow> Some e | Inr _ \<Rightarrow> None)"

text \<open>A \<open>for\<close> loop of assertions over a list.\<close>

primrec for_each :: "('a \<Rightarrow> unit option) \<Rightarrow> 'a list \<Rightarrow> unit option" where
  "for_each f [] = Some ()"
| "for_each f (x # xs) = do { f x; for_each f xs }"

definition passes :: "unit option \<Rightarrow> bool" where
  "passes t \<longleftrightarrow> t = Some ()"

lemma check_passes [simp]: "check b = Some () \<longleftrightarrow> b"
  by (simp add: check_def)

lemma assert_passes [simp]:
  "assert_eq a b = Some () \<longleftrightarrow> a = b" "assert_ne a b = Some () \<longleftrightarrow> a \<noteq> b"
  by (simp_all add: assert_eq_def assert_ne_def)

lemma for_each_passes [simp]: "for_each f xs = Some () \<longleftrightarrow> list_all (\<lambda>x. f x = Some ()) xs"
  by (induction xs) (auto simp: bind_eq_Some_conv)

lemma passes_simps [simp]:
  "passes (check c) \<longleftrightarrow> c" "passes (assert_eq a b) \<longleftrightarrow> a = b"
  "passes (s \<bind> (\<lambda>_. t)) \<longleftrightarrow> passes s \<and> passes t"
  by (auto simp: passes_def bind_eq_Some_conv)

lemma unwrap_simps [simp]:
  "unwrap (Inr x) = Some x" "unwrap (Inl e) = None"
  "unwrap_err (Inr x) = None" "unwrap_err (Inl e) = Some e"
  by (simp_all add: unwrap_def unwrap_err_def)


section \<open>Message types and roles\<close>

definition ALL_message_types :: "MessageType list" where
  "ALL_message_types = [NBIRTH, NDATA, NDEATH, DBIRTH, DDATA, DDEATH, NCMD, DCMD, STATE]"

definition message_type_from_str :: "unit option" where
  "message_type_from_str =
     do { mt \<leftarrow> unwrap (from_str ''DDATA'' :: unit SparkplugError + MessageType); assert_eq mt DDATA }"

definition message_type_roundtrip :: "unit option" where
  "message_type_roundtrip =
     for_each (\<lambda>mt. do { parsed \<leftarrow> unwrap (from_str (as_str mt) :: unit SparkplugError + MessageType);
                        assert_eq parsed mt }) ALL_message_types"

definition node_messages_take_the_node_shape :: "unit option" where
  "node_messages_take_the_node_shape =
     for_each (\<lambda>mt. assert_eq (shape mt) ShapeNode) [NBIRTH, NDATA, NDEATH, NCMD]"

definition device_messages_take_the_device_shape :: "unit option" where
  "device_messages_take_the_device_shape =
     for_each (\<lambda>mt. assert_eq (shape mt) ShapeDevice) [DBIRTH, DDATA, DDEATH, DCMD]"

definition state_takes_the_host_shape :: "unit option" where
  "state_takes_the_host_shape = assert_eq (shape STATE) ShapeHost"

definition only_ndeath_and_state_use_qos_one :: "unit option" where
  "only_ndeath_and_state_use_qos_one =
     for_each (\<lambda>mt.
       let expected = (case mt of NDEATH \<Rightarrow> AtLeastOnce | STATE \<Rightarrow> AtLeastOnce | _ \<Rightarrow> AtMostOnce)
       in assert_eq (spec_qos mt) expected) ALL_message_types"

definition a_publisher_client_keeps_qos_one_for_every_message_type :: "unit option" where
  "a_publisher_client_keeps_qos_one_for_every_message_type =
     for_each (\<lambda>mt.
       let options = wire_options RolePublisher mt
       in do { assert_eq (qos options) AtLeastOnce; check (tracked options) }) ALL_message_types"

definition an_edge_node_client_uses_the_qos_the_spec_fixes :: "unit option" where
  "an_edge_node_client_uses_the_qos_the_spec_fixes =
     for_each (\<lambda>mt. assert_eq (qos (wire_options RoleEdgeNode mt)) (spec_qos mt)) ALL_message_types"

definition only_an_acknowledged_message_is_tracked :: "unit option" where
  "only_an_acknowledged_message_is_tracked =
     for_each (\<lambda>role. for_each (\<lambda>mt.
       let options = wire_options role mt
       in assert_eq (tracked options) (qos options = AtLeastOnce)) ALL_message_types)
     [RolePublisher, RoleEdgeNode]"

definition the_retain_flag_follows_the_spec_in_both_roles :: "unit option" where
  "the_retain_flag_follows_the_spec_in_both_roles =
     for_each (\<lambda>role. for_each (\<lambda>mt.
       assert_eq (retain (wire_options role mt)) (spec_retain mt)) ALL_message_types)
     [RolePublisher, RoleEdgeNode]"

definition an_edge_node_client_tracks_nothing_it_can_publish_today :: "unit option" where
  "an_edge_node_client_tracks_nothing_it_can_publish_today =
     for_each (\<lambda>mt. check (\<not> tracked (wire_options RoleEdgeNode mt)))
       [NBIRTH, NDATA, DBIRTH, DDATA, DDEATH, NCMD, DCMD]"

definition only_state_is_retained :: "unit option" where
  "only_state_is_retained =
     for_each (\<lambda>mt. assert_eq (spec_retain mt) (mt = STATE)) ALL_message_types"

definition types_tests :: "unit option list" where
  "types_tests =
     [message_type_from_str, message_type_roundtrip, node_messages_take_the_node_shape,
      device_messages_take_the_device_shape, state_takes_the_host_shape,
      only_ndeath_and_state_use_qos_one, a_publisher_client_keeps_qos_one_for_every_message_type,
      an_edge_node_client_uses_the_qos_the_spec_fixes, only_an_acknowledged_message_is_tracked,
      the_retain_flag_follows_the_spec_in_both_roles,
      an_edge_node_client_tracks_nothing_it_can_publish_today, only_state_is_retained]"

lemma types_tests_pass: "list_all passes types_tests"
  by code_simp


section \<open>Datatypes\<close>

definition ALL_datatypes :: "DataType list" where
  "ALL_datatypes =
     [DT_Int8, DT_Int16, DT_Int32, DT_Int64, DT_UInt8, DT_UInt16, DT_UInt32, DT_UInt64, DT_Float,
      DT_Double, DT_Boolean, DT_String, DT_DateTime, DT_Text, DT_Uuid, DT_DataSet, DT_Bytes, DT_File,
      DT_Template, DT_PropertySet, DT_PropertySetList]"

definition every_datatype_survives_the_round_trip :: "unit option" where
  "every_datatype_survives_the_round_trip =
     for_each (\<lambda>datatype. assert_eq (from_code (code datatype)) (Some datatype)) ALL_datatypes"

primrec no_two_share :: "DataType list \<Rightarrow> unit option" where
  "no_two_share [] = Some ()"
| "no_two_share (datatype # others) =
     do { for_each (\<lambda>other. assert_ne (code datatype) (code other)) others; no_two_share others }"

definition no_two_datatypes_share_a_code :: "unit option" where
  "no_two_datatypes_share_a_code = no_two_share ALL_datatypes"

definition the_codes_match_the_specification :: "unit option" where
  "the_codes_match_the_specification =
     do { assert_eq (code DT_Int8) 1; assert_eq (code DT_Int64) 4; assert_eq (code DT_UInt64) 8;
          assert_eq (code DT_Float) 9; assert_eq (code DT_Double) 10; assert_eq (code DT_Boolean) 11;
          assert_eq (code DT_String) 12; assert_eq (code DT_PropertySetList) 21 }"

definition unknown_is_not_a_datatype :: "unit option" where
  "unknown_is_not_a_datatype = assert_eq (from_code 0) None"

definition a_code_outside_the_table_is_rejected :: "unit option" where
  "a_code_outside_the_table_is_rejected =
     for_each (\<lambda>c. assert_eq (from_code c) None) [22, 31, 99, u32_max]"

definition datatype_tests :: "unit option list" where
  "datatype_tests =
     [every_datatype_survives_the_round_trip, no_two_datatypes_share_a_code,
      the_codes_match_the_specification, unknown_is_not_a_datatype,
      a_code_outside_the_table_is_rejected]"

lemma datatype_tests_pass: "list_all passes datatype_tests"
  by code_simp


section \<open>Checked identifiers\<close>

definition new_group :: "string \<Rightarrow> GroupId option" where
  "new_group v = unwrap (GroupId_new v :: unit SparkplugError + GroupId)"

definition new_node :: "string \<Rightarrow> EdgeNodeId option" where
  "new_node v = unwrap (EdgeNodeId_new v :: unit SparkplugError + EdgeNodeId)"

definition message_of :: "(unit SparkplugError + 'a) \<Rightarrow> string option" where
  "message_of r = map_option (error_text (\<lambda>_. [])) (unwrap_err r)"

definition is_err :: "'e + 'a \<Rightarrow> bool" where
  "is_err r = (case r of Inl _ \<Rightarrow> True | Inr _ \<Rightarrow> False)"

definition a_usable_segment_is_accepted :: "unit option" where
  "a_usable_segment_is_accepted =
     do { g \<leftarrow> new_group ''PlantFloor''; assert_eq (GroupId_as_str g) ''PlantFloor'';
          n \<leftarrow> new_node ''edge-1''; assert_eq (EdgeNodeId_as_str n) ''edge-1'';
          d \<leftarrow> unwrap (DeviceId_new ''pump_3'' :: unit SparkplugError + DeviceId);
          assert_eq (DeviceId_as_str d) ''pump_3'';
          h \<leftarrow> unwrap (HostId_new ''scada_1'' :: unit SparkplugError + HostId);
          assert_eq (HostId_as_str h) ''scada_1'' }"

definition an_unusable_segment_is_rejected :: "unit option" where
  "an_unusable_segment_is_rejected =
     for_each (\<lambda>bad.
       do { check (is_err (GroupId_new bad :: unit SparkplugError + GroupId));
            check (is_err (EdgeNodeId_new bad :: unit SparkplugError + EdgeNodeId));
            check (is_err (DeviceId_new bad :: unit SparkplugError + DeviceId));
            check (is_err (HostId_new bad :: unit SparkplugError + HostId)) })
       [[], ''a/b'', ''a+b'', ''a#b'']"

definition the_error_names_which_identifier_failed :: "unit option" where
  "the_error_names_which_identifier_failed =
     do { message \<leftarrow> message_of (DeviceId_new ''pump/3'');
          check (sublist ''device id'' message);
          message \<leftarrow> message_of (EdgeNodeId_new []);
          check (sublist ''edge node id'' message) }"

definition try_from_and_display_agree_with_new :: "unit option" where
  "try_from_and_display_agree_with_new =
     do { g \<leftarrow> unwrap (GroupId_try_from ''PlantFloor'' :: unit SparkplugError + GroupId);
          other \<leftarrow> new_group ''PlantFloor'';
          assert_eq g other;
          assert_eq (GroupId_to_string g) ''PlantFloor'';
          assert_eq (GroupId_as_ref g) ''PlantFloor'' }"

definition an_edge_node_keeps_its_two_segments_apart :: "unit option" where
  "an_edge_node_keeps_its_two_segments_apart =
     do { g \<leftarrow> new_group ''PlantFloor''; n \<leftarrow> new_node ''edge_node_1'';
          let edge_node = EdgeNode_new g n;
          assert_eq (GroupId_as_str (en_group edge_node)) ''PlantFloor'';
          assert_eq (EdgeNodeId_as_str (en_edge_node_id edge_node)) ''edge_node_1'' }"

definition one_edge_node_id_in_two_groups_names_two_edge_nodes :: "unit option" where
  "one_edge_node_id_in_two_groups_names_two_edge_nodes =
     do { edge_node_id \<leftarrow> new_node ''edge1'';
          plant_group \<leftarrow> new_group ''PlantFloor'';
          let plant = EdgeNode_new plant_group edge_node_id;
          boiler_group \<leftarrow> new_group ''Boiler'';
          let boiler = EdgeNode_new boiler_group edge_node_id;
          assert_ne plant boiler }"

definition an_owned_edge_node_hands_back_the_pair_it_took :: "unit option" where
  "an_owned_edge_node_hands_back_the_pair_it_took =
     do { g \<leftarrow> new_group ''PlantFloor''; n \<leftarrow> new_node ''edge_node_1'';
          let borrowed = EdgeNode_new g n;
          let owned = to_owned borrowed;
          assert_eq (of_owned owned) borrowed }"

definition an_owned_edge_node_outlives_the_strings_it_was_built_from :: "unit option" where
  "an_owned_edge_node_outlives_the_strings_it_was_built_from =
     do { g \<leftarrow> new_group ''PlantFloor''; n \<leftarrow> new_node ''edge_node_1'';
          let owned = to_owned (EdgeNode_new g n);
          assert_eq (GroupId_as_str (en_group (of_owned owned))) ''PlantFloor'';
          assert_eq (EdgeNodeId_as_str (en_edge_node_id (of_owned owned))) ''edge_node_1'' }"

definition ids_tests :: "unit option list" where
  "ids_tests =
     [a_usable_segment_is_accepted, an_unusable_segment_is_rejected,
      the_error_names_which_identifier_failed, try_from_and_display_agree_with_new,
      an_edge_node_keeps_its_two_segments_apart,
      one_edge_node_id_in_two_groups_names_two_edge_nodes,
      an_owned_edge_node_hands_back_the_pair_it_took,
      an_owned_edge_node_outlives_the_strings_it_was_built_from]"

lemma ids_tests_pass: "list_all passes ids_tests"
  by code_simp


section \<open>Payload builders\<close>

definition AT :: Timestamp where
  "AT = Timestamp 1700000000000"

text \<open>The doubles 42.5 and 1.0.\<close>

definition create_metric_float :: "unit option" where
  "create_metric_float =
     (let m = create_metric ''temp'' (MetricFloat 0x4045400000000000) AT
      in do { assert_eq (metric_value m) (Some (DoubleValue 0x4045400000000000));
              assert_eq (metric_datatype m) (Some (code DT_Double)) })"

definition create_metric_string :: "unit option" where
  "create_metric_string =
     (let m = create_metric ''mode'' (MetricString ''AUTO'') AT
      in do { assert_eq (metric_value m) (Some (StringValue ''AUTO''));
              assert_eq (metric_datatype m) (Some (code DT_String)) })"

definition create_metric_bool :: "unit option" where
  "create_metric_bool =
     (let m = create_metric ''active'' (MetricBool True) AT
      in do { assert_eq (metric_value m) (Some (BooleanValue True));
              assert_eq (metric_datatype m) (Some (code DT_Boolean)) })"

definition create_metric_int :: "unit option" where
  "create_metric_int =
     (let m = create_metric ''count'' (MetricInt 99) AT
      in do { assert_eq (metric_value m) (Some (LongValue 99));
              assert_eq (metric_datatype m) (Some (code DT_UInt64)) })"

definition create_metric_stamps_the_instant_the_caller_states :: "unit option" where
  "create_metric_stamps_the_instant_the_caller_states =
     assert_eq (metric_timestamp (create_metric ''temp'' (MetricFloat 0x3FF0000000000000) AT))
       (Some 1700000000000)"

definition create_payload_uses_the_instant_the_caller_states :: "unit option" where
  "create_payload_uses_the_instant_the_caller_states =
     assert_eq (payload_timestamp (create_payload [] AT 1)) (Some 1700000000000)"

definition a_birth_certificate_stamps_its_payload_and_its_metric_alike :: "unit option" where
  "a_birth_certificate_stamps_its_payload_and_its_metric_alike =
     for_each (\<lambda>payload.
       do { assert_eq (payload_timestamp payload) (Some (millis AT));
            first \<leftarrow> get (payload_metrics payload) 0;
            assert_eq (metric_timestamp first) (Some (millis AT)) })
       [create_birth_certificate AT 0, create_device_birth_certificate AT 1]"

definition create_birth_certificate_is_infallible :: "unit option" where
  "create_birth_certificate_is_infallible =
     (let p = create_birth_certificate AT 0
      in do { assert_eq (payload_seq p) (Some 0); assert_eq (length (payload_metrics p)) 1 })"

definition every_builder_writes_the_seq_the_caller_states :: "unit option" where
  "every_builder_writes_the_seq_the_caller_states =
     do { assert_eq (payload_seq (create_payload [] AT 7)) (Some 7);
          assert_eq (payload_seq (create_birth_certificate AT 0)) (Some 0);
          assert_eq (payload_seq (create_device_birth_certificate AT 1)) (Some 1) }"

definition payload_helpers_tests :: "unit option list" where
  "payload_helpers_tests =
     [create_metric_float, create_metric_string, create_metric_bool, create_metric_int,
      create_metric_stamps_the_instant_the_caller_states,
      create_payload_uses_the_instant_the_caller_states,
      a_birth_certificate_stamps_its_payload_and_its_metric_alike,
      create_birth_certificate_is_infallible, every_builder_writes_the_seq_the_caller_states]"

lemma payload_helpers_tests_pass: "list_all passes payload_helpers_tests"
  by code_simp


section \<open>The connection options\<close>

text \<open>
  The test configuration, with \<open>Transport::Tcp\<close> as the argument \<open>tcp\<close>. The
  tests that draw a client id hold whatever number they draw.
\<close>

definition test_config :: "'t \<Rightarrow> 't MqttConfig" where
  "test_config tcp =
     \<lparr>broker_url = ''localhost'', broker_port = 1883, transport = tcp, username = [], password = [],
      client_id = None, version = ''spBv1.0''\<rparr>"

definition mqtt_config_construction :: "'t \<Rightarrow> unit option" where
  "mqtt_config_construction tcp =
     do { assert_eq (broker_port (test_config tcp)) 1883;
          assert_eq (version (test_config tcp)) ''spBv1.0'' }"

text \<open>\<open>u32::from_str_radix(s, 16).is_ok()\<close>.\<close>

definition hex_digit_value :: "char \<Rightarrow> nat option" where
  "hex_digit_value c =
     (let n = of_char c :: nat
      in if 48 \<le> n \<and> n \<le> 57 then Some (n - 48)
         else if 97 \<le> n \<and> n \<le> 102 then Some (n - 87)
         else if 65 \<le> n \<and> n \<le> 70 then Some (n - 55)
         else None)"

primrec hex_value :: "nat \<Rightarrow> string \<Rightarrow> nat option" where
  "hex_value acc [] = Some acc"
| "hex_value acc (c # cs) = do { d \<leftarrow> hex_digit_value c; hex_value (16 * acc + d) cs }"

definition reads_as_hex :: "string \<Rightarrow> bool" where
  "reads_as_hex s =
     (let digits = (case s of [] \<Rightarrow> [] | c # cs \<Rightarrow> if c = CHR ''+'' then cs else s)
      in digits \<noteq> [] \<and>
         (case hex_value 0 digits of None \<Rightarrow> False | Some n \<Rightarrow> n < 2 ^ 32))"

definition client_id_format :: "u32 \<Rightarrow> unit option" where
  "client_id_format random =
     (let v = generate_client_id ''spBv1.0'' random
      in do { check (prefix ''spBv1.0_'' v);
              let suffix = last (split_on CHR ''_'' v);
              assert_eq (length suffix) 8;
              check (reads_as_hex suffix) })"

definition mqtt_config_debug_redacts_password :: "'t \<Rightarrow> unit option" where
  "mqtt_config_debug_redacts_password tcp =
     (let config = (test_config tcp)\<lparr>username := ''admin'', password := ''super_secret_password''\<rparr>;
          debug_output = debug_config config
      in do { check (sublist ''[REDACTED]'' debug_output);
              check (\<not> sublist ''super_secret_password'' debug_output);
              check (sublist ''localhost'' debug_output) })"

definition sparkplug_requires_a_clean_session :: "'t \<Rightarrow> u32 \<Rightarrow> unit option" where
  "sparkplug_requires_a_clean_session tcp random =
     check (opt_clean_session (mqtt_options random (test_config tcp)))"

definition the_options_carry_the_generated_client_id :: "'t \<Rightarrow> u32 \<Rightarrow> unit option" where
  "the_options_carry_the_generated_client_id tcp random =
     check (prefix ''spBv1.0_'' (opt_client_id (mqtt_options random (test_config tcp))))"

definition the_options_carry_the_client_id_the_caller_gives :: "'t \<Rightarrow> u32 \<Rightarrow> unit option" where
  "the_options_carry_the_client_id_the_caller_gives tcp random =
     (let config = (test_config tcp)\<lparr>client_id := Some ''stax-publisher-7''\<rparr>
      in assert_eq (opt_client_id (mqtt_options random config)) ''stax-publisher-7'')"

definition mqtt_tests :: "'t \<Rightarrow> u32 \<Rightarrow> unit option list" where
  "mqtt_tests tcp random =
     [mqtt_config_construction tcp, client_id_format random, mqtt_config_debug_redacts_password tcp,
      sparkplug_requires_a_clean_session tcp random,
      the_options_carry_the_generated_client_id tcp random,
      the_options_carry_the_client_id_the_caller_gives tcp random]"

lemma hex_value_Some:
  assumes "set s \<subseteq> set ''0123456789abcdef''"
  shows "\<exists>n. hex_value acc s = Some n \<and> n < (acc + 1) * 16 ^ length s"
  using assms
proof (induction s arbitrary: acc)
  case Nil
  then show ?case by simp
next
  case (Cons c s)
  have "\<exists>d. hex_digit_value c = Some d \<and> d < 16"
    using Cons.prems by (auto simp: hex_digit_value_def)
  then obtain d where d: "hex_digit_value c = Some d" "d < 16" by blast
  obtain n where n: "hex_value (16 * acc + d) s = Some n" "n < (16 * acc + d + 1) * 16 ^ length s"
    using Cons.IH [of "16 * acc + d"] Cons.prems by auto
  note n(2)
  also have "(16 * acc + d + 1) * 16 ^ length s \<le> (16 * (acc + 1)) * 16 ^ length s"
    using d(2) by (intro mult_right_mono) simp_all
  finally have "n < (acc + 1) * 16 ^ length (c # s)" by (simp only: mult_ac power_Suc list.size(4) add_Suc_right add_0_right)
  with n(1) d(1) show ?case by (auto simp only: hex_value.simps bind.bind_lunit)
qed

lemma client_id_format_passes: "passes (client_id_format random)"
proof -
  define digits where "digits = hex_digits 8 (unat random)"
  have id: "generate_client_id ''spBv1.0'' random = ''spBv1.0'' @ ''_'' @ digits"
    by (simp add: generate_client_id_def digits_def)
  have charset: "set digits \<subseteq> set ''0123456789abcdef''"
    unfolding digits_def by (rule hex_digits_charset)
  then have plain: "CHR ''_'' \<notin> set digits" "CHR ''+'' \<notin> set digits" by auto
  have split: "split_on CHR ''_'' (''spBv1.0'' @ CHR ''_'' # digits) = [''spBv1.0'', digits]"
    using plain(1) by (subst split_on_append) (simp_all add: split_on_absent)
  have "length digits = 8" by (simp add: digits_def)
  moreover have "reads_as_hex digits"
  proof -
    have "(case digits of [] \<Rightarrow> [] | c # cs \<Rightarrow> if c = CHR ''+'' then cs else digits) = digits"
      using plain(2) by (auto split: list.split)
    moreover have "digits \<noteq> []" using \<open>length digits = 8\<close> by auto
    moreover obtain n where "hex_value 0 digits = Some n" "n < 16 ^ length digits"
      using hex_value_Some [OF charset, of 0] by auto
    ultimately show ?thesis using \<open>length digits = 8\<close> by (simp add: reads_as_hex_def)
  qed
  ultimately show ?thesis
    using split by (simp add: passes_def client_id_format_def id bind_eq_Some_conv)
qed

lemma mqtt_tests_pass: "list_all passes (mqtt_tests tcp random)"
proof -
  have "passes (mqtt_config_debug_redacts_password ())" by code_simp
  moreover have "mqtt_config_debug_redacts_password tcp = mqtt_config_debug_redacts_password ()"
    by (simp add: mqtt_config_debug_redacts_password_def debug_config_def test_config_def)
  moreover have "generate_client_id ''spBv1.0'' random = ''spBv1.0_'' @ hex_digits 8 (unat random)"
    by (simp add: generate_client_id_def)
  ultimately show ?thesis
    by (simp add: mqtt_tests_def client_id_format_passes mqtt_config_construction_def
        sparkplug_requires_a_clean_session_def
        the_options_carry_the_generated_client_id_def
        the_options_carry_the_client_id_the_caller_gives_def mqtt_options_def Let_def test_config_def)
qed

end
