(* ===== verification/Unit_Tests_State.thy ===== *)
theory Unit_Tests_State
  imports Unit_Tests Delivery Seq Metric_Reading
begin

text \<open>
  The unit tests beside the stateful code, \<open>src/sparkplug/delivery.rs\<close> and
  \<open>src/sparkplug/seq.rs\<close>, and those of the readers in \<open>src/payload.rs\<close>, as
  programs over the model. A test threads the state of the tracker or of the
  counters through its calls. Each of them runs alone, so nothing happens between
  the two sections of a flush except what the test itself does.
\<close>

section \<open>The delivery tracker\<close>

text \<open>
  \<open>flush\<close> with nothing beside it: it drains at once if nothing is outstanding,
  and its timeout ends it otherwise.
\<close>

definition flush_alone :: "duration \<Rightarrow> State \<Rightarrow> (unit SparkplugError + unit) \<times> State" where
  "flush_alone timeout st = flush timeout id (if drained_now st then Inr () else Inl ()) st"

definition a_publish_is_unacked_until_the_broker_answers :: "unit option" where
  "a_publish_is_unacked_until_the_broker_answers =
     (let (_, tracker) = record_publish DeliveryTracker_new;
          (_, tracker) = record_publish tracker
      in do { assert_eq (unacked tracker) 2;
              let tracker = record_ack tracker;
              assert_eq (unacked tracker) 1 })"

definition an_ack_with_nothing_outstanding_does_not_underflow :: "unit option" where
  "an_ack_with_nothing_outstanding_does_not_underflow =
     assert_eq (unacked (record_ack DeliveryTracker_new)) 0"

definition a_disconnect_with_nothing_outstanding_loses_nothing :: "unit option" where
  "a_disconnect_with_nothing_outstanding_loses_nothing =
     assert_eq (unacked (record_disconnect DeliveryTracker_new)) 0"

definition flush_succeeds_once_every_publish_is_acked :: "unit option" where
  "flush_succeeds_once_every_publish_is_acked =
     (let (_, tracker) = record_publish DeliveryTracker_new;
          tracker = record_ack tracker
      in unwrap (fst (flush_alone (from_millis 50) tracker)))"

definition flush_reports_publishes_lost_to_a_disconnect :: "unit option" where
  "flush_reports_publishes_lost_to_a_disconnect =
     (let (_, tracker) = record_publish DeliveryTracker_new;
          (_, tracker) = record_publish tracker;
          tracker = record_disconnect tracker
      in do { err \<leftarrow> unwrap_err (fst (flush_alone (from_millis 50) tracker));
              assert_eq err (PublishLost 2) })"

definition flush_clears_the_loss_so_the_next_flush_is_clean :: "unit option" where
  "flush_clears_the_loss_so_the_next_flush_is_clean =
     (let (_, tracker) = record_publish DeliveryTracker_new;
          tracker = record_disconnect tracker;
          (_, tracker) = flush_alone (from_millis 50) tracker
      in unwrap (fst (flush_alone (from_millis 50) tracker)))"

definition a_refused_publish_rolls_the_count_back :: "unit option" where
  "a_refused_publish_rolls_the_count_back =
     (let (ticket, tracker) = record_publish DeliveryTracker_new;
          tracker = record_publish_failed ticket tracker
      in assert_eq (unacked tracker) 0)"

definition a_dropped_guard_releases_the_count_and_a_kept_one_does_not :: "unit option" where
  "a_dropped_guard_releases_the_count_and_a_kept_one_does_not =
     (let (guard, tracker) = publish_in_flight DeliveryTracker_new;
          tracker = drop_in_flight guard tracker
      in do { assert_eq (unacked tracker) 0;
              let (guard, tracker) = publish_in_flight tracker;
              let tracker = keep_in_flight guard tracker;
              assert_eq (unacked tracker) 1 })"

definition a_refusal_after_a_disconnect_rolls_back_nothing :: "unit option" where
  "a_refusal_after_a_disconnect_rolls_back_nothing =
     (let (ticket, tracker) = record_publish DeliveryTracker_new;
          tracker = record_disconnect tracker;
          (_, tracker) = record_publish tracker;
          tracker = record_publish_failed ticket tracker
      in assert_eq (unacked tracker) 1)"

definition a_refusal_after_a_disconnect_still_reports_the_loss :: "unit option" where
  "a_refusal_after_a_disconnect_still_reports_the_loss =
     (let (ticket, tracker) = record_publish DeliveryTracker_new;
          tracker = record_disconnect tracker;
          tracker = record_publish_failed ticket tracker
      in do { err \<leftarrow> unwrap_err (fst (flush_alone (from_millis 50) tracker));
              assert_eq err (PublishLost 1) })"

text \<open>
  Both flushes open, the disconnect lands, and each closes in its turn, since
  nothing is outstanding any more.
\<close>

definition two_overlapping_flushes_both_learn_about_the_same_loss :: "unit option" where
  "two_overlapping_flushes_both_learn_about_the_same_loss =
     (let (_, tracker) = record_publish DeliveryTracker_new;
          first_opened = flush_open tracker;
          second_opened = flush_open tracker;
          tracker = record_disconnect tracker
      in do { check (drained_now tracker);
              let (first, tracker) = flush_close (from_secs 1) first_opened (Inr ()) tracker;
              let (second, tracker) = flush_close (from_secs 1) second_opened (Inr ()) tracker;
              for_each (\<lambda>flush :: unit SparkplugError + unit.
                  do { err \<leftarrow> unwrap_err flush; assert_eq err (PublishLost 1) }) [first, second] })"

definition a_flush_that_starts_after_the_report_stays_clean :: "unit option" where
  "a_flush_that_starts_after_the_report_stays_clean =
     (let (_, tracker) = record_publish DeliveryTracker_new;
          tracker = record_disconnect tracker;
          (_, tracker) = flush_alone (from_millis 50) tracker
      in unwrap (fst (flush_alone (from_millis 50) tracker)))"

definition flush_times_out_while_the_broker_stays_silent :: "unit option" where
  "flush_times_out_while_the_broker_stays_silent =
     (let (_, tracker) = record_publish DeliveryTracker_new
      in do { err \<leftarrow> unwrap_err (fst (flush_alone (from_millis 20) tracker));
              check (case err of FlushTimeout _ n \<Rightarrow> n = 1 | _ \<Rightarrow> False) })"

definition delivery_tests :: "unit option list" where
  "delivery_tests =
     [a_publish_is_unacked_until_the_broker_answers,
      an_ack_with_nothing_outstanding_does_not_underflow,
      a_disconnect_with_nothing_outstanding_loses_nothing,
      flush_succeeds_once_every_publish_is_acked, flush_reports_publishes_lost_to_a_disconnect,
      flush_clears_the_loss_so_the_next_flush_is_clean, a_refused_publish_rolls_the_count_back,
      a_dropped_guard_releases_the_count_and_a_kept_one_does_not,
      a_refusal_after_a_disconnect_rolls_back_nothing,
      a_refusal_after_a_disconnect_still_reports_the_loss,
      two_overlapping_flushes_both_learn_about_the_same_loss,
      a_flush_that_starts_after_the_report_stays_clean,
      flush_times_out_while_the_broker_stays_silent]"

lemmas delivery_test_defs =
  a_publish_is_unacked_until_the_broker_answers_def
  an_ack_with_nothing_outstanding_does_not_underflow_def
  a_disconnect_with_nothing_outstanding_loses_nothing_def
  flush_succeeds_once_every_publish_is_acked_def flush_reports_publishes_lost_to_a_disconnect_def
  flush_clears_the_loss_so_the_next_flush_is_clean_def a_refused_publish_rolls_the_count_back_def
  a_dropped_guard_releases_the_count_and_a_kept_one_does_not_def
  a_refusal_after_a_disconnect_rolls_back_nothing_def
  a_refusal_after_a_disconnect_still_reports_the_loss_def
  two_overlapping_flushes_both_learn_about_the_same_loss_def
  a_flush_that_starts_after_the_report_stays_clean_def
  flush_times_out_while_the_broker_stays_silent_def

lemma delivery_tests_pass: "list_all passes delivery_tests"
  by (simp add: passes_def delivery_tests_def delivery_test_defs tracker_defs flush_alone_def flush_def
      drained_now_def to_u32_saturating_def saturating_dec_def Let_def bind_eq_Some_conv)


section \<open>The sequence counters\<close>

text \<open>
  The helpers \<open>drawn\<close> and \<open>restarted\<close>: \<open>None\<close> is a reservation that waits. The
  test is one task, the party 0.
\<close>

definition drawn :: "seq_counters \<Rightarrow> GroupId \<Rightarrow> EdgeNodeId \<Rightarrow> (u8 \<times> seq_counters) option" where
  "drawn counters g n =
     (case reserve 0 g n counters of
        (None, _) \<Rightarrow> None
      | (Some reservation, counters) \<Rightarrow>
          Some (deref reservation counters, commit reservation counters))"

definition restarted :: "seq_counters \<Rightarrow> GroupId \<Rightarrow> EdgeNodeId \<Rightarrow> (u8 \<times> seq_counters) option" where
  "restarted counters g n =
     (case reserve_reset 0 g n counters of
        (None, _) \<Rightarrow> None
      | (Some reservation, counters) \<Rightarrow>
          Some (deref reservation counters, commit reservation counters))"

text \<open>The loops of the tests: \<open>i\<close> numbers drawn one after the other.\<close>

primrec draws ::
    "nat \<Rightarrow> seq_counters \<Rightarrow> GroupId \<Rightarrow> EdgeNodeId \<Rightarrow> (u8 list \<times> seq_counters) option" where
  "draws 0 counters g n = Some ([], counters)"
| "draws (Suc i) counters g n =
     do { (count, counters) \<leftarrow> drawn counters g n;
          (counts, counters) \<leftarrow> draws i counters g n;
          Some (count # counts, counters) }"

definition the_first_message_of_an_unseen_edge_node_reads_one :: "unit option" where
  "the_first_message_of_an_unseen_edge_node_reads_one =
     do { plant \<leftarrow> new_group ''PlantFloor''; edge1 \<leftarrow> new_node ''edge1'';
          (count, _) \<leftarrow> drawn SeqCounters_new plant edge1;
          assert_eq count 1 }"

definition each_message_adds_one :: "unit option" where
  "each_message_adds_one =
     do { plant \<leftarrow> new_group ''PlantFloor''; edge1 \<leftarrow> new_node ''edge1'';
          (counts, _) \<leftarrow> draws 3 SeqCounters_new plant edge1;
          assert_eq counts [1, 2, 3] }"

definition a_reset_starts_the_count_at_zero :: "unit option" where
  "a_reset_starts_the_count_at_zero =
     do { plant \<leftarrow> new_group ''PlantFloor''; edge1 \<leftarrow> new_node ''edge1'';
          (_, counters) \<leftarrow> drawn SeqCounters_new plant edge1;
          (count, counters) \<leftarrow> restarted counters plant edge1;
          assert_eq count 0;
          (count, _) \<leftarrow> drawn counters plant edge1;
          assert_eq count 1 }"

definition each_edge_node_holds_its_own_count :: "unit option" where
  "each_edge_node_holds_its_own_count =
     do { plant \<leftarrow> new_group ''PlantFloor''; edge1 \<leftarrow> new_node ''edge1''; edge2 \<leftarrow> new_node ''edge2'';
          (_, counters) \<leftarrow> drawn SeqCounters_new plant edge1;
          (_, counters) \<leftarrow> drawn counters plant edge1;
          (count, counters) \<leftarrow> drawn counters plant edge2;
          assert_eq count 1;
          (count, _) \<leftarrow> drawn counters plant edge1;
          assert_eq count 3 }"

definition the_same_node_id_in_two_groups_counts_apart :: "unit option" where
  "the_same_node_id_in_two_groups_counts_apart =
     do { plant \<leftarrow> new_group ''PlantFloor''; boiler \<leftarrow> new_group ''Boiler''; edge1 \<leftarrow> new_node ''edge1'';
          (_, counters) \<leftarrow> drawn SeqCounters_new plant edge1;
          (_, counters) \<leftarrow> drawn counters plant edge1;
          (count, counters) \<leftarrow> drawn counters boiler edge1;
          assert_eq count 1;
          (count, _) \<leftarrow> drawn counters plant edge1;
          assert_eq count 3 }"

definition a_reset_moves_one_edge_node_only :: "unit option" where
  "a_reset_moves_one_edge_node_only =
     do { plant \<leftarrow> new_group ''PlantFloor''; boiler \<leftarrow> new_group ''Boiler'';
          edge1 \<leftarrow> new_node ''edge1''; edge2 \<leftarrow> new_node ''edge2'';
          (_, counters) \<leftarrow> drawn SeqCounters_new plant edge1;
          (_, counters) \<leftarrow> drawn counters plant edge2;
          (_, counters) \<leftarrow> drawn counters boiler edge1;
          (_, counters) \<leftarrow> restarted counters plant edge1;
          (count, counters) \<leftarrow> drawn counters plant edge2;
          assert_eq count 2;
          (count, _) \<leftarrow> drawn counters boiler edge1;
          assert_eq count 2 }"

definition the_count_wraps_from_255_to_zero_without_panicking :: "unit option" where
  "the_count_wraps_from_255_to_zero_without_panicking =
     do { plant \<leftarrow> new_group ''PlantFloor''; edge1 \<leftarrow> new_node ''edge1'';
          (count, counters) \<leftarrow> restarted SeqCounters_new plant edge1;
          assert_eq count 0;
          (counts, _) \<leftarrow> draws 256 counters plant edge1;
          assert_eq (last (0 # counts)) 0 }"

definition a_dropped_reservation_leaves_its_number_for_the_next_message :: "unit option" where
  "a_dropped_reservation_leaves_its_number_for_the_next_message =
     do { plant \<leftarrow> new_group ''PlantFloor''; edge1 \<leftarrow> new_node ''edge1'';
          (_, counters) \<leftarrow> drawn SeqCounters_new plant edge1;
          let (held, counters) = reserve 0 plant edge1 counters;
          reservation \<leftarrow> held;
          let counters = drop_reservation reservation counters;
          (count, _) \<leftarrow> drawn counters plant edge1;
          assert_eq count 2 }"

text \<open>A reservation that completes does so before the timeout of the test.\<close>

definition one_edge_node_does_not_wait_behind_another :: "unit option" where
  "one_edge_node_does_not_wait_behind_another =
     do { plant \<leftarrow> new_group ''PlantFloor''; edge1 \<leftarrow> new_node ''edge1''; edge2 \<leftarrow> new_node ''edge2'';
          let (held, counters) = reserve 0 plant edge1 SeqCounters_new;
          held \<leftarrow> held;
          let (other, counters) = reserve 1 plant edge2 counters;
          check (other \<noteq> None) }"

definition seq_tests :: "unit option list" where
  "seq_tests =
     [the_first_message_of_an_unseen_edge_node_reads_one, each_message_adds_one,
      a_reset_starts_the_count_at_zero, each_edge_node_holds_its_own_count,
      the_same_node_id_in_two_groups_counts_apart, a_reset_moves_one_edge_node_only,
      the_count_wraps_from_255_to_zero_without_panicking,
      a_dropped_reservation_leaves_its_number_for_the_next_message,
      one_edge_node_does_not_wait_behind_another]"

lemma drawn_free:
  assumes "holder_at m (key_of g n) = None"
  shows "\<exists>m'. drawn m g n = Some (count_at m (key_of g n) + 1, m') \<and>
    count_at m' (key_of g n) = count_at m (key_of g n) + 1 \<and> holder_at m' (key_of g n) = None"
  using assms
  by (simp add: drawn_def reserve_draw_key draw_key_def deref_def commit_def drop_reservation_def
      Let_def)

lemma draws_count:
  assumes "holder_at m (key_of g n) = None"
  shows "\<exists>m'. draws i m g n =
    Some (map (\<lambda>j. count_at m (key_of g n) + word_of_nat j + 1) [0..<i], m')"
  using assms
proof (induction i arbitrary: m)
  case 0
  then show ?case by simp
next
  case (Suc i)
  obtain m' where m': "drawn m g n = Some (count_at m (key_of g n) + 1, m')"
    "count_at m' (key_of g n) = count_at m (key_of g n) + 1" "holder_at m' (key_of g n) = None"
    using drawn_free [OF Suc.prems] by blast
  have "[0..<Suc i] = 0 # map Suc [0..<i]" by (simp add: map_Suc_upt upt_conv_Cons)
  then show ?case
    using Suc.IH [OF m'(3)] m'(1,2) by (auto simp: comp_def algebra_simps)
qed

lemma wrap_test_passes: "passes the_count_wraps_from_255_to_zero_without_panicking"
proof -
  let ?k = "key_of (GroupId ''PlantFloor'') (EdgeNodeId ''edge1'')"
  have names: "new_group ''PlantFloor'' = Some (GroupId ''PlantFloor'')"
    "new_node ''edge1'' = Some (EdgeNodeId ''edge1'')" by code_simp+
  obtain m where m: "restarted SeqCounters_new (GroupId ''PlantFloor'') (EdgeNodeId ''edge1'') = Some (0, m)"
    "count_at m ?k = 0" "holder_at m ?k = None"
    by (simp add: restarted_def reserve_draw_key draw_key_def deref_def commit_def drop_reservation_def
      Let_def)
  have "last (0 # map (\<lambda>j. 0 + word_of_nat j + 1) [0..<256]) = (0 :: u8)"
    by (simp add: last_map)
  then show ?thesis
    using draws_count [OF m(3), of 256] m(1,2)
    by (auto simp: the_count_wraps_from_255_to_zero_without_panicking_def names)
qed

lemma seq_tests_pass: "list_all passes seq_tests"
proof -
  have "list_all passes
     [the_first_message_of_an_unseen_edge_node_reads_one, each_message_adds_one,
      a_reset_starts_the_count_at_zero, each_edge_node_holds_its_own_count,
      the_same_node_id_in_two_groups_counts_apart, a_reset_moves_one_edge_node_only,
      a_dropped_reservation_leaves_its_number_for_the_next_message,
      one_edge_node_does_not_wait_behind_another]"
    by code_simp
  then show ?thesis by (simp add: seq_tests_def wrap_test_passes)
qed



section \<open>Reading a metric\<close>

text \<open>
  \<open>nan_of\<close> is what a cast makes of a NaN, which no test has. Floats are compared
  by their bits; the constants are 7.0, 7.5 in both widths, 1.0 and 0.0.
\<close>

definition metric_with :: "MetricVariant \<Rightarrow> Metric" where
  "metric_with v = Metric None None None None None None None None None (Some v)"

definition default_metric :: Metric where
  "default_metric = Metric None None None None None None None None None None"

definition numeric_value_reads_every_number_variant :: "(f32 \<Rightarrow> f64) \<Rightarrow> unit option" where
  "numeric_value_reads_every_number_variant nan_of =
     do { assert_eq (numeric_value nan_of (metric_with (IntValue 7))) (Some 0x401C000000000000);
          assert_eq (numeric_value nan_of (metric_with (LongValue 7))) (Some 0x401C000000000000);
          assert_eq (numeric_value nan_of (metric_with (FloatValue 0x40F00000))) (Some 0x401E000000000000);
          assert_eq (numeric_value nan_of (metric_with (DoubleValue 0x401E000000000000)))
            (Some 0x401E000000000000) }"

definition numeric_value_reads_a_boolean_as_one_or_zero :: "(f32 \<Rightarrow> f64) \<Rightarrow> unit option" where
  "numeric_value_reads_a_boolean_as_one_or_zero nan_of =
     do { assert_eq (numeric_value nan_of (metric_with (BooleanValue True))) (Some 0x3FF0000000000000);
          assert_eq (numeric_value nan_of (metric_with (BooleanValue False))) (Some 0) }"

definition numeric_value_rejects_what_it_cannot_plot :: "(f32 \<Rightarrow> f64) \<Rightarrow> unit option" where
  "numeric_value_rejects_what_it_cannot_plot nan_of =
     do { assert_eq (numeric_value nan_of (metric_with (StringValue ''AUTO''))) None;
          assert_eq (numeric_value nan_of (metric_with (BytesValue [1, 2]))) None;
          assert_eq (numeric_value nan_of default_metric) None }"

definition format_value_quotes_a_string_and_leaves_a_number_bare :: "unit option" where
  "format_value_quotes_a_string_and_leaves_a_number_bare =
     do { assert_eq (format_value (metric_with (StringValue ''AUTO'')))
            (CHR 0x22 # ''AUTO'' @ [CHR 0x22]);
          assert_eq (format_value (metric_with (DoubleValue 0x401E000000000000))) ''7.5'';
          assert_eq (format_value (metric_with (BooleanValue True))) ''true'' }"

definition format_value_says_so_when_there_is_no_value :: "unit option" where
  "format_value_says_so_when_there_is_no_value = assert_eq (format_value default_metric) ''No value''"

definition payload_tests :: "(f32 \<Rightarrow> f64) \<Rightarrow> unit option list" where
  "payload_tests nan_of =
     [numeric_value_reads_every_number_variant nan_of,
      numeric_value_reads_a_boolean_as_one_or_zero nan_of,
      numeric_value_rejects_what_it_cannot_plot nan_of,
      format_value_quotes_a_string_and_leaves_a_number_bare,
      format_value_says_so_when_there_is_no_value]"

lemma payload_tests_pass: "list_all passes (payload_tests nan_of)"
proof -
  have "uint_to_f64 7 = 0x401C000000000000"
    by (simp add: uint_to_f64_def significand_def bit_length.simps f64_bits_def)
  moreover have "f32_to_f64 nan_of 0x40F00000 = 0x401E000000000000"
    by (simp add: f32_to_f64_def f32_sign_def f32_exponent_def f32_fraction_def f64_bits_def)
  moreover have "f64_bits 0 1023 0 = 0x3FF0000000000000" "f64_bits 0 0 0 = 0"
    by (simp_all add: f64_bits_def)
  ultimately show ?thesis
    by (simp add: payload_tests_def numeric_value_reads_every_number_variant_def
        numeric_value_reads_a_boolean_as_one_or_zero_def numeric_value_rejects_what_it_cannot_plot_def
        format_value_quotes_a_string_and_leaves_a_number_bare_def
        format_value_says_so_when_there_is_no_value_def metric_with_def default_metric_def
        numeric_value_def format_value_def display_seven_and_a_half)
qed

end
