(* ===== verification/Unit_Tests_Topic.thy ===== *)
theory Unit_Tests_Topic
  imports Unit_Tests Topic
begin

text \<open>
  The unit tests of \<open>src/sparkplug/topic/tests.rs\<close> as programs over the model, by
  the assertions of the theory \<open>Unit_Tests\<close>.
\<close>

section \<open>Fixtures\<close>

definition new_device :: "string \<Rightarrow> DeviceId option" where
  "new_device v = unwrap (DeviceId_new v :: unit SparkplugError + DeviceId)"

definition new_host :: "string \<Rightarrow> HostId option" where
  "new_host v = unwrap (HostId_new v :: unit SparkplugError + HostId)"

definition new_namespace :: "string \<Rightarrow> Namespace option" where
  "new_namespace v = unwrap (Namespace_new v :: unit SparkplugError + Namespace)"

definition parsed_by :: "Namespace \<Rightarrow> string \<Rightarrow> unit SparkplugError + SparkplugTopic" where
  "parsed_by ns s = parse ns s"

definition one_of_each :: "(MessageType \<times> SparkplugTopic) list option" where
  "one_of_each =
     do { g \<leftarrow> new_group ''G''; n \<leftarrow> new_node ''n''; d \<leftarrow> new_device ''d''; h \<leftarrow> new_host ''host'';
          let ns = sparkplug_b;
          Some
            [(NBIRTH, nbirth ns g n), (NDATA, ndata ns g n), (NDEATH, ndeath ns g n),
             (NCMD, ncmd ns g n), (DBIRTH, dbirth ns g n d), (DDATA, ddata ns g n d),
             (DDEATH, ddeath ns g n d), (DCMD, dcmd ns g n d), (STATE, state ns h)] }"

text \<open>The patterns of \<open>matches!\<close>.\<close>

fun is_InvalidTopic :: "'x SparkplugError \<Rightarrow> bool" where
  "is_InvalidTopic (InvalidTopic _) = True"
| "is_InvalidTopic _ = False"

fun is_InvalidNamespace :: "'x SparkplugError \<Rightarrow> bool" where
  "is_InvalidNamespace (InvalidNamespace _) = True"
| "is_InvalidNamespace _ = False"

fun is_UnknownMessageType :: "'x SparkplugError \<Rightarrow> bool" where
  "is_UnknownMessageType (UnknownMessageType _) = True"
| "is_UnknownMessageType _ = False"

fun is_WrongTopicShape :: "MessageType \<Rightarrow> 'x SparkplugError \<Rightarrow> bool" where
  "is_WrongTopicShape mt (WrongTopicShape _ message_type) = (message_type = mt)"
| "is_WrongTopicShape mt _ = False"

definition rejected :: "(unit SparkplugError \<Rightarrow> bool) \<Rightarrow> unit SparkplugError + 'a \<Rightarrow> unit option" where
  "rejected pattern r = do { err \<leftarrow> unwrap_err r; check (pattern err) }"


section \<open>Round trip\<close>

definition every_message_type_survives_a_round_trip :: "unit option" where
  "every_message_type_survives_a_round_trip =
     do { topics \<leftarrow> one_of_each;
          for_each (\<lambda>(message_type, topic).
            do { let rendered = to_string topic;
                 reparsed \<leftarrow> unwrap (parsed_by sparkplug_b rendered);
                 assert_eq reparsed topic;
                 assert_eq (to_string reparsed) rendered }) topics }"

definition constructors_render_the_documented_segment_order :: "unit option" where
  "constructors_render_the_documented_segment_order =
     do { let ns = sparkplug_b;
          plant \<leftarrow> new_group ''PlantFloor''; edge \<leftarrow> new_node ''edge_node_1''; pump \<leftarrow> new_device ''pump_3'';
          assert_eq (to_string (ddata ns plant edge pump)) ''spBv1.0/PlantFloor/DDATA/edge_node_1/pump_3'';
          assert_eq (to_string (nbirth ns plant edge)) ''spBv1.0/PlantFloor/NBIRTH/edge_node_1'';
          scada \<leftarrow> new_host ''scada_1'';
          assert_eq (to_string (state ns scada)) ''spBv1.0/STATE/scada_1'' }"

definition a_data_topic_keeps_the_edge_node_and_device_apart :: "unit option" where
  "a_data_topic_keeps_the_edge_node_and_device_apart =
     do { g \<leftarrow> new_group ''Stax''; n \<leftarrow> new_node ''edge-node-A''; d \<leftarrow> new_device ''device-1'';
          let topic = ddata sparkplug_b g n d;
          assert_eq (to_string topic) ''spBv1.0/Stax/DDATA/edge-node-A/device-1'';
          assert_eq (node_id topic) (Some n);
          assert_eq (device_id topic) (Some d) }"


section \<open>Accessors\<close>

definition a_node_topic_carries_no_device :: "unit option" where
  "a_node_topic_carries_no_device =
     do { g \<leftarrow> new_group ''G''; n \<leftarrow> new_node ''n'';
          let topic = nbirth sparkplug_b g n;
          assert_eq (topic_shape topic) ShapeNode; assert_eq (group_id topic) (Some g);
          assert_eq (node_id topic) (Some n); assert_eq (device_id topic) None;
          assert_eq (host_id topic) None }"

definition a_device_topic_carries_every_identity_but_the_host :: "unit option" where
  "a_device_topic_carries_every_identity_but_the_host =
     do { g \<leftarrow> new_group ''G''; n \<leftarrow> new_node ''n''; d \<leftarrow> new_device ''d'';
          let topic = ddata sparkplug_b g n d;
          assert_eq (topic_shape topic) ShapeDevice; assert_eq (group_id topic) (Some g);
          assert_eq (node_id topic) (Some n); assert_eq (device_id topic) (Some d);
          assert_eq (host_id topic) None }"

definition a_host_topic_carries_only_the_host :: "unit option" where
  "a_host_topic_carries_only_the_host =
     do { h \<leftarrow> new_host ''scada_1'';
          let topic = state sparkplug_b h;
          assert_eq (topic_shape topic) ShapeHost; assert_eq (host_id topic) (Some h);
          assert_eq (group_id topic) None; assert_eq (node_id topic) None;
          assert_eq (device_id topic) None }"

definition a_topic_reports_the_namespace_it_belongs_to :: "unit option" where
  "a_topic_reports_the_namespace_it_belongs_to =
     do { ns \<leftarrow> new_namespace ''spBv9.9''; g \<leftarrow> new_group ''G''; n \<leftarrow> new_node ''n'';
          let topic = ndata ns g n;
          assert_eq (topic_namespace topic) ''spBv9.9'';
          assert_eq (to_string topic) ''spBv9.9/G/NDATA/n'' }"


section \<open>Rejection\<close>

definition parse_rejects_another_namespace :: "unit option" where
  "parse_rejects_another_namespace = rejected is_InvalidTopic (parsed_by sparkplug_b ''v2.0/G/NBIRTH/n'')"

definition parse_rejects_too_few_segments :: "unit option" where
  "parse_rejects_too_few_segments =
     for_each (\<lambda>topic. rejected is_InvalidTopic (parsed_by sparkplug_b topic)) [''spBv1.0'', ''spBv1.0/G'']"

definition parse_rejects_an_unknown_message_type :: "unit option" where
  "parse_rejects_an_unknown_message_type =
     rejected is_UnknownMessageType (parsed_by sparkplug_b ''spBv1.0/G/XDATA/n'')"

definition parse_rejects_a_device_segment_on_a_node_message :: "unit option" where
  "parse_rejects_a_device_segment_on_a_node_message =
     rejected (is_WrongTopicShape NBIRTH) (parsed_by sparkplug_b ''spBv1.0/G/NBIRTH/n/d'')"

definition parse_rejects_a_device_message_with_no_device :: "unit option" where
  "parse_rejects_a_device_message_with_no_device =
     rejected (is_WrongTopicShape DDATA) (parsed_by sparkplug_b ''spBv1.0/G/DDATA/n'')"

definition parse_rejects_a_state_topic_of_the_wrong_length :: "unit option" where
  "parse_rejects_a_state_topic_of_the_wrong_length =
     for_each (\<lambda>topic. rejected (is_WrongTopicShape STATE) (parsed_by sparkplug_b topic))
       [''spBv1.0/STATE'', ''spBv1.0/STATE/host/extra'']"

definition parse_rejects_a_state_message_addressed_like_a_node :: "unit option" where
  "parse_rejects_a_state_message_addressed_like_a_node =
     rejected (is_WrongTopicShape STATE) (parsed_by sparkplug_b ''spBv1.0/G/STATE/n'')"

definition parse_rejects_an_empty_segment :: "unit option" where
  "parse_rejects_an_empty_segment = rejected is_InvalidTopic (parsed_by sparkplug_b ''spBv1.0//NBIRTH/n'')"


section \<open>Namespace\<close>

definition the_standard_namespace_is_spbv1 :: "unit option" where
  "the_standard_namespace_is_spbv1 =
     do { assert_eq (ns_text sparkplug_b) ''spBv1.0''; assert_eq Namespace_default sparkplug_b }"

definition namespace_rejects_a_string_no_broker_would_accept :: "unit option" where
  "namespace_rejects_a_string_no_broker_would_accept =
     for_each (\<lambda>bad. rejected is_InvalidNamespace (Namespace_new bad)) ['''', ''a/b'', ''a+b'', ''a#b'']"

definition a_namespace_does_not_parse_another_namespaces_topics :: "unit option" where
  "a_namespace_does_not_parse_another_namespaces_topics =
     do { ours \<leftarrow> new_namespace ''spBv9.9'';
          check (is_err (parsed_by ours ''spBv1.0/G/NBIRTH/n''));
          check (\<not> is_err (parsed_by ours ''spBv9.9/G/NBIRTH/n'')) }"

definition topic_tests :: "unit option list" where
  "topic_tests =
     [every_message_type_survives_a_round_trip, constructors_render_the_documented_segment_order,
      a_data_topic_keeps_the_edge_node_and_device_apart, a_node_topic_carries_no_device,
      a_device_topic_carries_every_identity_but_the_host, a_host_topic_carries_only_the_host,
      a_topic_reports_the_namespace_it_belongs_to, parse_rejects_another_namespace,
      parse_rejects_too_few_segments, parse_rejects_an_unknown_message_type,
      parse_rejects_a_device_segment_on_a_node_message, parse_rejects_a_device_message_with_no_device,
      parse_rejects_a_state_topic_of_the_wrong_length, parse_rejects_a_state_message_addressed_like_a_node,
      parse_rejects_an_empty_segment, the_standard_namespace_is_spbv1,
      namespace_rejects_a_string_no_broker_would_accept,
      a_namespace_does_not_parse_another_namespaces_topics]"

lemma topic_tests_pass: "list_all passes topic_tests"
  by code_simp

end
