(* ===== verification/Unit_Tests_Client.thy ===== *)
theory Unit_Tests_Client
  imports Unit_Tests_State Unit_Tests_Topic Host_Reading Example_Program
begin

text \<open>
  The unit tests of the event loop and of the client, \<open>src/sparkplug/eventloop/tests.rs\<close>
  and \<open>src/sparkplug/client/tests.rs\<close> with the files under it, and those beside the
  code that encode a payload and decode it again. A channel of the tests is the
  list of messages the client took; what a test waits for is an argument of the
  call, as in the model. Where a test reads only the number of a message, the
  payload is written by the unary codec of \<open>Publish_Machine\<close>.
\<close>

section \<open>The event loop\<close>

abbreviation connack :: "unit polled" where
  "connack \<equiv> Inr (Incoming ConnAck)"

abbreviation puback :: "unit polled" where
  "puback \<equiv> Inr (Incoming PubAck)"

abbreviation poll_error :: "unit polled" where
  "poll_error \<equiv> Inl ()"

abbreviation ping_resp :: "unit polled" where
  "ping_resp \<equiv> Inr (Incoming OtherPacket)"

text \<open>The loop over a script, which parks at the end of it.\<close>

definition harness :: "unit polled list \<Rightarrow> State \<Rightarrow> loop_state \<times> unit effect list" where
  "harness events tracker = loop_run events (loop_init tracker Disconnected_link)"

definition one_publish :: State where
  "one_publish = snd (record_publish DeliveryTracker_new)"

definition the_first_connack_signals_that_connect_may_return :: "unit option" where
  "the_first_connack_signals_that_connect_may_return =
     check (SignalReady \<in> set (snd (harness [connack] DeliveryTracker_new)))"

definition a_poll_error_before_the_first_connack_still_releases_connect :: "unit option" where
  "a_poll_error_before_the_first_connack_still_releases_connect =
     check (SignalReady \<in> set (snd (harness [poll_error, connack] DeliveryTracker_new)))"

definition the_loop_keeps_polling_after_an_error :: "unit option" where
  "the_loop_keeps_polling_after_an_error =
     assert_eq (health (fst (harness [poll_error, connack] DeliveryTracker_new))) Connected"

definition a_puback_the_loop_polls_clears_the_publish :: "unit option" where
  "a_puback_the_loop_polls_clears_the_publish =
     (let polls = (\<lambda>tracker. delivery (fst (harness [puback] tracker)))
      in do { check (drained_now (polls one_publish));
              unwrap (fst (flush (from_secs 1) polls (Inr ()) one_publish)
                :: unit SparkplugError + unit) })"

definition an_error_the_loop_polls_reports_the_publish_as_lost :: "unit option" where
  "an_error_the_loop_polls_reports_the_publish_as_lost =
     (let looped = fst (harness [poll_error] one_publish)
      in do { assert_eq (health looped) Disconnected_link;
              err \<leftarrow> unwrap_err (fst (flush_alone (from_secs 1) (delivery looped)));
              assert_eq err (PublishLost 1) })"

definition an_unrelated_event_leaves_the_loop_running :: "unit option" where
  "an_unrelated_event_leaves_the_loop_running =
     (let (looped, effects) = harness [ping_resp, connack] one_publish
      in do { check (SignalReady \<in> set effects); assert_eq (unacked (delivery looped)) 1 })"

definition a_puback_clears_one_publish :: "unit option" where
  "a_puback_clears_one_publish = assert_eq (unacked (apply_event one_publish puback)) 0"

definition a_poll_error_loses_everything_outstanding :: "unit option" where
  "a_poll_error_loses_everything_outstanding = assert_eq (unacked (apply_event one_publish poll_error)) 0"

definition an_incoming_disconnect_loses_everything_outstanding :: "unit option" where
  "an_incoming_disconnect_loses_everything_outstanding =
     assert_eq (unacked (apply_event one_publish (Inr (Incoming PacketDisconnect) :: unit polled))) 0"

definition an_unrelated_event_changes_nothing :: "unit option" where
  "an_unrelated_event_changes_nothing = assert_eq (unacked (apply_event one_publish ping_resp)) 1"

definition connack_reports_connected_and_errors_report_disconnected :: "unit option" where
  "connack_reports_connected_and_errors_report_disconnected =
     do { let rx = apply_health Disconnected_link connack;
          assert_eq rx Connected;
          let rx = apply_health rx poll_error;
          assert_eq rx Disconnected_link }"

definition a_written_disconnect_reports_disconnected :: "unit option" where
  "a_written_disconnect_reports_disconnected =
     assert_eq (apply_health Connected (Inr (Outgoing OutgoingDisconnect) :: unit polled)) Disconnected_link"

definition an_unrelated_event_leaves_health_alone :: "unit option" where
  "an_unrelated_event_leaves_health_alone = assert_eq (apply_health Connected ping_resp) Connected"

definition eventloop_tests :: "unit option list" where
  "eventloop_tests =
     [the_first_connack_signals_that_connect_may_return,
      a_poll_error_before_the_first_connack_still_releases_connect, the_loop_keeps_polling_after_an_error,
      a_puback_the_loop_polls_clears_the_publish, an_error_the_loop_polls_reports_the_publish_as_lost,
      an_unrelated_event_leaves_the_loop_running, a_puback_clears_one_publish,
      a_poll_error_loses_everything_outstanding, an_incoming_disconnect_loses_everything_outstanding,
      an_unrelated_event_changes_nothing, connack_reports_connected_and_errors_report_disconnected,
      a_written_disconnect_reports_disconnected, an_unrelated_event_leaves_health_alone]"

lemmas eventloop_test_defs =
  the_first_connack_signals_that_connect_may_return_def
  a_poll_error_before_the_first_connack_still_releases_connect_def
  the_loop_keeps_polling_after_an_error_def a_puback_the_loop_polls_clears_the_publish_def
  an_error_the_loop_polls_reports_the_publish_as_lost_def
  an_unrelated_event_leaves_the_loop_running_def a_puback_clears_one_publish_def
  a_poll_error_loses_everything_outstanding_def an_incoming_disconnect_loses_everything_outstanding_def
  an_unrelated_event_changes_nothing_def connack_reports_connected_and_errors_report_disconnected_def
  a_written_disconnect_reports_disconnected_def an_unrelated_event_leaves_health_alone_def

lemma eventloop_tests_pass: "list_all passes eventloop_tests"
  by (simp add: passes_def eventloop_tests_def eventloop_test_defs harness_def one_publish_def loop_init_def
      loop_turn_def tracker_defs flush_alone_def flush_def drained_now_def to_u32_saturating_def
      saturating_dec_def Let_def bind_eq_Some_conv)



section \<open>Counting and shutting down\<close>

definition a_publish_is_counted_before_the_client_sees_it :: "unit option" where
  "a_publish_is_counted_before_the_client_sees_it =
     (let (_, in_flight) = count_publish \<lparr>qos = AtLeastOnce, retain = False, tracked = True\<rparr>
            DeliveryTracker_new;
          (sent, _) = record_around_publish id (Taken :: unit client_answer) DeliveryTracker_new
      in do { check (sent = Some (Inr ())); assert_eq (unacked in_flight) 1 })"

definition a_refused_publish_leaves_no_phantom_count :: "unit option" where
  "a_refused_publish_leaves_no_phantom_count =
     (let (sent, tracker) = record_around_publish id (RefusedBy ()) DeliveryTracker_new
      in do { assert_eq sent (Some (Inl (Publish ()))); assert_eq (unacked tracker) 0 })"

text \<open>While the first publish waits, a disconnect lands and a second one is taken.\<close>

definition a_refused_publish_cannot_cancel_another_publish :: "unit option" where
  "a_refused_publish_cannot_cancel_another_publish =
     (let meanwhile = (\<lambda>tracker. snd (record_around_publish id (Taken :: unit client_answer)
            (record_disconnect tracker)));
          (refused, tracker) = record_around_publish meanwhile (RefusedBy ()) DeliveryTracker_new
      in do { assert_eq refused (Some (Inl (Publish ()))); assert_eq (unacked tracker) 1 })"

text \<open>A watch channel that stays silent until the deadline, and one that shows the link down.\<close>

definition silent :: health_wait where
  "silent accept = Inl ()"

definition link_down :: health_wait where
  "link_down accept = (if accept Disconnected_link then Inr (Inr Disconnected_link) else Inl ())"

definition an_unwritten_disconnect_is_not_confirmed :: "unit option" where
  "an_unwritten_disconnect_is_not_confirmed = check (\<not> wait_for_disconnect silent)"

definition a_written_disconnect_is_confirmed :: "unit option" where
  "a_written_disconnect_is_confirmed = check (wait_for_disconnect link_down)"

definition shutdown_reports_the_lost_publishes_before_the_disconnect :: "unit option" where
  "shutdown_reports_the_lost_publishes_before_the_disconnect =
     assert_eq (shutdown_outcome (Inl (PublishLost 3)) (Unconfirmed :: unit Disconnected) (from_secs 5))
       (Inl (PublishLost 3))"

definition shutdown_reports_an_unconfirmed_disconnect :: "unit option" where
  "shutdown_reports_an_unconfirmed_disconnect =
     check (case shutdown_outcome (Inr ()) (Unconfirmed :: unit Disconnected) (from_secs 5) of
       Inl (ShutdownTimeout _) \<Rightarrow> True | _ \<Rightarrow> False)"

definition shutdown_reports_the_refused_disconnect_rather_than_a_timeout :: "unit option" where
  "shutdown_reports_the_refused_disconnect_rather_than_a_timeout =
     check (case shutdown_outcome (Inr ()) (Refused ()) (from_secs 5) of
       Inl (Disconnect _) \<Rightarrow> True | _ \<Rightarrow> False)"

definition a_refused_disconnect_does_not_wait_for_the_event_loop :: "unit option" where
  "a_refused_disconnect_does_not_wait_for_the_event_loop =
     assert_eq (disconnect_outcome (Inr (Inl ())) silent) (Refused ())"

definition a_request_that_misses_the_deadline_is_unconfirmed :: "unit option" where
  "a_request_that_misses_the_deadline_is_unconfirmed =
     assert_eq (disconnect_outcome (Inl ()) silent) (Unconfirmed :: unit Disconnected)"

definition shutdown_reports_success_once_the_disconnect_is_written :: "unit option" where
  "shutdown_reports_success_once_the_disconnect_is_written =
     unwrap (shutdown_outcome (Inr ()) (Written :: unit Disconnected) (from_secs 5))"

text \<open>The doubles 23.5 and 1.0.\<close>

definition the_batch_mapping_keeps_each_metric_name_value_and_timestamp :: "unit option" where
  "the_batch_mapping_keeps_each_metric_name_value_and_timestamp =
     (let mapped = proto_metrics
            [(''temperature'', MetricFloat 0x4037800000000000, 100), (''mode'', MetricString ''AUTO'', 200)]
      in do { assert_eq (length mapped) 2;
              assert_eq (metric_name (mapped ! 0)) (Some ''temperature'');
              assert_eq (metric_timestamp (mapped ! 0)) (Some 100);
              assert_eq (metric_name (mapped ! 1)) (Some ''mode'');
              assert_eq (metric_timestamp (mapped ! 1)) (Some 200) })"

definition a_checked_identifier_cannot_reach_the_wrong_segment :: "unit option" where
  "a_checked_identifier_cannot_reach_the_wrong_segment =
     do { g \<leftarrow> new_group ''Stax''; n \<leftarrow> new_node ''edge-node-A''; d \<leftarrow> new_device ''device-1'';
          assert_eq (to_string (ddata sparkplug_b g n d)) ''spBv1.0/Stax/DDATA/edge-node-A/device-1'' }"

definition a_bad_namespace_fails_the_connect_rather_than_every_publish :: "unit option" where
  "a_bad_namespace_fails_the_connect_rather_than_every_publish =
     rejected is_InvalidNamespace (Namespace_new ''spB/v1.0'')"


section \<open>What reaches the wire\<close>

definition wired :: "Identity \<Rightarrow> client" where
  "wired identity =
     \<lparr>cl_wire = [], cl_namespace = sparkplug_b, cl_identity = identity,
      cl_delivery = DeliveryTracker_new, cl_seq = SeqCounters_new,
      cl_health = Disconnected_link, cl_loop = Running\<rparr>"

definition wired_publisher :: client where
  "wired_publisher = wired IdentityPublisher"

definition edge_node_named :: "string \<Rightarrow> string \<Rightarrow> EdgeNode option" where
  "edge_node_named g n = do { g \<leftarrow> new_group g; n \<leftarrow> new_node n; Some (EdgeNode_new g n) }"

definition wired_edge_node :: "EdgeNode \<Rightarrow> client" where
  "wired_edge_node en = wired (IdentityEdgeNode (to_owned en))"

definition ddata_of :: "client \<Rightarrow> SparkplugTopic option" where
  "ddata_of c =
     do { g \<leftarrow> new_group ''PlantFloor''; n \<leftarrow> new_node ''edge_node_1''; d \<leftarrow> new_device ''pump_3'';
          Some (ddata (cl_namespace c) g n d) }"

text \<open>A call the client must take, and the request it sent first.\<close>

definition accepted :: "unit outcome \<times> client \<Rightarrow> client option" where
  "accepted call = (case fst call of Some (Inr _) \<Rightarrow> Some (snd call) | _ \<Rightarrow> None)"

definition nth_sent :: "nat \<Rightarrow> client \<Rightarrow> request option" where
  "nth_sent i c = get (cl_wire c) i"

definition a_publisher_client_sends_data_at_qos_one_and_counts_it :: "unit option" where
  "a_publisher_client_sends_data_at_qos_one_and_counts_it =
     do { topic \<leftarrow> ddata_of wired_publisher;
          client \<leftarrow> accepted (publish_metric_to unary_encode 0 topic ''temperature''
            (MetricFloat 0x3FF0000000000000) 0 id Taken wired_publisher);
          publish \<leftarrow> nth_sent 0 client;
          assert_eq (req_qos publish) AtLeastOnce;
          check (\<not> req_retain publish);
          assert_eq (client_unacked client) 1 }"

definition an_edge_node_client_sends_data_at_qos_zero_and_counts_nothing :: "unit option" where
  "an_edge_node_client_sends_data_at_qos_zero_and_counts_nothing =
     do { en \<leftarrow> edge_node_named ''PlantFloor'' ''edge_node_1'';
          topic \<leftarrow> ddata_of (wired_edge_node en);
          client \<leftarrow> accepted (publish_metric_to unary_encode 0 topic ''temperature''
            (MetricFloat 0x3FF0000000000000) 0 id Taken (wired_edge_node en));
          publish \<leftarrow> nth_sent 0 client;
          assert_eq (req_qos publish) AtMostOnce;
          check (\<not> req_retain publish);
          assert_eq (client_unacked client) 0 }"

definition an_untracked_publish_leaves_flush_with_nothing_to_wait_for :: "unit option" where
  "an_untracked_publish_leaves_flush_with_nothing_to_wait_for =
     do { en \<leftarrow> edge_node_named ''PlantFloor'' ''edge_node_1'';
          topic \<leftarrow> ddata_of (wired_edge_node en);
          client \<leftarrow> accepted (publish_metric_to unary_encode 0 topic ''temperature''
            (MetricFloat 0x3FF0000000000000) 0 id Taken (wired_edge_node en));
          check (drained_now (cl_delivery client));
          unwrap (fst (client_flush (from_millis 50) id (Inr ()) client) :: unit SparkplugError + unit) }"

definition the_publish_path_reads_the_message_type_from_the_topic :: "unit option" where
  "the_publish_path_reads_the_message_type_from_the_topic =
     do { en \<leftarrow> edge_node_named ''PlantFloor'' ''edge_node_1'';
          g \<leftarrow> new_group ''PlantFloor''; n \<leftarrow> new_node ''edge_node_1'';
          let topic = ncmd (cl_namespace (wired_edge_node en)) g n;
          client \<leftarrow> accepted (publish_metric_to unary_encode 0 topic ''Node Control/Rebirth''
            (MetricBool True) 0 id Taken (wired_edge_node en));
          publish \<leftarrow> nth_sent 0 client;
          assert_eq (req_topic publish) (to_string topic);
          assert_eq (req_qos publish) AtMostOnce }"

definition tracks_delivery_reports_the_role :: "unit option" where
  "tracks_delivery_reports_the_role =
     do { en \<leftarrow> edge_node_named ''PlantFloor'' ''edge_node_1'';
          check (tracks_delivery wired_publisher);
          check (\<not> tracks_delivery (wired_edge_node en)) }"

definition an_untracked_publish_that_the_client_refuses_still_reports_the_error :: "unit option" where
  "an_untracked_publish_that_the_client_refuses_still_reports_the_error =
     (let (sent, tracker) = publish_with_options (wire_options RoleEdgeNode DDATA) id (RefusedBy ())
            DeliveryTracker_new
      in do { assert_eq sent (Some (Inl (Publish ()))); assert_eq (unacked tracker) 0 })"

definition a_birth_names_the_edge_node_given_at_connect_not_the_client_id :: "'t \<Rightarrow> unit option" where
  "a_birth_names_the_edge_node_given_at_connect_not_the_client_id tcp =
     do { let config =
            \<lparr>broker_url = ''localhost'', broker_port = 1883, transport = tcp, username = [], password = [],
             client_id = Some ''stax-publisher-7'', version = ''spBv1.0''\<rparr>;
          assert_eq (opt_client_id (mqtt_options 0 config)) ''stax-publisher-7'';
          en \<leftarrow> edge_node_named ''PlantFloor'' ''edge_node_1''; d \<leftarrow> new_device ''pump_3'';
          client \<leftarrow> accepted (publish_birth unary_encode 0 0 d id Taken id Taken (wired_edge_node en));
          first \<leftarrow> nth_sent 0 client;
          assert_eq (req_topic first) ''spBv1.0/PlantFloor/NBIRTH/edge_node_1'';
          check (\<not> sublist ''stax-publisher-7'' (req_topic first));
          second \<leftarrow> nth_sent 1 client;
          assert_eq (req_topic second) ''spBv1.0/PlantFloor/DBIRTH/edge_node_1/pump_3'' }"

definition a_publisher_client_cannot_announce_a_birth :: "unit option" where
  "a_publisher_client_cannot_announce_a_birth =
     do { d \<leftarrow> new_device ''pump_3'';
          let (refused, client) = publish_birth unary_encode 0 0 d id Taken id (Taken :: unit client_answer)
            wired_publisher;
          assert_eq refused (Some (Inl NotAnEdgeNode));
          assert_eq (cl_wire client) [] }"


definition counting_tests :: "unit option list" where
  "counting_tests =
     [a_publish_is_counted_before_the_client_sees_it, a_refused_publish_leaves_no_phantom_count,
      a_refused_publish_cannot_cancel_another_publish, an_unwritten_disconnect_is_not_confirmed,
      a_written_disconnect_is_confirmed, shutdown_reports_the_lost_publishes_before_the_disconnect,
      shutdown_reports_an_unconfirmed_disconnect,
      shutdown_reports_the_refused_disconnect_rather_than_a_timeout,
      a_refused_disconnect_does_not_wait_for_the_event_loop,
      a_request_that_misses_the_deadline_is_unconfirmed,
      shutdown_reports_success_once_the_disconnect_is_written,
      the_batch_mapping_keeps_each_metric_name_value_and_timestamp,
      a_checked_identifier_cannot_reach_the_wrong_segment,
      a_bad_namespace_fails_the_connect_rather_than_every_publish]"

lemmas counting_test_defs =
  a_publish_is_counted_before_the_client_sees_it_def a_refused_publish_leaves_no_phantom_count_def
  a_refused_publish_cannot_cancel_another_publish_def an_unwritten_disconnect_is_not_confirmed_def
  a_written_disconnect_is_confirmed_def shutdown_reports_the_lost_publishes_before_the_disconnect_def
  shutdown_reports_an_unconfirmed_disconnect_def
  shutdown_reports_the_refused_disconnect_rather_than_a_timeout_def
  a_refused_disconnect_does_not_wait_for_the_event_loop_def
  a_request_that_misses_the_deadline_is_unconfirmed_def
  shutdown_reports_success_once_the_disconnect_is_written_def
  the_batch_mapping_keeps_each_metric_name_value_and_timestamp_def

lemma passes_Some: "passes (Some u)"
  by (simp add: passes_def)

lemma counting_tests_pass: "list_all passes counting_tests"
proof -
  have "passes a_checked_identifier_cannot_reach_the_wrong_segment"
    "passes a_bad_namespace_fails_the_connect_rather_than_every_publish" by code_simp+
  then show ?thesis
    by (simp add: counting_tests_def counting_test_defs passes_Some tracker_defs saturating_dec_def record_around_publish_def
        count_publish_def settle_publish_def keep_in_flight_def drop_in_flight_def silent_def link_down_def
        wait_for_disconnect_def disconnect_outcome_def shutdown_outcome_def proto_metrics_def create_metric_def
        Let_def bind_eq_Some_conv)
qed

definition wire_tests :: "'t \<Rightarrow> unit option list" where
  "wire_tests tcp =
     [a_publisher_client_sends_data_at_qos_one_and_counts_it,
      an_edge_node_client_sends_data_at_qos_zero_and_counts_nothing,
      an_untracked_publish_leaves_flush_with_nothing_to_wait_for,
      the_publish_path_reads_the_message_type_from_the_topic, tracks_delivery_reports_the_role,
      an_untracked_publish_that_the_client_refuses_still_reports_the_error,
      a_birth_names_the_edge_node_given_at_connect_not_the_client_id tcp,
      a_publisher_client_cannot_announce_a_birth]"


lemma flush_of_idle:
  "drained_now DeliveryTracker_new"
  "cl_delivery c = DeliveryTracker_new \<Longrightarrow> fst (client_flush timeout id (Inr ()) c) = Inr ()"
  by (simp_all add: client_flush_def flush_def tracker_defs drained_now_def to_u32_saturating_def
      split_beta Let_def)

lemma flush_test_passes: "passes an_untracked_publish_leaves_flush_with_nothing_to_wait_for"
proof -
  define published where "published =
     do { en \<leftarrow> edge_node_named ''PlantFloor'' ''edge_node_1'';
          topic \<leftarrow> ddata_of (wired_edge_node en);
          accepted (publish_metric_to unary_encode 0 topic ''temperature''
            (MetricFloat 0x3FF0000000000000) 0 id Taken (wired_edge_node en)) }"
  have "map_option cl_delivery published = Some DeliveryTracker_new"
    unfolding published_def by code_simp
  then obtain c where c: "published = Some c" "cl_delivery c = DeliveryTracker_new" by auto
  have test: "an_untracked_publish_leaves_flush_with_nothing_to_wait_for =
      published \<bind> (\<lambda>client. do { check (drained_now (cl_delivery client));
         unwrap (fst (client_flush (from_millis 50) id (Inr ()) client) :: unit SparkplugError + unit) })"
    by (simp add: an_untracked_publish_leaves_flush_with_nothing_to_wait_for_def published_def)
  show ?thesis unfolding test by (simp add: c flush_of_idle passes_Some)
qed

lemma birth_test_passes: "passes (a_birth_names_the_edge_node_given_at_connect_not_the_client_id tcp)"
proof -
  let ?en = "EdgeNode_new (GroupId ''PlantFloor'') (EdgeNodeId ''edge_node_1'')"
  let ?d = "DeviceId ''pump_3''"
  obtain result client where birth: "publish_birth unary_encode 0 0 ?d id Taken id (Taken :: unit client_answer)
      (wired_edge_node ?en) = (result, client)"
    by (cases "publish_birth unary_encode 0 0 ?d id Taken id (Taken :: unit client_answer) (wired_edge_node ?en)")
  have built: "edge_node_named ''PlantFloor'' ''edge_node_1'' = Some ?en" "new_device ''pump_3'' = Some ?d"
    "edge_node (wired_edge_node ?en) = Some ?en" "holder_at (cl_seq (wired_edge_node ?en)) (birth_key ?en) = None"
    "cl_wire (wired_edge_node ?en) = []"
    by code_simp+
  have topics: "to_string (nbirth (cl_namespace (wired_edge_node ?en)) (en_group ?en) (en_edge_node_id ?en)) =
      ''spBv1.0/PlantFloor/NBIRTH/edge_node_1''"
    "to_string (dbirth (cl_namespace (wired_edge_node ?en)) (en_group ?en) (en_edge_node_id ?en) ?d) =
      ''spBv1.0/PlantFloor/DBIRTH/edge_node_1/pump_3''"
    "\<not> sublist ''stax-publisher-7'' ''spBv1.0/PlantFloor/NBIRTH/edge_node_1''"
    by code_simp+
  note effect = publish_birth_free [OF built(3,4) birth]
  from effect(1) have taken: "accepted (result, client) = Some client" by (simp add: accepted_def)
  have "nth_sent 0 client = Some (nbirth_request unary_encode 0 (wired_edge_node ?en) ?en)"
    "nth_sent 1 client = Some (dbirth_request unary_encode 0 (wired_edge_node ?en) ?en ?d)"
    using effect(2) by (simp_all add: nth_sent_def built(5) get_def)
  moreover have "req_topic (nbirth_request unary_encode 0 (wired_edge_node ?en) ?en) =
      ''spBv1.0/PlantFloor/NBIRTH/edge_node_1''"
    "req_topic (dbirth_request unary_encode 0 (wired_edge_node ?en) ?en ?d) =
      ''spBv1.0/PlantFloor/DBIRTH/edge_node_1/pump_3''"
    using topics(1,2) by (simp_all add: nbirth_request_def dbirth_request_def message_request_def Let_def)
  moreover have "opt_client_id (mqtt_options 0 \<lparr>broker_url = b, broker_port = n, transport = tcp, username = u,
      password = w, client_id = Some x, version = v\<rparr>) = x" for b n u w x v
    by (simp add: mqtt_options_def Let_def)
  ultimately show ?thesis
    using topics(3)
    by (simp add: a_birth_names_the_edge_node_given_at_connect_not_the_client_id_def Let_def built birth taken
        passes_Some)
qed

lemma wire_tests_pass: "list_all passes (wire_tests tcp)"
proof -
  have "list_all passes
     [a_publisher_client_sends_data_at_qos_one_and_counts_it,
      an_edge_node_client_sends_data_at_qos_zero_and_counts_nothing,
      the_publish_path_reads_the_message_type_from_the_topic, tracks_delivery_reports_the_role,
      an_untracked_publish_that_the_client_refuses_still_reports_the_error,
      a_publisher_client_cannot_announce_a_birth]"
    by code_simp
  then show ?thesis by (simp add: wire_tests_def flush_test_passes birth_test_passes)
qed



section \<open>Numbers on the wire\<close>

definition seq_counts :: "client \<Rightarrow> u64 option list" where
  "seq_counts c = map (\<lambda>rq. unary_decode (req_payload rq)) (cl_wire c)"

definition publish_for :: "string \<Rightarrow> string \<Rightarrow> unit client_answer \<Rightarrow> client \<Rightarrow> unit outcome \<times> client" where
  "publish_for g n answer c =
     publish_metric unary_encode 0 g n ''pump_3'' ''temperature'' (MetricFloat 0x3FF0000000000000) 0 id answer c"

definition publish_one :: "string \<Rightarrow> string \<Rightarrow> client \<Rightarrow> client option" where
  "publish_one g n c = accepted (publish_for g n Taken c)"

primrec publish_each :: "(string \<times> string) list \<Rightarrow> client \<Rightarrow> client option" where
  "publish_each [] c = Some c"
| "publish_each (x # xs) c = do { c \<leftarrow> publish_one (fst x) (snd x) c; publish_each xs c }"

definition nbirth_sets_the_count_back_to_zero :: "unit option" where
  "nbirth_sets_the_count_back_to_zero =
     do { en \<leftarrow> edge_node_named ''PlantFloor'' ''edge1''; d \<leftarrow> new_device ''pump_3'';
          client \<leftarrow> publish_one ''PlantFloor'' ''edge1'' (wired_edge_node en);
          client \<leftarrow> publish_one ''PlantFloor'' ''edge1'' client;
          client \<leftarrow> accepted (publish_birth unary_encode 0 0 d id Taken id Taken client);
          client \<leftarrow> publish_one ''PlantFloor'' ''edge1'' client;
          assert_eq (seq_counts client) (map Some [1, 2, 0, 1, 2]) }"

definition an_nbirth_on_a_caller_built_topic_sets_the_count_back_to_zero :: "unit option" where
  "an_nbirth_on_a_caller_built_topic_sets_the_count_back_to_zero =
     do { client \<leftarrow> publish_one ''PlantFloor'' ''edge1'' wired_publisher;
          client \<leftarrow> publish_one ''PlantFloor'' ''edge1'' client;
          g \<leftarrow> new_group ''PlantFloor''; n \<leftarrow> new_node ''edge1'';
          client \<leftarrow> accepted (publish_metric_to unary_encode 0 (nbirth (cl_namespace client) g n)
            ''Node Control/Rebirth'' (MetricBool False) 0 id Taken client);
          client \<leftarrow> publish_one ''PlantFloor'' ''edge1'' client;
          assert_eq (seq_counts client) (map Some [1, 2, 0, 1]) }"

definition two_edge_nodes_keep_separate_counts :: "unit option" where
  "two_edge_nodes_keep_separate_counts =
     do { client \<leftarrow> publish_each (map (Pair ''PlantFloor'') [''edge1'', ''edge2'', ''edge1'', ''edge2''])
            wired_publisher;
          assert_eq (seq_counts client) (map Some [1, 1, 2, 2]) }"

definition one_edge_node_id_in_two_groups_keeps_separate_counts :: "unit option" where
  "one_edge_node_id_in_two_groups_keeps_separate_counts =
     do { client \<leftarrow> publish_each (map (\<lambda>g. (g, ''edge1'')) [''PlantFloor'', ''Boiler'', ''PlantFloor'', ''Boiler''])
            wired_publisher;
          assert_eq (seq_counts client) (map Some [1, 1, 2, 2]) }"

definition a_metric_on_a_host_topic_is_refused :: "unit option" where
  "a_metric_on_a_host_topic_is_refused =
     do { h \<leftarrow> new_host ''scada_1'';
          let (sent, client) = publish_metric_to unary_encode 0 (state (cl_namespace wired_publisher) h)
            ''temperature'' (MetricFloat 0x3FF0000000000000) 0 id (Taken :: unit client_answer) wired_publisher;
          check (case sent of Some (Inl (InvalidTopic _)) \<Rightarrow> True | _ \<Rightarrow> False);
          assert_eq (seq_counts client) [] }"

definition a_birth_and_the_data_for_that_edge_node_share_one_count :: "unit option" where
  "a_birth_and_the_data_for_that_edge_node_share_one_count =
     do { en \<leftarrow> edge_node_named ''PlantFloor'' ''edge1''; d \<leftarrow> new_device ''pump_3'';
          client \<leftarrow> accepted (publish_birth unary_encode 0 0 d id Taken id Taken (wired_edge_node en));
          client \<leftarrow> publish_one ''PlantFloor'' ''edge1'' client;
          assert_eq (seq_counts client) (map Some [0, 1, 2]) }"


section \<open>Behind the gate\<close>

text \<open>
  A full channel is a call that waits for its answer. Here two tasks publish for
  one edge node while another edge node's message fills the channel.
\<close>

definition gate_call :: "string \<Rightarrow> call option" where
  "gate_call n =
     do { g \<leftarrow> new_group ''PlantFloor''; n \<leftarrow> new_node n; d \<leftarrow> new_device ''pump_3'';
          Some (CallMetrics (ddata sparkplug_b g n d)
            [create_metric ''temperature'' (MetricFloat 0x3FF0000000000000) (Timestamp 0)] (Timestamp 0)) }"

definition steps :: "(unit, unit) action list \<Rightarrow> unit machine \<Rightarrow> unit machine option" where
  "steps acts m = run (machine_step unary_encode) acts m"

definition two_tasks_that_publish_for_one_edge_node_reach_the_wire_in_order :: "unit option" where
  "two_tasks_that_publish_for_one_edge_node_reach_the_wire_in_order =
     do { filler \<leftarrow> gate_call ''edge2''; publish \<leftarrow> gate_call ''edge1'';
          m \<leftarrow> steps [Start 0 filler, Enter 0, Answer 0 Taken, Start 1 publish, Start 2 publish, Enter 1]
            (machine_init wired_publisher);
          check (Option.is_none (steps [Enter 2] m));
          m \<leftarrow> steps [Answer 1 Taken, Enter 2, Answer 2 Taken] m;
          assert_eq (seq_counts (m_client m)) (map Some [1, 1, 2]);
          check (list_all (\<lambda>r. snd r = Some (Inr ())) (m_results m)) }"

definition a_cancelled_publish_leaves_no_gap_and_no_count :: "unit option" where
  "a_cancelled_publish_leaves_no_gap_and_no_count =
     do { client \<leftarrow> publish_one ''PlantFloor'' ''edge2'' wired_publisher;
          let (cancelled, client) = publish_for ''PlantFloor'' ''edge1'' Cancelled client;
          check (Option.is_none cancelled);
          assert_eq (client_unacked client) 1;
          client \<leftarrow> publish_one ''PlantFloor'' ''edge1'' client;
          assert_eq (seq_counts client) (map Some [1, 1]) }"

definition a_refused_publish_does_not_move_the_count :: "unit option" where
  "a_refused_publish_does_not_move_the_count =
     do { let (refused, client) = publish_for ''PlantFloor'' ''edge1'' (RefusedBy ()) wired_publisher;
          assert_eq refused (Some (Inl (Publish ())));
          g \<leftarrow> new_group ''PlantFloor''; n \<leftarrow> new_node ''edge1'';
          let (reserved, counters) = reserve 0 g n (cl_seq client);
          reservation \<leftarrow> reserved;
          assert_eq (deref reservation counters) 1;
          assert_eq (client_unacked client) 0 }"

definition number_tests :: "unit option list" where
  "number_tests =
     [an_nbirth_on_a_caller_built_topic_sets_the_count_back_to_zero, two_edge_nodes_keep_separate_counts,
      one_edge_node_id_in_two_groups_keeps_separate_counts, a_metric_on_a_host_topic_is_refused,
      two_tasks_that_publish_for_one_edge_node_reach_the_wire_in_order,
      a_cancelled_publish_leaves_no_gap_and_no_count, a_refused_publish_does_not_move_the_count]"

definition birth_tests :: "unit option list" where
  "birth_tests =
     [nbirth_sets_the_count_back_to_zero, a_birth_and_the_data_for_that_edge_node_share_one_count]"

lemma number_tests_pass: "list_all passes number_tests"
  by code_simp

lemma now_zero: "now 0 = Timestamp 0"
  by (simp add: now_def)

lemma birth_tests_pass: "list_all passes birth_tests"
  unfolding birth_tests_def nbirth_sets_the_count_back_to_zero_def
    a_birth_and_the_data_for_that_edge_node_share_one_count_def publish_birth_def now_zero
  by code_simp



section \<open>Through the codec\<close>

text \<open>
  Tests that encode a payload and decode it again, over any codec that gives a
  payload back. The double 42.5 is compared by its bits.
\<close>

definition through ::
    "(u8 list \<Rightarrow> 'd + Payload) \<Rightarrow> (Payload \<Rightarrow> u8 list) \<Rightarrow> string \<Rightarrow> MetricValue \<Rightarrow> Metric list option" where
  "through decode encode name v =
     (let metric = create_metric name v AT;
          payload = create_payload [metric] AT 1;
          bytes = encode payload
      in map_option payload_metrics (unwrap (decode_payload decode bytes)))"

definition metric_value_float_roundtrip ::
    "(u8 list \<Rightarrow> 'd + Payload) \<Rightarrow> (Payload \<Rightarrow> u8 list) \<Rightarrow> unit option" where
  "metric_value_float_roundtrip decode encode =
     do { metrics \<leftarrow> through decode encode ''temperature'' (MetricFloat 0x4045400000000000);
          assert_eq (length metrics) 1;
          assert_eq (metric_name (metrics ! 0)) (Some ''temperature'');
          assert_eq (metric_value (metrics ! 0)) (Some (DoubleValue 0x4045400000000000)) }"

definition metric_value_string_roundtrip ::
    "(u8 list \<Rightarrow> 'd + Payload) \<Rightarrow> (Payload \<Rightarrow> u8 list) \<Rightarrow> unit option" where
  "metric_value_string_roundtrip decode encode =
     do { metrics \<leftarrow> through decode encode ''vessel_type'' (MetricString ''AUTO'');
          assert_eq (metric_value (metrics ! 0)) (Some (StringValue ''AUTO'')) }"

definition metric_value_bool_roundtrip ::
    "(u8 list \<Rightarrow> 'd + Payload) \<Rightarrow> (Payload \<Rightarrow> u8 list) \<Rightarrow> unit option" where
  "metric_value_bool_roundtrip decode encode =
     do { metrics \<leftarrow> through decode encode ''active'' (MetricBool True);
          assert_eq (metric_value (metrics ! 0)) (Some (BooleanValue True)) }"

definition metric_value_int_roundtrip ::
    "(u8 list \<Rightarrow> 'd + Payload) \<Rightarrow> (Payload \<Rightarrow> u8 list) \<Rightarrow> unit option" where
  "metric_value_int_roundtrip decode encode =
     do { metrics \<leftarrow> through decode encode ''count'' (MetricInt 99);
          assert_eq (metric_value (metrics ! 0)) (Some (LongValue 99)) }"

definition decode_payload_reads_back_what_was_encoded ::
    "(u8 list \<Rightarrow> 'd + Payload) \<Rightarrow> (Payload \<Rightarrow> u8 list) \<Rightarrow> unit option" where
  "decode_payload_reads_back_what_was_encoded decode encode =
     (let payload =
            \<lparr>payload_timestamp = Some 1700000000000,
             payload_metrics =
               [Metric (Some ''temperature'') None None (Some 10) None None None None None
                  (Some (DoubleValue 0x4045400000000000))],
             payload_seq = None, payload_uuid = None, payload_body = None\<rparr>
      in do { decoded \<leftarrow> unwrap (decode_payload decode (encode payload));
              assert_eq decoded payload })"

text \<open>The metric of the one message a call sent, and the three paths that build one.\<close>

definition metric_sent ::
    "(u8 list \<Rightarrow> 'd + Payload) \<Rightarrow> unit outcome \<times> client \<Rightarrow> Metric option" where
  "metric_sent decode call =
     do { client \<leftarrow> accepted call;
          publish \<leftarrow> nth_sent 0 client;
          payload \<leftarrow> unwrap (decode_payload decode (req_payload publish));
          check (length (payload_metrics payload) = 1);
          Some (payload_metrics payload ! 0) }"

definition from_named_edge_node ::
    "(u8 list \<Rightarrow> 'd + Payload) \<Rightarrow> (Payload \<Rightarrow> u8 list) \<Rightarrow> Metric option" where
  "from_named_edge_node decode encode =
     metric_sent decode (publish_metric encode 0 ''PlantFloor'' ''edge_node_1'' ''pump_3'' ''temperature''
       (MetricFloat 0x4037800000000000) 1700000000000 id Taken wired_publisher)"

definition from_built_topic ::
    "(u8 list \<Rightarrow> 'd + Payload) \<Rightarrow> (Payload \<Rightarrow> u8 list) \<Rightarrow> Metric option" where
  "from_built_topic decode encode =
     do { topic \<leftarrow> ddata_of wired_publisher;
          metric_sent decode (publish_metric_to encode 0 topic ''temperature''
            (MetricFloat 0x4037800000000000) 1700000000000 id Taken wired_publisher) }"

definition from_batch ::
    "(u8 list \<Rightarrow> 'd + Payload) \<Rightarrow> (Payload \<Rightarrow> u8 list) \<Rightarrow> int \<Rightarrow> Metric option" where
  "from_batch decode encode clock =
     do { topic \<leftarrow> ddata_of wired_publisher;
          metric_sent decode (publish_metrics_to encode 0 clock topic
            [(''temperature'', MetricFloat 0x4037800000000000, 1700000000000)] id Taken wired_publisher) }"

definition every_publish_path_writes_the_same_metric ::
    "(u8 list \<Rightarrow> 'd + Payload) \<Rightarrow> (Payload \<Rightarrow> u8 list) \<Rightarrow> int \<Rightarrow> unit option" where
  "every_publish_path_writes_the_same_metric decode encode clock =
     do { named \<leftarrow> from_named_edge_node decode encode;
          built \<leftarrow> from_built_topic decode encode;
          batched \<leftarrow> from_batch decode encode clock;
          assert_eq named built;
          assert_eq named batched }"

definition the_metric_on_the_wire_carries_the_name_datatype_and_instant ::
    "(u8 list \<Rightarrow> 'd + Payload) \<Rightarrow> (Payload \<Rightarrow> u8 list) \<Rightarrow> unit option" where
  "the_metric_on_the_wire_carries_the_name_datatype_and_instant decode encode =
     do { metric \<leftarrow> from_named_edge_node decode encode;
          assert_eq (metric_name metric) (Some ''temperature'');
          assert_eq (metric_datatype metric) (Some (code DT_Double));
          assert_eq (metric_timestamp metric) (Some 1700000000000);
          assert_eq (metric_value metric) (Some (DoubleValue 0x4037800000000000)) }"

definition codec_tests ::
    "(u8 list \<Rightarrow> 'd + Payload) \<Rightarrow> (Payload \<Rightarrow> u8 list) \<Rightarrow> int \<Rightarrow> unit option list" where
  "codec_tests decode encode clock =
     [metric_value_float_roundtrip decode encode, metric_value_string_roundtrip decode encode,
      metric_value_bool_roundtrip decode encode, metric_value_int_roundtrip decode encode,
      decode_payload_reads_back_what_was_encoded decode encode,
      every_publish_path_writes_the_same_metric decode encode clock,
      the_metric_on_the_wire_carries_the_name_datatype_and_instant decode encode]"

lemma metric_sent_wired:
  assumes "decodes decode encode" and "topic_key topic = Some k"
  shows "metric_sent decode (publish_metrics_on encode 0 topic [metric] instant id Taken wired_publisher) =
    Some metric"
proof -
  obtain result c where call: "publish_metrics_on encode 0 topic [metric] instant id
      (Taken :: unit client_answer) wired_publisher = (result, c)"
    by (cases "publish_metrics_on encode 0 topic [metric] instant id (Taken :: unit client_answer) wired_publisher")
  have "holder_at (cl_seq wired_publisher) k = None" "cl_wire wired_publisher = []"
    by (simp_all add: wired_publisher_def wired_def)
  with publish_metrics_on_free [OF assms(2) _ call] assms(1) show ?thesis
    by (simp add: metric_sent_def call accepted_def nth_sent_def get_def decode_payload_def decodes_def
        message_request_def create_payload_def check_def Let_def)
qed

lemma codec_tests_pass:
  assumes "decodes decode encode"
  shows "list_all passes (codec_tests decode encode clock)"
proof -
  let ?t = "ddata sparkplug_b (GroupId ''PlantFloor'') (EdgeNodeId ''edge_node_1'') (DeviceId ''pump_3'')"
  let ?m = "create_metric ''temperature'' (MetricFloat 0x4037800000000000) (Timestamp 1700000000000)"
  have topics: "ddata_of wired_publisher = Some ?t" "topic_key ?t = Some ''PlantFloor/edge_node_1''"
    "(ddata_topic wired_publisher ''PlantFloor'' ''edge_node_1'' ''pump_3'' :: unit SparkplugError + _) = Inr ?t"
    by code_simp+
  note sent = metric_sent_wired [OF assms topics(2)]
  have "from_named_edge_node decode encode = Some ?m" "from_built_topic decode encode = Some ?m"
    "from_batch decode encode clock = Some ?m"
    by (simp_all add: from_named_edge_node_def from_built_topic_def from_batch_def publish_metric_def
        publish_metric_to_def publish_metrics_to_def proto_metrics_def topics sent Let_def)
  then show ?thesis
    using assms
    by (simp add: codec_tests_def metric_value_float_roundtrip_def metric_value_string_roundtrip_def
        metric_value_bool_roundtrip_def metric_value_int_roundtrip_def through_def
        decode_payload_reads_back_what_was_encoded_def every_publish_path_writes_the_same_metric_def
        the_metric_on_the_wire_carries_the_name_datatype_and_instant_def decodes_def decode_payload_def
        create_payload_def create_metric_def Let_def)
qed



section \<open>All tests\<close>

text \<open>
  The unit tests of the repository hold of the model: every test that the
  model can run, those beside the code of eight modules and those in files of
  their own for the topic, the event loop and the client. It holds for every
  number the generator of client ids may draw, for every cast of a NaN, for every
  clock and over every codec that gives payloads back.
\<close>

theorem unit_tests_pass:
  assumes "decodes decode encode"
  shows "list_all passes (types_tests @ datatype_tests @ ids_tests @ payload_helpers_tests @
     mqtt_tests tcp random @ delivery_tests @ seq_tests @ payload_tests nan_of @
     topic_tests @ eventloop_tests @ counting_tests @ wire_tests tcp @ number_tests @ birth_tests @
     codec_tests decode encode clock)"
  by (simp only: list_all_append types_tests_pass datatype_tests_pass ids_tests_pass
      payload_helpers_tests_pass mqtt_tests_pass delivery_tests_pass seq_tests_pass payload_tests_pass
      topic_tests_pass eventloop_tests_pass counting_tests_pass wire_tests_pass number_tests_pass
      birth_tests_pass codec_tests_pass [OF assms])

theorem unit_tests_pass_witness:
  "list_all passes (codec_tests number_decode number_encode 0) \<and>
   list_all passes (mqtt_tests () 7) \<and> list_all passes (wire_tests ())"
  using unit_tests_pass [OF number_decodes, of "()" 7 "\<lambda>_. 0" 0] by (simp only: list_all_append simp_thms)

end
