(* ===== verification/Spec2Isabelle.thy ===== *)
theory Spec2Isabelle
  imports Gate_Queue Delivery_Windows Clean_Shutdown Shutdown_Time Delivery_Ledger Delivery_Wakeup
    Metric_Reading Error_Text Tls_Transport Topic_Access Host_Reading Example_Program
    Unit_Tests_Client
begin

text \<open>
  A verification of the crate \<open>sparkplug-mqtt\<close>, a client of the Sparkplug B
  protocol over MQTT.

  \<^bold>\<open>The program.\<close> A client connects to a broker in one of two roles. A
  publisher names the edge node of each publish and publishes at QoS 1; an edge
  node client names one edge node when it connects and announces its births. Each
  publish draws the next sequence number of its edge node under a gate, counts
  itself in the delivery tracker if its role tracks delivery, and hands the
  message to \<open>rumqttc\<close>. A background task polls the MQTT event loop and tells the
  tracker what is acknowledged and when the link is lost. \<open>flush\<close> waits for the
  tracker, and \<open>shutdown\<close> flushes, asks for the DISCONNECT and waits for the loop
  to report it.

  \<^bold>\<open>Which theory models what.\<close> Paths are under \<open>src/src\<close>; definitions carry the
  names of the source, and methods of one name carry their type in front
  (\<open>GroupId_new\<close>, \<open>Namespace_new\<close>).

  \<^item> \<open>Prelude\<close>: machine integers, \<open>Result\<close> and \<open>?\<close>, splitting and decimal text; the
    locales \<open>codec\<close> and \<open>canonical_codec\<close> (a writer and its reader),
    \<open>machine_invariant\<close> and \<open>simulation\<close> (runs of labelled machines).
  \<^item> \<open>Errors\<close> and \<open>Error_Text\<close>: \<open>error.rs\<close>, the variants and their texts.
  \<^item> \<open>Types\<close>, \<open>Data_Type\<close>: \<open>sparkplug/types.rs\<close> and \<open>datatype.rs\<close>: message types,
    roles, wire options, timestamps, datatype codes.
  \<^item> \<open>Topic_Ids\<close>, \<open>Topic\<close>, \<open>Topic_Access\<close>: \<open>sparkplug/topic/ids.rs\<close> and
    \<open>topic.rs\<close>: checked identifiers, the namespace with its constructors and
    parser, the topic text, and the accessors with the assertion of a debug build.
  \<^item> \<open>Payload\<close>, \<open>Payload_Helpers\<close>, \<open>Metric_Reading\<close>: the messages of
    \<open>sparkplugb.proto\<close> as data, the builders of \<open>sparkplug/payload_helpers.rs\<close>, and
    the two readers of \<open>payload.rs\<close> with their casts to \<open>f64\<close> bit by bit.
  \<^item> \<open>Float_Bits\<close>, \<open>Float_Text\<close>: the fields of an \<open>f32\<close> and an \<open>f64\<close>, and the
    shortest decimal text \<open>Display\<close> gives them, with the locale \<open>float_format\<close>
    for what the two formats share.
  \<^item> \<open>Seq\<close>: \<open>sparkplug/seq.rs\<close>: the counts, their gates and the reservations, with
    the locale \<open>gated_counter\<close> as their interface.
  \<^item> \<open>Delivery\<close>, \<open>Delivery_Ledger\<close>, \<open>Delivery_Wakeup\<close>: \<open>sparkplug/delivery.rs\<close>: the
    critical sections of the tracker, the ledger of single messages it implements,
    and the waiting loop of \<open>flush\<close> beside the sections that wake it.
  \<^item> \<open>Event_Loop\<close>: \<open>sparkplug/eventloop.rs\<close>: one turn of the loop and whole runs.
  \<^item> \<open>Mqtt_Config\<close>, \<open>Tls_Transport\<close>: \<open>client.rs\<close>: options, generated client id,
    debug text, and the root store of the TLS transport.
  \<^item> \<open>Client\<close>, \<open>Shutdown_Time\<close>: \<open>sparkplug/client.rs\<close> and \<open>client/shutdown.rs\<close>:
    connecting, roles, flush and shutdown, and the shutdown against a clock.
  \<^item> \<open>Publish\<close>: \<open>sparkplug/client/publish.rs\<close>, each call as one function of what the
    client answers and of what happens meanwhile.
  \<^item> \<open>Publish_Steps\<close>, \<open>Publish_Chains\<close>, \<open>Publish_Machine\<close>: the same calls as tasks
    that interleave with each other and with the event loop, a step being what a
    task does between two awaits; the chains of numbers; the invariant and what
    follows from it.
  \<^item> \<open>Calls_End\<close>: the steps of that machine that a call takes, and how many are left.
  \<^item> \<open>Gate_Queue\<close>: the same machine with the queue in front of each gate, in which the
    calls stand in the order they came, as \<open>tokio::sync::Mutex\<close> keeps it.
  \<^item> \<open>Serial_Calls\<close>: the same calls done whole, one after the other, and that a run of
    the machine does what they do (locale \<open>serializable\<close> of \<open>Prelude\<close>).
  \<^item> \<open>Host_Reading\<close>: \<open>decode_payload\<close> of \<open>payload.rs\<close>, and what a host reads from the
    wire of that machine.
  \<^item> \<open>Publish_Delivery\<close>, \<open>Clean_Shutdown\<close>: that machine beside the broker that
    acknowledges, and a shutdown at the end of its runs. \<open>Delivery_Windows\<close>: the same
    with every cancellation and every end of a link, and what the tracker then misses.
  \<^item> \<open>Example_Program\<close>: \<open>examples/publish_every_30s.rs\<close>.
  \<^item> \<open>Unit_Tests\<close>, \<open>Unit_Tests_State\<close>, \<open>Unit_Tests_Topic\<close>, \<open>Unit_Tests_Client\<close>: the
    tests beside the code in eight of its modules and those of \<open>topic/tests.rs\<close>,
    \<open>eventloop/tests.rs\<close> and \<open>client/tests\<close>, as programs over the model.

  \<^bold>\<open>What the lemmas show.\<close> Of the machine: an invariant ties counts, gates, pending
  messages and the wire together (\<open>machine_inv\<close>), from which come the numbers a host
  reads and the exclusion by gates; the moves that a call in the queue of a gate still
  has before it (\<open>turns_left\<close>), so that every wait for one is bounded; a measure that
  every step of a call lowers, so that all calls end; a relation to the serial client
  (\<open>as_if\<close>), so that interleaved calls take effect one after the other; that the wire
  says what callers said (\<open>said\<close>); a second invariant (\<open>balanced\<close>) ties the tracker to
  the messages that wait, and with it what an \<open>Ok\<close> shutdown confirms; where messages
  are taken uncounted, a third (\<open>nearly_balanced\<close>) bounds what the tracker misses.
  What is shown only of runs without the cancellation window says so. Of a shutdown:
  the deadline it meets. Of the tracker: a simulation by the ledger, the meaning of an
  \<open>Ok\<close> flush, and that no wakeup is lost. Of the texts: each writer is read back by a
  reader, so texts are unambiguous, and the parser of topics accepts exactly the texts
  of well-formed topics outside one group. Of the casts: the nearest double, exact
  where it can be. Of the text of a float: a reader that rounds gets the float back.
  Of the example: the numbers of what its client took have no gap. Of the unit tests:
  each holds of the model.
  This theory holds the properties that need several components at once.

  The proofs also show where the code does less than its documents say: a birth
  that ends between its two messages leaves a gap in the numbers unless the count stood
  at zero (below), topics of the group STATE are built and never read back (\<open>Topic\<close>), an integer metric of a
  signed datatype reads as unsigned (\<open>Metric_Reading\<close>), and an acknowledgement can
  clear the count of another publish, after a cancellation in the instant the
  client takes a message or for a message that waited across a disconnect
  (\<open>Publish_Delivery\<close>).

  \<^bold>\<open>Bounds.\<close> Sums are those of a release build, which wrap. The ledger is followed
  up to \<open>2 ^ 32\<close> publishes in all and \<open>2 ^ 64\<close> disconnects; the machines of
  \<open>Delivery_Wakeup\<close>, \<open>Publish_Delivery\<close> and \<open>Delivery_Windows\<close> stop at \<open>2 ^ 32 - 1\<close> outstanding
  publishes. Nothing uses fuel: loops of the source run over a list, and loops that
  wait are steps of a machine. The search for the digits of a float runs over
  \<open>positions\<close>, which reach from above the largest finite float to the last digit
  of the smallest, so the search ends with a text for every finite float.

  \<^bold>\<open>Parameters.\<close> What belongs to other crates is an argument: what
  \<open>AsyncClient::publish\<close> answers, the bytes of an encoded payload and what a reader
  decodes from them (\<open>reads_seq\<close>, \<open>decodes\<close>), the events the loop polls, the results of timers
  and channels, \<open>wait_for\<close> of a watch channel (\<open>wait_for_sound\<close>), \<open>Notify\<close>
  (\<open>notify_laws\<close>), the root store of rustls (\<open>store_laws\<close>), the clock and random
  numbers. Errors of other crates are a type parameter. Strings are their UTF-8
  bytes and floats their bits.

  \<^bold>\<open>Not modelled.\<close> The code prost generates, which encodes and decodes payloads; the
  bits of a NaN that is cast, which Rust leaves open; log texts; the rustls
  configuration beyond its root store; a poisoned lock, which the code recovers
  from. Of the tests: those of \<open>tests/delivery.rs\<close>, which need a broker, and the ones
  on addresses of strings, on the clock of the host and on bytes that
  prost rejects.
\<close>

section \<open>Properties that span components\<close>





text \<open>
  C28. What connecting gives, outcome by outcome. On a version no topic could carry it
  is \<open>InvalidNamespace\<close> with that version, before a loop is started. Otherwise, when
  the time runs out it is \<open>ConnectionTimeout\<close> with the time allowed, and the loop
  that was started is aborted. Otherwise it is a client with an empty wire and no
  counts, of the identity asked for, on the namespace of the configuration, whose
  loop runs and whose tracker and health are what the loop made of the events so far;
  it comes with the ready signal, which means that the broker acknowledged the
  connection, but also when the sender of the signal is dropped. The session asked
  for is always a clean one.
\<close>

theorem connect_outcomes:
  assumes "connect_with random config identity t events waited =
      ((result, task, parts) :: ('x SparkplugError + client) \<times> loop_task \<times> ('t MqttOptions \<times> nat))"
    and "case identity of IdentityPublisher \<Rightarrow> True | IdentityEdgeNode owned \<Rightarrow> edge_node_usable (of_owned owned)"
    and "ready_consistent events waited"
  shows "(if \<not> is_usable_segment (version config)
      then result = Inl (InvalidNamespace (version config)) \<and> task = NotSpawned
      else if waited = ReadyElapsed
      then result = Inl (ConnectionTimeout t) \<and> task = Aborted
      else task = Running \<and> (waited = ReadySignalled \<longrightarrow> Inr (Incoming ConnAck) \<in> set events) \<and>
        (\<exists>c. result = Inr c \<and> fresh_client c \<and> cl_identity c = identity \<and>
           ns_text (cl_namespace c) = version config \<and> cl_loop c = Running \<and>
           cl_delivery c = foldl apply_event DeliveryTracker_new events \<and>
           cl_health c = foldl apply_health Disconnected_link events)) \<and>
    opt_clean_session (fst parts)"
proof -
  have clean: "opt_clean_session (fst parts)"
    using assms(1)
    by (auto simp: connect_with_def mqtt_parts_def mqtt_options_def Let_def
        split: sum.splits ready_wait.splits)
  have signal: "waited = ReadySignalled \<Longrightarrow> Inr (Incoming ConnAck) \<in> set events"
    using assms(3) ready_consistent_ConnAck [of events] by simp
  show ?thesis
  proof (cases "is_usable_segment (version config)")
    case False
    with assms(1) clean show ?thesis by (auto simp: connect_with_def Namespace_new_def Let_def)
  next
    case True
    let ?c = "\<lparr>cl_wire = [], cl_namespace = Namespace (version config), cl_identity = identity,
        cl_delivery = foldl apply_event DeliveryTracker_new events, cl_seq = SeqCounters_new,
        cl_health = foldl apply_health Disconnected_link events, cl_loop = Running\<rparr>"
    have "fresh_client ?c"
      using assms(2) True by (auto simp: fresh_client_def edge_node_def split: Identity.splits)
    moreover have "if waited = ReadyElapsed then result = Inl (ConnectionTimeout t) \<and> task = Aborted
        else result = Inr ?c \<and> task = Running"
      using assms(1) True
      by (cases waited)
         (auto simp: connect_with_def Namespace_new_def Let_def loop_run_delivery loop_run_health loop_init_def)
    ultimately show ?thesis using True clean signal by auto
  qed
qed

theorem connect_outcomes_witness:
  "\<exists>c. fst (connect_with 7 \<lparr>broker_url = ''localhost'', broker_port = 1883, transport = (),
       username = ''u'', password = ''p'', client_id = None, version = ''spBv1.0''\<rparr> IdentityPublisher
       (from_secs 5) [Inr (Incoming ConnAck) :: unit polled] ReadySignalled) =
       (Inr c :: unit SparkplugError + client) \<and> fresh_client c"
proof -
  let ?config = "\<lparr>broker_url = ''localhost'', broker_port = 1883, transport = (),
       username = ''u'', password = ''p'', client_id = None, version = ''spBv1.0''\<rparr> :: unit MqttConfig"
  let ?call = "connect_with 7 ?config IdentityPublisher (from_secs 5)
    [Inr (Incoming ConnAck) :: unit polled] ReadySignalled
    :: (unit SparkplugError + client) \<times> loop_task \<times> (unit MqttOptions \<times> nat)"
  obtain result task parts where call: "?call = (result, task, parts)" by (cases ?call)
  have "ready_consistent [Inr (Incoming ConnAck) :: unit polled] ReadySignalled"
    by (simp add: ready_consistent_ConnAck)
  moreover have "is_usable_segment (version ?config)" by (simp add: is_usable_segment_iff)
  ultimately have "\<exists>c. result = Inr c \<and> fresh_client c"
    using connect_outcomes [OF call] by simp blast
  then show ?thesis using call by auto
qed


text \<open>
  C40. One publish and its flush: after a publisher client with nothing outstanding
  and no loss unreported hands one message over, and publishes nothing else, the
  drain a flush waits for does not come before the loop reads an acknowledgement or
  the end of the link, whatever else it reads before, and comes with it; a flush that
  then ends returns \<open>Ok\<close> after the acknowledgement and \<open>PublishLost 1\<close> after the end
  of the link.
\<close>

theorem publish_then_flush:
  fixes r :: "'x outcome"
  assumes "role c = RolePublisher" and "topic_key topic = Some k" and "holder_at (cl_seq c) k = None"
    and "unacked (cl_delivery c) = 0" and "lost (cl_delivery c) = 0"
    and "publish_metric_to encode party topic name v ts id Taken c = (r, c1)"
    and quiet: "\<forall>e\<in>set es. \<not> loss_event e \<and> e \<noteq> Inr (Incoming PubAck)"
    and finish: "loss_event ending \<or> ending = Inr (Incoming PubAck)"
  shows "\<not> drained_now (foldl apply_event (cl_delivery c1) es) \<and>
    drained_now (foldl apply_event (cl_delivery c1) (es @ [ending])) \<and>
    fst (client_flush t (\<lambda>st. foldl apply_event st (es @ [ending])) (Inr ()) c1) =
      (if loss_event ending then Inl (PublishLost 1) else Inr () :: 'x SparkplugError + unit)"
proof -
  have "publish_metrics_on encode party topic [create_metric name v (Timestamp ts)] (Timestamp ts) id
      (Taken :: 'x client_answer) c = (r, c1)"
    using assms(6) by (simp add: publish_metric_to_def)
  then have "cl_delivery c1 = delivery_after c topic id (Taken :: 'x client_answer)"
    by (rule publish_metrics_on_free(5) [OF assms(2,3)])
  then have st: "unacked (cl_delivery c1) = 1" "lost (cl_delivery c1) = 0"
    "reported (cl_delivery c1) = reported (cl_delivery c)"
    using assms(1,4,5)
    by (simp_all add: delivery_after_def publish_with_options_halves count_publish_def tracked_iff
        settle_publish_def publish_in_flight_def record_publish_def Let_def)
  have still: "foldl apply_event st es = st" for st
    using quiet by (induction es) (auto simp: apply_event_no_loss)
  have "apply_event (cl_delivery c1) ending = (if loss_event ending then record_disconnect (cl_delivery c1)
      else record_ack (cl_delivery c1))"
    using finish apply_event_loss [of ending] apply_event_no_loss [of ending] by auto
  then show ?thesis
    using st by (simp add: still drained_now_def record_disconnect_def record_ack_def release_one_def
        saturating_dec_def client_flush_def flush_def flush_open_def flush_close_def Let_def
        to_u32_saturating_def split_beta)
qed


theorem publish_then_flush_witness:
  "\<exists>r c1. publish_metric_to (\<lambda>_. []) 0
       (ddata sparkplug_b (GroupId ''g'') (EdgeNodeId ''n'') (DeviceId ''d'')) ''temp'' (MetricBool True) 7 id
       (Taken :: unit client_answer) (idle_client ''spBv1.0'' IdentityPublisher) = (r, c1) \<and>
     fst (client_flush 9 (\<lambda>st. foldl apply_event st [Inr (Incoming OtherPacket), Inl ''reset'']) (Inr ()) c1) =
       (Inl (PublishLost 1) :: unit SparkplugError + unit)"
proof -
  let ?c = "idle_client ''spBv1.0'' IdentityPublisher"
  let ?t = "ddata sparkplug_b (GroupId ''g'') (EdgeNodeId ''n'') (DeviceId ''d'')"
  let ?es = "[Inr (Incoming OtherPacket)] :: string polled list" and ?e = "Inl ''reset'' :: string polled"
  obtain r c1 where call: "publish_metric_to (\<lambda>_. []) 0 ?t ''temp'' (MetricBool True) 7 id
      (Taken :: unit client_answer) ?c = (r, c1)"
    by (cases "publish_metric_to (\<lambda>_. []) 0 ?t ''temp'' (MetricBool True) 7 id (Taken :: unit client_answer) ?c")
  have client: "role ?c = RolePublisher" "topic_key ?t = Some ''g/n''" "holder_at (cl_seq ?c) ''g/n'' = None"
    "unacked (cl_delivery ?c) = 0" "lost (cl_delivery ?c) = 0"
    by (simp_all add: role_def idle_client_def ddata_def key_of_def DeliveryTracker_new_def)
  have quiet: "\<forall>e\<in>set ?es. \<not> loss_event e \<and> e \<noteq> Inr (Incoming PubAck)" and ends: "loss_event ?e"
    by (simp_all add: loss_event_def)
  show ?thesis
    using publish_then_flush [OF client call quiet disjI1 [OF ends], of 9] call ends by simp
qed

text \<open>
  A birth names the edge node given at connect: a client that connected as
  an edge node puts no birth message on the wire but for that edge node,
  whatever the two answers of its client are.
\<close>

theorem birth_names_connected_edge_node:
  assumes "connect_as_edge_node random config en t events waited =
      ((Inr c, task, parts) :: ('x SparkplugError + client) \<times> loop_task \<times> ('t MqttOptions \<times> nat))"
    and "edge_node_usable en" and "device_usable device"
    and "publish_birth encode party clock device mwn answer_n mwd answer_d c = (r, c1)"
  shows "\<forall>rq\<in>set (cl_wire c1). \<exists>mt s. wire_reading decode rq = Some (birth_key en, mt, s) \<and>
    mt \<in> {NBIRTH, DBIRTH}"
proof -
  have c: "edge_node c = Some en" "cl_wire c = []" "cl_seq c = SeqCounters_new"
    "is_usable_segment (ns_text (cl_namespace c))"
    using assms(1)
    by (auto simp: connect_as_edge_node_def connect_with_def Let_def edge_node_def
        split: sum.splits ready_wait.splits)
  then have "holder_at (cl_seq c) (birth_key en) = None" by simp
  from publish_birth_free(2) [OF c(1) this assms(4)] c(2)
  have wire: "set (cl_wire c1) \<subseteq> {nbirth_request encode clock c en, dbirth_request encode clock c en device}"
    by (auto split: client_answer.splits)
  let ?nt = "nbirth (cl_namespace c) (en_group en) (en_edge_node_id en)"
  let ?dt = "dbirth (cl_namespace c) (en_group en) (en_edge_node_id en) device"
  have wf: "well_formed ?nt" "well_formed ?dt"
    using assms(2,3) c(4) by (simp_all add: nbirth_def dbirth_def edge_node_usable_def
        node_topic_well_formed device_topic_well_formed)
  have "topic_key ?nt = Some (birth_key en)" "topic_key ?dt = Some (birth_key en)"
    "topic_message_type ?nt = NBIRTH" "topic_message_type ?dt = DBIRTH"
    by (simp_all add: nbirth_def dbirth_def birth_key_def)
  with wire show ?thesis
    using wire_reading_message [OF wf(1)] wire_reading_message [OF wf(2)]
    by (auto simp: nbirth_request_def dbirth_request_def)
qed

theorem birth_names_connected_edge_node_witness:
  "\<exists>c r c1. fst (connect_as_edge_node 7 \<lparr>broker_url = ''localhost'', broker_port = 1883, transport = (),
       username = ''u'', password = ''p'', client_id = None, version = ''spBv1.0''\<rparr>
       (EdgeNode_new (GroupId ''g'') (EdgeNodeId ''n'')) DEFAULT_CONNECT_TIMEOUT
       [Inr (Incoming ConnAck) :: unit polled] ReadySignalled) = (Inr c :: unit SparkplugError + client) \<and>
     publish_birth unary_encode 0 0 (DeviceId ''d'') id (Taken :: unit client_answer) id Taken c = (r, c1) \<and>
     (\<forall>rq\<in>set (cl_wire c1). \<exists>mt s. wire_reading unary_decode rq = Some (''g/n'', mt, s))"
proof -
  let ?config = "\<lparr>broker_url = ''localhost'', broker_port = 1883, transport = (),
       username = ''u'', password = ''p'', client_id = None, version = ''spBv1.0''\<rparr> :: unit MqttConfig"
  let ?en = "EdgeNode_new (GroupId ''g'') (EdgeNodeId ''n'')"
  let ?call = "connect_as_edge_node 7 ?config ?en DEFAULT_CONNECT_TIMEOUT
    [Inr (Incoming ConnAck) :: unit polled] ReadySignalled
    :: (unit SparkplugError + client) \<times> loop_task \<times> (unit MqttOptions \<times> nat)"
  obtain c task parts where call: "?call = (Inr c, task, parts)"
    by (simp add: connect_as_edge_node_def connect_with_def Namespace_new_def is_usable_segment_iff Let_def)
  obtain r c1 where birth: "publish_birth unary_encode 0 0 (DeviceId ''d'') id (Taken :: unit client_answer) id Taken c = (r, c1)"
    by (cases "publish_birth unary_encode 0 0 (DeviceId ''d'') id (Taken :: unit client_answer) id Taken c")
  have ids: "edge_node_usable ?en" "device_usable (DeviceId ''d'')" and key: "birth_key ?en = ''g/n''"
    by (simp_all add: edge_node_usable_def EdgeNode_new_def is_usable_segment_iff birth_key_def key_of_def)
  from birth_names_connected_edge_node [OF call ids birth, of unary_decode]
  have "\<forall>rq\<in>set (cl_wire c1). \<exists>mt s. wire_reading unary_decode rq = Some (''g/n'', mt, s)"
    by (auto simp: key)
  with call birth show ?thesis by (intro exI [of _ c] exI [of _ r] exI [of _ c1]) simp
qed

end
